(* ===== verification/Waf_Prelude.thy ===== *)
theory Waf_Prelude
  imports Main "HOL-Library.Word"
begin

text \<open>
  Prelude of the development: the C types of the nginx module as HOL types, the return codes of
  nginx, time arithmetic on \<open>ngx_msec_t\<close>, and the generic facts on words and lists that the
  component theories share.

  The module is modelled for an LP64 platform: \<open>ngx_uint_t\<close>, \<open>ngx_msec_t\<close> and
  \<open>uint64_t\<close> are 64 bits wide and \<open>u_char\<close> is 8 bits wide.
\<close>

unbundle bit_operations_syntax

named_theorems waf_defs \<open>definitions a component proof unfolds\<close>
named_theorems waf_inv \<open>preservation facts of the component invariants\<close>

type_synonym byte = "8 word"
type_synonym bytes = "8 word list"
type_synonym u32 = "32 word"
type_synonym u64 = "64 word"
type_synonym msec = "64 word"
type_synonym mask = "64 word"

text \<open>The return codes of nginx that the modelled functions use.\<close>

datatype rc = NGX_OK | NGX_ERROR | NGX_AGAIN | NGX_BUSY | NGX_DONE | NGX_DECLINED

text \<open>
  \<open>(ngx_msec_int_t) (a - b)\<close>: the signed reading of a wrapping difference, by which every
  deadline of the module is compared.
\<close>

definition msec_diff :: "msec \<Rightarrow> msec \<Rightarrow> int" where
  "msec_diff a b = sint (a - b)"

lemma msec_diff_self [simp]: "msec_diff a a = 0"
  by (simp add: msec_diff_def)

lemma sint_eq_unat_small:
  fixes d :: msec
  assumes "unat d < 2 ^ 63"
  shows "sint d = int (unat d)"
proof -
  have "int (unat d) < int (2 ^ 63)" using assms by (simp only: of_nat_less_iff)
  then have "uint d < 2 ^ 63" by simp
  then have "signed_take_bit 63 (uint d) = uint d"
    using uint_ge_0 [of d] by (intro signed_take_bit_int_eq_self) linarith+
  then show ?thesis by (simp add: sint_uint)
qed

lemma sint_le_unat: "sint w \<le> int (unat w)" for w :: u64
proof (cases "unat w < 2 ^ 63")
  case True
  then show ?thesis using sint_eq_unat_small by simp
next
  case False
  then have "int (2 ^ 63) \<le> int (unat w)" by (simp only: of_nat_le_iff not_less)
  then show ?thesis using sint_lt [of w] by simp
qed

lemma msec_diff_add:
  assumes "unat d < 2 ^ 63"
  shows "msec_diff (a + d) a = int (unat d)"
  using sint_eq_unat_small [OF assms] by (simp add: msec_diff_def)

text \<open>ASCII literals of the source as bytes.\<close>

definition ascii :: "string \<Rightarrow> bytes" where
  "ascii s = map of_char s"

lemma length_ascii [simp]: "length (ascii s) = length s"
  by (simp add: ascii_def)

subsection \<open>Masks: one bit per inspector\<close>

definition bit64 :: "nat \<Rightarrow> mask" where
  "bit64 i = push_bit i 1"

lemma bit_bit64 [simp]: "bit (bit64 i) n \<longleftrightarrow> n = i \<and> i < 64"
  by (auto simp: bit64_def push_bit_of_1 bit_exp_iff)

lemma mask_eq_iff: "(a :: mask) = b \<longleftrightarrow> (\<forall>n<64. bit a n = bit b n)"
proof
  assume "\<forall>n<64. bit a n = bit b n"
  then show "a = b" by (intro bit_word_eqI) simp
qed simp

lemma mask_zero_iff: "(m :: mask) = 0 \<longleftrightarrow> (\<forall>n<64. \<not> bit m n)"
  by (simp add: mask_eq_iff)

lemma and_bit64_zero: "i < 64 \<Longrightarrow> (m AND bit64 i = 0) \<longleftrightarrow> \<not> bit m i"
  by (auto simp: mask_zero_iff bit_and_iff)

lemma bit64_and_zero: "i < 64 \<Longrightarrow> (bit64 i AND m = 0) \<longleftrightarrow> \<not> bit m i"
  by (auto simp: mask_zero_iff bit_and_iff)

lemmas mask_bits = bit_and_iff bit_or_iff bit_xor_iff bit_not_iff

subsection \<open>The first element of an array that satisfies a condition\<close>

fun find_idx :: "('a \<Rightarrow> bool) \<Rightarrow> 'a list \<Rightarrow> nat option" where
  "find_idx P [] = None"
| "find_idx P (x # xs) = (if P x then Some 0 else map_option Suc (find_idx P xs))"

lemma find_idx_None [simp]: "find_idx P xs = None \<longleftrightarrow> (\<forall>x\<in>set xs. \<not> P x)"
  by (induction xs) auto

lemma find_idx_Some:
  "find_idx P xs = Some i \<Longrightarrow> i < length xs \<and> P (xs ! i) \<and> (\<forall>j<i. \<not> P (xs ! j))"
proof (induction xs arbitrary: i)
  case (Cons x xs)
  then show ?case by (auto split: if_splits simp: less_Suc_eq_0_disj nth_Cons')
qed simp

subsection \<open>Arrays with one element per key\<close>

text \<open>
  The merging loops look for a live element with the same key and replace it in place, or push the
  new one. \<open>same\<close> is the comparison of the keys.
\<close>

locale keyed_array =
  fixes same :: "'a \<Rightarrow> 'a \<Rightarrow> bool"
  assumes same_equiv: "equivp same"
begin

definition unique :: "'a list \<Rightarrow> bool" where
  "unique xs \<longleftrightarrow> sorted_wrt (\<lambda>x y. \<not> same x y) xs"

lemma unique_Nil: "unique []"
  by (simp add: unique_def)

lemma unique_push:
  assumes "unique xs" and "find_idx (\<lambda>x. same x a) xs = None"
  shows "unique (xs @ [a])"
  using assms by (simp add: unique_def sorted_wrt_append)

lemma unique_replace:
  assumes "unique xs" and "find_idx (\<lambda>x. same x a) xs = Some j"
  shows "unique (xs[j := a])"
proof -
  have sym: "same x y \<Longrightarrow> same y x" and trans: "same x y \<Longrightarrow> same y z \<Longrightarrow> same x z" for x y z
    using same_equiv by (blast dest: equivp_symp equivp_transp)+
  have j: "j < length xs" "same (xs ! j) a" using find_idx_Some [OF assms(2)] by auto
  have u: "\<not> same (xs ! k) (xs ! l)" if "k < l" "l < length xs" for k l
    using assms(1) that by (simp add: unique_def sorted_wrt_iff_nth_less)
  show ?thesis
    unfolding unique_def sorted_wrt_iff_nth_less
  proof (intro allI impI)
    fix k l assume "k < l" "l < length (xs[j := a])"
    then have kl: "k < l" "l < length xs" "\<not> same (xs ! k) (xs ! l)" using u by simp_all
    consider "k = j" | "l = j" | "k \<noteq> j" "l \<noteq> j" by blast
    then show "\<not> same (xs[j := a] ! k) (xs[j := a] ! l)"
    proof cases
      case 1
      then show ?thesis using kl j(2) trans [of "xs ! j" a "xs ! l"] by auto
    next
      case 2
      then show ?thesis using kl j trans [OF _ sym, of "xs ! k" a "xs ! j"] by auto
    next
      case 3
      then show ?thesis using kl by simp
    qed
  qed
qed

lemma unique_member:
  assumes "unique xs" and "x \<in> set xs" and "y \<in> set xs" and "same x y"
  shows "x = y"
proof -
  obtain k l where kl: "k < length xs" "l < length xs" "xs ! k = x" "xs ! l = y"
    using assms(2,3) by (auto simp: in_set_conv_nth)
  have "\<not> k < l" "\<not> l < k"
    using assms(1,4) kl same_equiv
    by (auto simp: unique_def sorted_wrt_iff_nth_less dest: equivp_symp)
  then show ?thesis using kl by (cases k l rule: linorder_cases) auto
qed

end

lemma remove1_sum: "a \<in> set xs \<Longrightarrow> sum_list (map f xs) = f a + sum_list (map f (remove1 a xs))" for f :: "'a \<Rightarrow> nat"
  by (induction xs) auto

lemma option_eqI: "(\<And>m. x = Some m \<longleftrightarrow> y = Some m) \<Longrightarrow> x = y"
  by (cases x; cases y) auto

end
