(* ===== verification/Waf_Types.thy ===== *)
theory Waf_Types
  imports Waf_Prelude
begin

text \<open>
  The data model of the module (\<open>src/module/src/ngx_http_waf.h\<close>): its enumerations as
  datatypes, its structures as records. An \<open>ngx_array_t\<close> that may be \<open>NULL\<close> or empty and
  is treated alike in both cases is a list; an array indexed by an enumeration is a function on the
  datatype; a flag bit-field is a \<open>bool\<close>; an \<open>ngx_str_t\<close> is a byte list. Fields of the
  structures that only the parts outside this development read are left out.
\<close>

subsection \<open>Enumerations\<close>

datatype verdict = V_ALLOW | V_SCORE | V_REDIRECT | V_DENY | V_ERROR

datatype phase = PH_REQUEST | PH_RESPONSE | PH_FRAME_C2S | PH_FRAME_S2C

datatype resume = RESUME_OFF | RESUME_PREFER | RESUME_REQUIRE

datatype wstate =
    ST_INIT | ST_NEED_BODY | ST_READING_BODY | ST_PLACING_META | ST_FETCHING_FORM | ST_FINISH
  | ST_WAITING | ST_NEXT_WAVE | ST_ALLOW | ST_REDIRECT | ST_DENY | ST_FAILED | ST_DONE

datatype code =
    CODE_NONE | CODE_LOCAL_LIST | CODE_LOCAL_RATE | CODE_INSPECTOR | CODE_SCORE
  | CODE_FAIL_TIMEOUT | CODE_FAIL_ABSENT | CODE_FAIL_BUS | CODE_FAIL_BODY | CODE_FAIL_INSPECTOR
  | CODE_FAIL_OVERLOAD | CODE_LOCAL_UPGRADE

datatype entry_state = ENTRY_ANSWERED | ENTRY_TIMEOUT | ENTRY_ABSENT | ENTRY_SKIPPED | ENTRY_OFF

datatype policy = POLICY_PASS | POLICY_BLOCK | POLICY_TRIM

datatype exc = EXC_TIMEOUT | EXC_ABSENT | EXC_BUS | EXC_BODY | EXC_INSPECTOR | EXC_OVERLOAD

datatype deny_mode = DENY_FAST | DENY_DETERMINISTIC

datatype body_need = BODY_NONE | BODY_META | BODY_PREVIEW | BODY_FULL

datatype wobj = OBJ_HEADERS | OBJ_ARGS | OBJ_BODY

datatype imode = MODE_ACTIVE | MODE_PASSIVE | MODE_OFF | MODE_VOTE

datatype verb =
    DO_CHALLENGE | DO_THRESHOLD | DO_SKIP | DO_REAUTH | DO_NOTE | DO_MUTATE
  | DO_ACTIVE | DO_PASSIVE | DO_OFF | DO_VOTE | DO_AUDIT | DO_ARCHIVE | DO_MARK | DO_SCORE

datatype apply_axis =
    APPLY_REQUEST | APPLY_IP | APPLY_ASN | APPLY_SESSION | APPLY_CONN | APPLY_RESPONSE

datatype set_mode = SET_NONE | SET_ON | SET_OFF

datatype source = SOURCE_NONE | SOURCE_STORE | SOURCE_ORIGINAL | SOURCE_SENT

datatype ovr_slot = OVR_REQUEST | OVR_RESPONSE

datatype send = SEND_ORIGINAL | SEND_STORE

datatype scope =
    SCOPE_NONE | SCOPE_ADDRESS | SCOPE_NETWORK | SCOPE_COUNTRY | SCOPE_ASN | SCOPE_SESSION
  | SCOPE_REQUEST

datatype finish_how = FINISH_APPLY | FINISH_OVERRIDES | FINISH_FAIL

text \<open>The constants of the header.\<close>

abbreviation (input) MAX_INSPECTORS :: nat where "MAX_INSPECTORS \<equiv> 64"
abbreviation (input) MAX_WAVE :: nat where "MAX_WAVE \<equiv> 64"
abbreviation (input) SCORE_MAX :: int where "SCORE_MAX \<equiv> 100"
abbreviation (input) MARKERS_MAX :: nat where "MARKERS_MAX \<equiv> 16"
abbreviation (input) SESSIONS_MAX :: nat where "SESSIONS_MAX \<equiv> 8"
abbreviation (input) REWRITE_MAX_DEPTH :: nat where "REWRITE_MAX_DEPTH \<equiv> 8"
abbreviation (input) ACTION_ALL :: nat where "ACTION_ALL \<equiv> 18446744073709551615"
abbreviation (input) CAPTURE_LIMIT_WHOLE :: nat where "CAPTURE_LIMIT_WHOLE \<equiv> 0"
abbreviation (input) SLOT_NIL :: nat where "SLOT_NIL \<equiv> 18446744073709551615"
abbreviation (input) RID_HEX_LEN :: nat where "RID_HEX_LEN \<equiv> 16"
abbreviation (input) RAY_HEX_LEN :: nat where "RAY_HEX_LEN \<equiv> 36"

fun phase_is_frame :: "phase \<Rightarrow> bool" where
  "phase_is_frame PH_FRAME_C2S = True"
| "phase_is_frame PH_FRAME_S2C = True"
| "phase_is_frame _ = False"

fun phase_num :: "phase \<Rightarrow> nat" where
  "phase_num PH_REQUEST = 0"
| "phase_num PH_RESPONSE = 1"
| "phase_num PH_FRAME_C2S = 2"
| "phase_num PH_FRAME_S2C = 3"

fun obj_num :: "wobj \<Rightarrow> nat" where
  "obj_num OBJ_HEADERS = 0"
| "obj_num OBJ_ARGS = 1"
| "obj_num OBJ_BODY = 2"

text \<open>The order in which the loops over \<open>NGX_HTTP_WAF_NPHASE\<close> visit the phases.\<close>

definition all_phases :: "phase list" where
  "all_phases = [PH_REQUEST, PH_RESPONSE, PH_FRAME_C2S, PH_FRAME_S2C]"

lemma set_all_phases [simp]: "set all_phases = UNIV"
  using phase.exhaust by (auto simp: all_phases_def)

lemma phase_num_eq [simp]: "phase_num p = phase_num q \<longleftrightarrow> p = q"
  by (cases p; cases q) auto

definition phases_after :: "phase \<Rightarrow> phase list" where
  "phases_after p = filter (\<lambda>q. phase_num p < phase_num q) all_phases"

lemma set_phases_after [simp]: "q \<in> set (phases_after p) \<longleftrightarrow> phase_num p < phase_num q"
  by (simp add: phases_after_def)

text \<open>\<open>NGX_HTTP_WAF_PH_BIT\<close> and \<open>NGX_HTTP_WAF_OBJ_BIT\<close>.\<close>

definition ph_bit :: "phase \<Rightarrow> u64" where
  "ph_bit p = push_bit (phase_num p) 1"

definition obj_bit :: "wobj \<Rightarrow> u64" where
  "obj_bit v = push_bit (obj_num v) 1"

definition do_module :: "verb \<Rightarrow> bool" where
  "do_module v \<longleftrightarrow>
     v \<notin> {DO_CHALLENGE, DO_THRESHOLD, DO_SKIP, DO_REAUTH, DO_NOTE, DO_MUTATE}"

definition do_score :: "verb \<Rightarrow> bool" where
  "do_score v \<longleftrightarrow> v = DO_SCORE"

definition do_control :: "verb \<Rightarrow> bool" where
  "do_control v \<longleftrightarrow> v \<in> {DO_ACTIVE, DO_PASSIVE, DO_OFF, DO_VOTE}"

definition do_audit :: "verb \<Rightarrow> bool" where
  "do_audit v \<longleftrightarrow> v \<in> {DO_AUDIT, DO_ARCHIVE}"

definition do_mark :: "verb \<Rightarrow> bool" where
  "do_mark v \<longleftrightarrow> v = DO_MARK"

lemmas do_defs = do_score_def do_control_def do_audit_def do_mark_def

subsection \<open>Structures\<close>

record inspector =
  i_name :: bytes
  i_subject :: bytes
  i_profile :: bytes
  i_breaker :: bool
  i_breaker_threshold :: u64
  i_breaker_window :: msec
  i_breaker_probe :: msec

record binding =
  b_name :: bytes
  b_index :: nat
  b_wave :: nat
  b_timeout :: msec
  b_mode :: imode
  b_phase :: phase
  b_resume :: resume
  b_keep :: bool

record wave =
  w_passive :: mask
  w_vote :: mask
  w_all :: mask
  w_off :: mask
  w_body_need :: body_need
  w_obj_need :: u64

record control =
  ctl_active :: mask
  ctl_passive :: mask
  ctl_off :: mask
  ctl_vote :: mask

record ovr_part =
  o_set :: set_mode
  o_ttl :: int
  o_has_ttl :: bool
  o_when :: u64
  o_has_when :: bool
  o_named :: u64
  o_off :: u64
  o_has_limit :: u64
  o_limit :: "wobj \<Rightarrow> nat"
  o_source :: "wobj \<Rightarrow> source"

record audit_ovr =
  ovr_audit :: ovr_part
  ovr_archive :: ovr_part

record action =
  a_verb :: verb
  a_to :: nat
  a_to_phases :: u64
  a_code :: bytes
  a_apply :: apply_axis
  a_delta :: int
  a_value :: int
  a_counter :: bytes
  a_group :: bytes
  a_set :: set_mode
  a_marker :: bytes
  a_spec :: ovr_part
  a_from :: nat
  a_phase :: phase
  a_wave :: nat
  a_passive :: bool

record session =
  s_source :: bytes
  s_kind :: bytes
  s_user :: bytes
  s_id :: bytes
  s_groups :: bytes
  s_issued :: int
  s_expires :: int
  s_by :: nat
  s_verified :: bool
  s_passive :: bool

record reply =
  r_verdict :: verdict
  r_score :: int
  r_response_name :: bytes
  r_redirect_url :: bytes
  r_overload :: bool
  r_actions :: "action list"
  r_sessions :: "session list"
  r_rewrite_key :: bytes
  r_rewrite_size :: int
  r_rewrite_sha256 :: bytes
  r_rewrite_has :: bool
  r_rewrite_body :: bool
  r_rewrite_sha256_set :: bool
  r_latency :: msec
  r_order :: nat
  r_wave :: nat
  r_state :: entry_state
  r_received :: bool
  r_passive :: bool
  r_vote :: bool

record locator =
  l_key :: bytes
  l_size :: int
  l_sha256 :: bytes
  l_truncated :: bool
  l_inline :: bytes

record slot =
  sl_gen :: u64
  sl_next_free :: nat
  sl_ctx :: "nat option"
  sl_wave :: nat
  sl_got :: mask
  sl_denied :: mask
  sl_awaited :: mask
  sl_published :: msec

record cont =
  k_subject :: bytes
  k_size :: nat
  k_expires :: msec

record phase_ctx =
  p_wave :: nat
  p_due :: msec
  p_replies :: "reply list option"
  p_got :: mask
  p_skipped :: mask
  p_controlled :: mask
  p_score :: int
  p_shadow :: int
  p_order :: nat
  p_verdict :: verdict
  p_decisive :: "nat option"
  p_decisive_index :: nat
  p_fail :: code
  p_code :: code
  p_live :: "locator option"
  p_stale :: "bytes list"
  p_rewrite_depth :: nat
  p_rewrite_last :: nat
  p_rewrite_applied :: mask
  p_body_policy :: "policy option"
  p_by_score :: bool
  p_fail_blocked :: bool
  p_body_ready :: bool
  p_body_discarded :: bool
  p_meta_settled :: bool
  p_agent_settled :: bool
  p_agent_after_body :: bool
  p_published :: mask
  p_personal :: mask
  p_wave_published :: msec
  p_cond_settled :: bool
  p_cond_off :: mask
  p_locator :: "locator option"

record ctx =
  c_state :: wstate
  c_phase :: phase
  c_phases :: "phase \<Rightarrow> phase_ctx"
  c_rid :: u64
  c_rid_hex :: bytes
  c_slot :: nat
  c_ray_hex :: bytes
  c_timer :: "msec option"
  c_local_response :: bytes
  c_local_rule :: bytes
  c_exception_response :: bytes
  c_cont :: "cont list option"
  c_resume_asked :: mask
  c_actions :: "action list"
  c_sessions :: "session list"
  c_markers :: "bytes list"
  c_ctl :: "phase \<Rightarrow> control"
  c_audit_ovr :: "ovr_slot \<Rightarrow> audit_ovr"
  c_by_local :: bool
  c_waiting :: bool
  c_finish_how :: finish_how
  c_conn_ctl :: "(phase \<Rightarrow> control) option"

text \<open>The route configuration, and the part of the main configuration the model reads.\<close>

record shoot_conf =
  sh_capture :: u64
  sh_capture_limit :: "wobj \<Rightarrow> nat"

record loc_conf =
  lc_enable :: bool
  lc_name :: bytes
  lc_has_children :: bool
  lc_inspects :: "phase \<Rightarrow> binding list"
  lc_waves :: "phase \<Rightarrow> wave list"
  lc_deadline :: "phase \<Rightarrow> msec"
  lc_exception :: "phase \<Rightarrow> exc \<Rightarrow> policy"
  lc_exception_response :: "phase \<Rightarrow> exc \<Rightarrow> bytes"
  lc_deny_mode :: "phase \<Rightarrow> deny_mode"
  lc_score_deny :: "phase \<Rightarrow> int"
  lc_actions_max :: nat
  lc_shoot :: "phase \<Rightarrow> shoot_conf"
  lc_send :: "phase \<Rightarrow> wobj \<Rightarrow> send"
  lc_profiles :: "bytes list"
  lc_require_upgrade :: bool
  lc_require_upgrade_response :: bytes

record main_conf =
  mc_inspectors :: "inspector list"
  mc_loc_confs :: "loc_conf list"

text \<open>
  \<open>ctx->ph\<close> points into \<open>ctx->phases\<close> at the current phase (\<open>phase_enter\<close> keeps the two in
  step), so reads and writes through it are reads and writes of that array cell.
\<close>

definition phase_enter :: "phase \<Rightarrow> ctx \<Rightarrow> ctx" where
  "phase_enter p c = c\<lparr>c_phase := p\<rparr>"

definition ph :: "ctx \<Rightarrow> phase_ctx" where
  "ph c = c_phases c (c_phase c)"

definition upd_ph :: "(phase_ctx \<Rightarrow> phase_ctx) \<Rightarrow> ctx \<Rightarrow> ctx" where
  "upd_ph f c = c\<lparr>c_phases := (c_phases c)(c_phase c := f (ph c))\<rparr>"

lemma ph_upd_ph [simp]: "ph (upd_ph f c) = f (ph c)"
  by (simp add: ph_def upd_ph_def)

lemma c_phase_upd_ph [simp]: "c_phase (upd_ph f c) = c_phase c"
  by (simp add: upd_ph_def)

lemma upd_ph_frame [simp]:
  "c_state (upd_ph f c) = c_state c" "c_ctl (upd_ph f c) = c_ctl c"
  "c_slot (upd_ph f c) = c_slot c" "c_rid (upd_ph f c) = c_rid c"
  "c_waiting (upd_ph f c) = c_waiting c" "c_timer (upd_ph f c) = c_timer c"
  "c_actions (upd_ph f c) = c_actions c" "c_markers (upd_ph f c) = c_markers c"
  "c_sessions (upd_ph f c) = c_sessions c" "c_audit_ovr (upd_ph f c) = c_audit_ovr c"
  "c_rid_hex (upd_ph f c) = c_rid_hex c" "c_conn_ctl (upd_ph f c) = c_conn_ctl c"
  by (simp_all add: upd_ph_def)

subsection \<open>Zeroed structures\<close>

text \<open>What \<open>ngx_pcalloc\<close> gives: every enumeration at its first constant, every pointer
  \<open>NULL\<close>, every number 0.\<close>

definition control0 :: control where
  "control0 = \<lparr>ctl_active = 0, ctl_passive = 0, ctl_off = 0, ctl_vote = 0\<rparr>"

definition ovr_part0 :: ovr_part where
  "ovr_part0 = \<lparr>o_set = SET_NONE, o_ttl = 0, o_has_ttl = False, o_when = 0, o_has_when = False,
     o_named = 0, o_off = 0, o_has_limit = 0, o_limit = (\<lambda>_. 0), o_source = (\<lambda>_. SOURCE_NONE)\<rparr>"

definition reply0 :: reply where
  "reply0 = \<lparr>r_verdict = V_ALLOW, r_score = 0, r_response_name = [], r_redirect_url = [],
     r_overload = False, r_actions = [], r_sessions = [], r_rewrite_key = [], r_rewrite_size = 0,
     r_rewrite_sha256 = replicate 32 0, r_rewrite_has = False, r_rewrite_body = False,
     r_rewrite_sha256_set = False, r_latency = 0, r_order = 0, r_wave = 0,
     r_state = ENTRY_ANSWERED, r_received = False, r_passive = False, r_vote = False\<rparr>"

definition phase_ctx0 :: phase_ctx where
  "phase_ctx0 = \<lparr>p_wave = 0, p_due = 0, p_replies = None, p_got = 0, p_skipped = 0,
     p_controlled = 0, p_score = 0, p_shadow = 0, p_order = 0, p_verdict = V_ALLOW,
     p_decisive = None, p_decisive_index = 0, p_fail = CODE_NONE, p_code = CODE_NONE,
     p_live = None, p_stale = [], p_rewrite_depth = 0, p_rewrite_last = 0, p_rewrite_applied = 0,
     p_body_policy = Some POLICY_PASS, p_by_score = False, p_fail_blocked = False,
     p_body_ready = False, p_body_discarded = False, p_meta_settled = False,
     p_agent_settled = False, p_agent_after_body = False, p_published = 0, p_personal = 0,
     p_wave_published = 0, p_cond_settled = False, p_cond_off = 0, p_locator = None\<rparr>"

definition ctx0 :: ctx where
  "ctx0 = \<lparr>c_state = ST_INIT, c_phase = PH_REQUEST, c_phases = (\<lambda>_. phase_ctx0), c_rid = 0,
     c_rid_hex = replicate RID_HEX_LEN 0, c_slot = 0, c_ray_hex = replicate RAY_HEX_LEN 0,
     c_timer = None, c_local_response = [], c_local_rule = [], c_exception_response = [],
     c_cont = None, c_resume_asked = 0, c_actions = [], c_sessions = [], c_markers = [],
     c_ctl = (\<lambda>_. control0),
     c_audit_ovr = (\<lambda>_. \<lparr>ovr_audit = ovr_part0, ovr_archive = ovr_part0\<rparr>),
     c_by_local = False, c_waiting = False, c_finish_how = FINISH_APPLY, c_conn_ctl = None\<rparr>"

text \<open>
  The context of a new request, as \<open>ngx_http_waf_access\<close> sets it up; \<open>ray\<close> is the event id
  \<open>ray_next\<close> made. \<open>POLICY_UNSET\<close> of the body policy is \<open>None\<close>.
\<close>

definition ctx_create :: "bytes \<Rightarrow> ctx" where
  "ctx_create ray =
     upd_ph (p_body_policy_update (\<lambda>_. None))
       (phase_enter PH_REQUEST
         (ctx0\<lparr>c_state := ST_INIT, c_slot := SLOT_NIL, c_rid_hex := replicate RID_HEX_LEN 0x2d,
               c_ray_hex := ray\<rparr>))"

end
