(* ===== verification/Slot_Table.thy ===== *)
theory Slot_Table
  imports Waf_Types
begin

text \<open>
  The wait-slot table (\<open>src/module/src/runtime/ngx_http_waf_slot.c\<close>): a fixed array of slots with
  an intrusive free list, a generation counter, and request ids \<open>rid = generation << 24 | index\<close>
  by which a late answer of an inspector finds (or no longer finds) its request.

  Contexts are named by numbers (the pointers of the source) and stored in \<open>wk_ctx\<close>. The
  sources of randomness, the MD5 routine and the outcome of pool allocations are parameters.
\<close>

record slot_table =
  t_slots :: "slot list"
  t_nslots :: nat
  t_free_head :: nat
  t_seq :: u64

record worker =
  wk_tab :: slot_table
  wk_ctx :: "nat \<Rightarrow> ctx"
  wk_now :: msec

abbreviation (input) SLOT_INDEX_BITS :: nat where "SLOT_INDEX_BITS \<equiv> 24"
abbreviation (input) SLOT_INDEX_MASK :: nat where "SLOT_INDEX_MASK \<equiv> 16777215"
abbreviation (input) SLOT_GEN_MASK :: u64 where "SLOT_GEN_MASK \<equiv> 1099511627775"

definition upd_ctx :: "nat \<Rightarrow> (ctx \<Rightarrow> ctx) \<Rightarrow> 'a worker_scheme \<Rightarrow> 'a worker_scheme" where
  "upd_ctx p f w = w\<lparr>wk_ctx := (wk_ctx w)(p := f (wk_ctx w p))\<rparr>"

definition upd_slot :: "nat \<Rightarrow> (slot \<Rightarrow> slot) \<Rightarrow> 'a worker_scheme \<Rightarrow> 'a worker_scheme" where
  "upd_slot i f w =
     w\<lparr>wk_tab := (wk_tab w)\<lparr>t_slots := (t_slots (wk_tab w))[i := f (t_slots (wk_tab w) ! i)]\<rparr>\<rparr>"

definition slot_at :: "'a worker_scheme \<Rightarrow> nat \<Rightarrow> slot" where
  "slot_at w i = t_slots (wk_tab w) ! i"

subsection \<open>Hexadecimal request ids\<close>

definition hex_digits :: bytes where
  "hex_digits =
     [0x30, 0x31, 0x32, 0x33, 0x34, 0x35, 0x36, 0x37, 0x38, 0x39, 0x61, 0x62, 0x63, 0x64, 0x65, 0x66]"

text \<open>\<open>hex64\<close> fills its 16 bytes from the last to the first; the accumulator is the tail
  already written.\<close>

fun hex64_loop :: "nat \<Rightarrow> u64 \<Rightarrow> bytes \<Rightarrow> bytes" where
  "hex64_loop 0 v dst = dst"
| "hex64_loop (Suc i) v dst = hex64_loop i (drop_bit 4 v) (hex_digits ! unat (v AND 0xf) # dst)"

definition hex64 :: "u64 \<Rightarrow> bytes" where
  "hex64 v = hex64_loop 16 v []"

definition rid_hex :: "u64 \<Rightarrow> bytes" where
  "rid_hex rid = hex64 rid"

fun rid_parse_loop :: "u64 \<Rightarrow> bytes \<Rightarrow> u64 option" where
  "rid_parse_loop v [] = Some v"
| "rid_parse_loop v (c # cs) =
     (if 0x30 \<le> c \<and> c \<le> 0x39 then rid_parse_loop (push_bit 4 v OR ucast (c - 0x30)) cs
      else if 0x61 \<le> c \<and> c \<le> 0x66 then rid_parse_loop (push_bit 4 v OR ucast (c - 0x61 + 10)) cs
      else None)"

definition rid_parse :: "bytes \<Rightarrow> u64 option" where
  "rid_parse hex = (if length hex \<noteq> RID_HEX_LEN then None else rid_parse_loop 0 hex)"

subsection \<open>Event ids (the ray)\<close>

fun uuid_fmt_loop :: "nat \<Rightarrow> bytes \<Rightarrow> bytes" where
  "uuid_fmt_loop i [] = []"
| "uuid_fmt_loop i (b # raw) =
     (if i = 4 \<or> i = 6 \<or> i = 8 \<or> i = 10 then [0x2d] else [])
     @ [hex_digits ! unat (drop_bit 4 b), hex_digits ! unat (b AND 0x0f)]
     @ uuid_fmt_loop (Suc i) raw"

definition uuid_fmt :: "bytes \<Rightarrow> bytes" where
  "uuid_fmt raw = uuid_fmt_loop 0 (take 16 raw)"

text \<open>\<open>getrandom\<close> and \<open>read\<close> on \<open>/dev/urandom\<close> give a byte count and the bytes.\<close>

definition random16 :: "int \<times> bytes \<Rightarrow> int \<Rightarrow> int \<times> bytes \<Rightarrow> bytes option" where
  "random16 getrandom ray_fd rd =
     (if fst getrandom = 16 then Some (snd getrandom)
      else if ray_fd \<noteq> -1 \<and> fst rd = 16 then Some (snd rd)
      else None)"

record ray_state =
  ray_seed_bytes :: bytes
  ray_fallback :: u64
  ray_fd :: int

text \<open>\<open>md5\<close> is nginx's MD5 of the seed followed by the eight bytes of the counter.\<close>

definition ray_next ::
  "(bytes \<Rightarrow> u64 \<Rightarrow> bytes) \<Rightarrow> int \<times> bytes \<Rightarrow> int \<times> bytes \<Rightarrow> ray_state \<Rightarrow> bytes \<times> ray_state" where
  "ray_next md5 getrandom rd st =
     (let (raw, st) =
        (case random16 getrandom (ray_fd st) rd of
           Some raw \<Rightarrow> (raw, st)
         | None \<Rightarrow> (let n = ray_fallback st + 1
                    in (md5 (ray_seed_bytes st) n, st\<lparr>ray_fallback := n\<rparr>)));
        raw = raw[6 := (raw ! 6 AND 0x0f) OR 0x40];
        raw = raw[8 := (raw ! 8 AND 0x3f) OR 0x80]
      in (uuid_fmt raw, st))"

subsection \<open>The table\<close>

definition fresh_slot :: "nat \<Rightarrow> slot" where
  "fresh_slot i = \<lparr>sl_gen = 0, sl_next_free = i + 1, sl_ctx = None, sl_wave = 0, sl_got = 0,
     sl_denied = 0, sl_awaited = 0, sl_published = 0\<rparr>"

text \<open>
  \<open>alloc_ok\<close> is the outcome of \<open>ngx_pcalloc\<close>, \<open>rnd\<close> and \<open>pid\<close> are \<open>ngx_random()\<close> and
  \<open>ngx_pid\<close>, \<open>seed_rc\<close> the outcome of \<open>ray_seed\<close>.
\<close>

definition slot_table_init ::
  "bool \<Rightarrow> u64 \<Rightarrow> u64 \<Rightarrow> rc \<Rightarrow> nat \<Rightarrow> 'a worker_scheme \<Rightarrow> rc \<times> 'a worker_scheme" where
  "slot_table_init alloc_ok rnd pid seed_rc nslots w =
     (if nslots = 0 \<or> nslots > SLOT_INDEX_MASK then (NGX_ERROR, w)
      else if \<not> alloc_ok then (NGX_ERROR, w)
      else
        let ss = map fresh_slot [0..<nslots];
            ss = ss[nslots - 1 := (ss ! (nslots - 1))\<lparr>sl_next_free := SLOT_NIL\<rparr>];
            t = \<lparr>t_slots = ss, t_nslots = nslots, t_free_head = 0,
                 t_seq = (push_bit 32 rnd XOR pid) AND SLOT_GEN_MASK\<rparr>
        in (if seed_rc \<noteq> NGX_OK then NGX_ERROR else NGX_OK, w\<lparr>wk_tab := t\<rparr>))"

function next_gen :: "u64 \<Rightarrow> u64" where
  "next_gen seq =
     (let seq = (seq + 1) AND SLOT_GEN_MASK in if seq = 0 then next_gen seq else seq)"
  by pat_completeness auto
termination
  by (relation "measure (\<lambda>seq :: u64. if (seq + 1) AND SLOT_GEN_MASK = 0 then 1 else 0)") auto

declare next_gen.simps [simp del]

definition slot_release :: "nat \<Rightarrow> 'a worker_scheme \<Rightarrow> 'a worker_scheme" where
  "slot_release index w =
     (let t = wk_tab w; slot = slot_at w index in
      if sl_gen slot = 0 then w
      else
        let w = (case sl_ctx slot of
                   None \<Rightarrow> w
                 | Some c \<Rightarrow> if c_slot (wk_ctx w c) = index
                            then upd_ctx c (c_slot_update (\<lambda>_. SLOT_NIL)) w else w);
            w = upd_slot index
                  (\<lambda>s. s\<lparr>sl_gen := 0, sl_ctx := None, sl_next_free := t_free_head t\<rparr>) w
        in w\<lparr>wk_tab := (wk_tab w)\<lparr>t_free_head := index\<rparr>\<rparr>)"

text \<open>\<open>cln_ok\<close> is the outcome of \<open>ngx_pool_cleanup_add\<close>.\<close>

definition slot_acquire :: "bool \<Rightarrow> nat \<Rightarrow> 'a worker_scheme \<Rightarrow> nat option \<times> 'a worker_scheme" where
  "slot_acquire cln_ok c w =
     (let t = wk_tab w in
      if t_free_head t = SLOT_NIL then (None, w)
      else
        let index = t_free_head t;
            slot = slot_at w index;
            gen = next_gen (t_seq t);
            slot' = slot\<lparr>sl_next_free := SLOT_NIL, sl_gen := gen, sl_ctx := Some c,
                         sl_wave := p_wave (ph (wk_ctx w c)), sl_got := 0, sl_denied := 0,
                         sl_awaited := 0, sl_published := wk_now w\<rparr>;
            rid = push_bit SLOT_INDEX_BITS gen OR of_nat index;
            w = w\<lparr>wk_tab := t\<lparr>t_slots := (t_slots t)[index := slot'],
                            t_free_head := sl_next_free slot, t_seq := gen\<rparr>\<rparr>;
            w = upd_ctx c (\<lambda>x. x\<lparr>c_slot := index, c_rid := rid, c_rid_hex := rid_hex rid\<rparr>) w
        in if \<not> cln_ok then (None, slot_release index w) else (Some index, w))"

definition slot_lookup :: "u64 \<Rightarrow> 'a worker_scheme \<Rightarrow> nat option" where
  "slot_lookup rid w =
     (let index = unat (rid AND of_nat SLOT_INDEX_MASK) in
      if index \<ge> t_nslots (wk_tab w) then None
      else if sl_gen (slot_at w index) \<noteq> drop_bit SLOT_INDEX_BITS rid then None
      else if sl_ctx (slot_at w index) = None then None
      else Some index)"

definition slot_detach :: "nat \<Rightarrow> 'a worker_scheme \<Rightarrow> 'a worker_scheme" where
  "slot_detach c w =
     (let w = (if c_timer (wk_ctx w c) \<noteq> None then upd_ctx c (c_timer_update (\<lambda>_. None)) w else w) in
      if c_slot (wk_ctx w c) \<ge> t_nslots (wk_tab w) then w
      else
        let index = c_slot (wk_ctx w c);
            w = (if sl_gen (slot_at w index) = drop_bit SLOT_INDEX_BITS (c_rid (wk_ctx w c))
                 then slot_release index w else w)
        in upd_ctx c (c_slot_update (\<lambda>_. SLOT_NIL)) w)"

subsection \<open>Request ids\<close>

lemma length_hex64_loop [simp]: "length (hex64_loop n v dst) = n + length dst"
  by (induction n arbitrary: v dst) auto

lemma lessThan_cases: "n < (16 :: nat) \<longleftrightarrow> n \<in> set [0..<16]"
  by simp

text \<open>The value of one hexadecimal digit, as \<open>rid_parse\<close> reads it.\<close>

lemma rid_parse_loop_digit:
  assumes "n < 16"
  shows "rid_parse_loop v (hex_digits ! n # cs) = rid_parse_loop (push_bit 4 v OR of_nat n) cs"
  using assms unfolding lessThan_cases
  by (auto simp: upt_rec [of _ 16] hex_digits_def simp del: set_upt)

lemma unat_and_15: "unat (v AND 0xf :: u64) < 16"
proof -
  have "v AND 0xf = take_bit 4 v" by (simp add: take_bit_eq_mask mask_eq_exp_minus_1)
  then show ?thesis by (simp add: unsigned_take_bit_eq take_bit_nat_less_exp [of 4, simplified])
qed

lemma rid_parse_hex64_loop:
  "rid_parse_loop acc (hex64_loop n v dst)
     = rid_parse_loop (push_bit (4 * n) acc OR take_bit (4 * n) v) dst"
proof (induction n arbitrary: acc v dst)
  case 0
  then show ?case by simp
next
  case (Suc n)
  have "push_bit 4 (push_bit (4 * n) acc OR take_bit (4 * n) (drop_bit 4 v)) OR (v AND 0xf)
      = push_bit (4 * Suc n) acc OR take_bit (4 * Suc n) v"
  proof (rule bit_word_eqI)
    fix k assume k: "k < LENGTH(64)"
    have m: "(0xf :: u64) = mask 4" by (simp add: mask_eq_exp_minus_1)
    show "bit (push_bit 4 (push_bit (4 * n) acc OR take_bit (4 * n) (drop_bit 4 v)) OR (v AND 0xf)) k
        = bit (push_bit (4 * Suc n) acc OR take_bit (4 * Suc n) v) k"
      using k unfolding m
      by (auto simp: bit_or_iff bit_and_iff bit_push_bit_iff bit_take_bit_iff bit_drop_bit_eq
          bit_mask_iff not_le not_less le_diff_conv less_diff_conv2)
  qed
  then show ?case
    by (simp only: hex64_loop.simps Suc.IH rid_parse_loop_digit [OF unat_and_15]
        of_nat_unat ucast_id)
qed

lemma rid_parse_rid_hex: "rid_parse (rid_hex r) = Some r"
  using rid_parse_hex64_loop [of 0 16 r "[]"]
  by (simp add: rid_parse_def rid_hex_def hex64_def take_bit_word_eq_self)

text \<open>A digit that \<open>rid_parse\<close> takes is the lower-case digit of the value it adds.\<close>

lemma rid_parse_loop_ConsD:
  assumes "rid_parse_loop v (c # cs) = Some r"
  obtains n where "n < 16" and "c = hex_digits ! n"
    and "rid_parse_loop (push_bit 4 v OR of_nat n) cs = Some r"
proof -
  consider (dec) "0x30 \<le> c" "c \<le> 0x39" | (hex) "0x61 \<le> c" "c \<le> 0x66" 
    using assms by (auto split: if_splits)
  then have "\<exists>n<16. c = hex_digits ! n"
  proof cases
    case dec
    then have n: "48 \<le> unat c" "unat c \<le> 57" by (simp_all add: word_le_nat_alt)
    then have "unat c - 48 < 10" by simp
    moreover from n have "c = of_nat (48 + (unat c - 48))" by simp
    ultimately obtain m where "m < 10" "c = of_nat (48 + m)" by blast
    moreover from \<open>m < 10\<close> have "m \<in> set [0..<10]" by simp
    ultimately have "m < 16 \<and> c = hex_digits ! m"
      by (auto simp: upt_rec [of _ 10] hex_digits_def simp del: set_upt)
    then show ?thesis by blast
  next
    case hex
    then have n: "97 \<le> unat c" "unat c \<le> 102" by (simp_all add: word_le_nat_alt)
    then have "unat c - 97 < 6" by simp
    moreover from n have "c = of_nat (97 + (unat c - 97))" by simp
    ultimately obtain m where "m < 6" "c = of_nat (97 + m)" by blast
    moreover from \<open>m < 6\<close> have "m \<in> set [0..<6]" by simp
    ultimately have "m + 10 < 16 \<and> c = hex_digits ! (m + 10)"
      by (auto simp: upt_rec [of _ 6] hex_digits_def simp del: set_upt)
    then show ?thesis by blast
  qed
  then obtain n where n: "n < 16" "c = hex_digits ! n" by blast
  with assms have "rid_parse_loop (push_bit 4 v OR of_nat n) cs = Some r"
    by (simp only: rid_parse_loop_digit)
  with n that show ?thesis by blast
qed

lemma rid_parse_loop_snocD:
  assumes "rid_parse_loop v (cs @ [c]) = Some r"
  obtains n u where "n < 16" and "c = hex_digits ! n" and "rid_parse_loop v cs = Some u"
    and "r = push_bit 4 u OR of_nat n"
  using assms
proof (induction cs arbitrary: v thesis)
  case Nil
  from Nil(2) show ?case
    using Nil(1) by (auto simp del: rid_parse_loop.simps(2) elim!: rid_parse_loop_ConsD)
next
  case (Cons x xs)
  from Cons.prems(2) obtain n where n: "n < 16" "x = hex_digits ! n"
    and r: "rid_parse_loop (push_bit 4 v OR of_nat n) (xs @ [c]) = Some r"
    by (auto simp del: rid_parse_loop.simps(2) elim!: rid_parse_loop_ConsD)
  from Cons.IH [OF _ r] Cons.prems(1) n show ?case
    by (metis rid_parse_loop_digit)
qed

text \<open>Digits put one by one below a value that still has room read back as they were.\<close>

lemma digit_word:
  assumes "n < 16"
  shows "take_bit 4 (of_nat n :: u64) = of_nat n" and "unat (of_nat n :: u64) = n"
  using assms by (simp_all add: take_bit_of_nat take_bit_nat_eq_self unat_of_nat)

lemma shift_in_digit:
  fixes u :: u64
  assumes "n < 16" and "take_bit 60 u = u"
  shows "drop_bit 4 (push_bit 4 u OR of_nat n) = u"
    and "(push_bit 4 u OR of_nat n) AND 0xf = of_nat n"
    and "take_bit m u = u \<Longrightarrow> take_bit (4 + m) (push_bit 4 u OR of_nat n) = push_bit 4 u OR of_nat n"
proof -
  let ?d = "of_nat n :: u64"
  have d: "bit ?d k \<Longrightarrow> k < 4" for k
    using digit_word(1) [OF assms(1)] by (metis bit_take_bit_iff)
  have u: "bit u k \<Longrightarrow> k < 60" for k
    using assms(2) by (metis bit_take_bit_iff)
  show "drop_bit 4 (push_bit 4 u OR ?d) = u"
    by (rule bit_word_eqI) (auto simp: bit_drop_bit_eq bit_or_iff bit_push_bit_iff dest: d u)
  have m: "(0xf :: u64) = mask 4" by (simp add: mask_eq_exp_minus_1)
  show "(push_bit 4 u OR ?d) AND 0xf = ?d"
    unfolding m by (rule bit_word_eqI)
      (auto simp: bit_and_iff bit_mask_iff bit_or_iff bit_push_bit_iff dest: d)
  assume "take_bit m u = u"
  then have um: "bit u k \<Longrightarrow> k < m" for k by (metis bit_take_bit_iff)
  show "take_bit (4 + m) (push_bit 4 u OR ?d) = push_bit 4 u OR ?d"
  proof (rule bit_word_eqI)
    fix k assume "k < LENGTH(64)"
    then show "bit (take_bit (4 + m) (push_bit 4 u OR ?d)) k = bit (push_bit 4 u OR ?d) k"
      using d [of k] um [of "k - 4"] by (auto simp: bit_take_bit_iff bit_or_iff bit_push_bit_iff)
  qed
qed

lemma hex64_loop_parsed:
  assumes "rid_parse_loop 0 cs = Some r" and "length cs \<le> 16"
  shows "hex64_loop (length cs) r dst = cs @ dst \<and> take_bit (4 * length cs) r = r"
  using assms
proof (induction cs arbitrary: r dst rule: rev_induct)
  case Nil
  then show ?case by simp
next
  case (snoc c cs)
  from snoc.prems(1) obtain n u where n: "n < 16" and c: "c = hex_digits ! n"
    and u: "rid_parse_loop 0 cs = Some u" and r: "r = push_bit 4 u OR of_nat n"
    by (rule rid_parse_loop_snocD)
  have len: "length cs \<le> 15" using snoc.prems(2) by simp
  from snoc.IH [OF u] len have IH: "hex64_loop (length cs) u d = cs @ d"
    and top: "take_bit (4 * length cs) u = u" for d by simp_all
  have "take_bit 60 (take_bit (4 * length cs) u) = take_bit (4 * length cs) u"
    using len by (simp only: take_bit_take_bit) (simp add: min_def)
  then have "take_bit 60 u = u" by (simp only: top)
  from shift_in_digit [OF n this] top show ?case
    by (simp add: r c IH digit_word(2) [OF n])
qed

lemma rid_parse_canonical:
  assumes "rid_parse s = Some r"
  shows "s = rid_hex r"
proof -
  from assms have "length s = 16" "rid_parse_loop 0 s = Some r"
    by (simp_all add: rid_parse_def split: if_splits)
  with hex64_loop_parsed [of s r "[]"] show ?thesis
    by (simp add: rid_hex_def hex64_def)
qed

subsection \<open>Generations\<close>

lemma and_gen_mask: "x AND SLOT_GEN_MASK = take_bit 40 x"
  by (simp add: take_bit_eq_mask mask_eq_exp_minus_1)

lemma next_gen_eq:
  "next_gen s = (if take_bit 40 (s + 1) = 0 then 1 else take_bit 40 (s + 1))"
proof (cases "take_bit 40 (s + 1) = 0")
  case True
  then have "next_gen s = next_gen 0"
    by (subst next_gen.simps) (simp only: and_gen_mask Let_def if_True refl)
  also have "next_gen 0 = 1" by (subst next_gen.simps) (simp add: Let_def)
  finally show ?thesis using True by simp
next
  case False
  then show ?thesis
    by (subst next_gen.simps) (simp only: and_gen_mask Let_def if_False)
qed

lemma next_gen_nonzero: "next_gen s \<noteq> 0"
  by (simp add: next_gen_eq)

lemma take_bit_next_gen: "take_bit 40 (next_gen s) = next_gen s"
  by (simp add: next_gen_eq)

text \<open>The generations run through \<open>1 \<dots> 2^40 - 1\<close> in a cycle.\<close>

lemma unat_next_gen:
  assumes "s \<noteq> 0" and "take_bit 40 s = s"
  shows "unat (next_gen s) = (unat s) mod (2 ^ 40 - 1) + 1"
proof -
  have lt: "unat s < 2 ^ 40"
    using assms(2) by (metis take_bit_nat_less_exp unsigned_take_bit_eq)
  have pos: "0 < unat s" using assms(1) by (simp add: unat_gt_0)
  have s1: "unat (s + 1) = unat s + 1"
    using lt by (subst unat_word_ariths) simp
  have tb: "unat (take_bit 40 (s + 1)) = (unat s + 1) mod 2 ^ 40"
    by (simp only: unsigned_take_bit_eq s1 take_bit_nat_def)
  show ?thesis
  proof (cases "unat s = 2 ^ 40 - 1")
    case True
    then have "unat (take_bit 40 (s + 1)) = 0" using tb by simp
    then have "take_bit 40 (s + 1) = 0" by (simp add: unat_eq_0)
    then show ?thesis using True by (simp add: next_gen_eq)
  next
    case False
    then have "unat s + 1 < 2 ^ 40" using lt by simp
    then have "unat (take_bit 40 (s + 1)) = unat s + 1" using tb by simp
    moreover from this have "take_bit 40 (s + 1) \<noteq> 0" by force
    ultimately show ?thesis using False lt by (simp add: next_gen_eq)
  qed
qed

lemma next_gen_valid:
  "(next_gen ^^ Suc j) s \<noteq> 0" "take_bit 40 ((next_gen ^^ Suc j) s) = (next_gen ^^ Suc j) s"
  by (simp_all add: next_gen_nonzero take_bit_next_gen)

lemma unat_next_gen_funpow:
  assumes "s \<noteq> 0" and "take_bit 40 s = s"
  shows "unat ((next_gen ^^ j) s) = (unat s - 1 + j) mod (2 ^ 40 - 1) + 1"
proof (induction j)
  case 0
  have "unat s < 2 ^ 40"
    using assms(2) by (metis take_bit_nat_less_exp unsigned_take_bit_eq)
  moreover have "0 < unat s" using assms(1) by (simp add: unat_gt_0)
  ultimately have "unat s - 1 < 2 ^ 40 - 1" "unat s - 1 + 1 = unat s" by linarith+
  then show ?case by simp
next
  case (Suc j)
  let ?g = "(next_gen ^^ j) s"
  have "?g \<noteq> 0 \<and> take_bit 40 ?g = ?g"
    using assms next_gen_valid [of "j - 1" s] by (cases j) auto
  then have "unat (next_gen ?g) = unat ?g mod (2 ^ 40 - 1) + 1"
    by (simp add: unat_next_gen)
  also have "\<dots> = ((unat s - 1 + j) mod (2 ^ 40 - 1) + 1) mod (2 ^ 40 - 1) + 1"
    by (simp only: Suc.IH)
  also have "\<dots> = (unat s - 1 + Suc j) mod (2 ^ 40 - 1) + 1"
    by (simp only: mod_add_left_eq add_Suc_right Suc_eq_plus1 add.assoc)
  finally show ?case by simp
qed

lemma next_gen_no_repeat:
  assumes "s \<noteq> 0" and "take_bit 40 s = s" and "0 < j" and "j < 2 ^ 40 - 1"
  shows "(next_gen ^^ j) s \<noteq> s"
proof
  assume eq: "(next_gen ^^ j) s = s"
  let ?N = "2 ^ 40 - 1 :: nat" and ?z = "unat s - 1"
  have "unat s = (?z + j) mod ?N + 1"
    using unat_next_gen_funpow [OF assms(1,2), of j] by (simp only: eq)
  moreover have "unat s = (?z + 0) mod ?N + 1"
    using unat_next_gen_funpow [OF assms(1,2), of 0] by simp
  ultimately have "(?z + j) mod ?N = (?z + 0) mod ?N" by linarith
  then have "?N dvd (?z + j) - ?z"
    using mod_eq_dvd_iff_nat [of ?z "?z + j" ?N] by (simp only: add_0_right le_add1)
  then have "?N \<le> j" using assms(3) by (simp only: add_diff_cancel_left' dvd_imp_le)
  with assms(4) show False by simp
qed

subsection \<open>The table invariant\<close>

text \<open>The slots reached from \<open>free_head\<close> along \<open>next_free\<close>, in order.\<close>

fun free_chain :: "slot list \<Rightarrow> nat \<Rightarrow> nat list \<Rightarrow> bool" where
  "free_chain ss h [] \<longleftrightarrow> h = SLOT_NIL"
| "free_chain ss h (i # is) \<longleftrightarrow> h = i \<and> i < length ss \<and> free_chain ss (sl_next_free (ss ! i)) is"

definition table_wf :: "'a worker_scheme \<Rightarrow> bool" where
  "table_wf w \<longleftrightarrow>
     length (t_slots (wk_tab w)) = t_nslots (wk_tab w) \<and> 0 < t_nslots (wk_tab w) \<and>
     t_nslots (wk_tab w) \<le> SLOT_INDEX_MASK \<and>
     (\<forall>i<t_nslots (wk_tab w). (sl_gen (slot_at w i) = 0) = (sl_ctx (slot_at w i) = None)
                     \<and> take_bit 40 (sl_gen (slot_at w i)) = sl_gen (slot_at w i))"

definition free_list :: "'a worker_scheme \<Rightarrow> nat list \<Rightarrow> bool" where
  "free_list w fl \<longleftrightarrow>
     free_chain (t_slots (wk_tab w)) (t_free_head (wk_tab w)) fl \<and> distinct fl \<and>
     set fl = {i. i < t_nslots (wk_tab w) \<and> sl_gen (slot_at w i) = 0}"

definition table_inv :: "'a worker_scheme \<Rightarrow> bool" where
  "table_inv w \<longleftrightarrow> table_wf w \<and> (\<exists>fl. free_list w fl)"

lemma free_chain_update:
  "i \<notin> set fl \<Longrightarrow> free_chain (ss[i := x]) h fl = free_chain ss h fl"
  by (induction fl arbitrary: h) auto

lemma free_chain_interval:
  assumes "length ss = n" and "\<And>i. i < n \<Longrightarrow> sl_next_free (ss ! i) = (if i = n - 1 then SLOT_NIL else i + 1)"
  shows "h < n \<Longrightarrow> free_chain ss h [h..<n]"
proof (induction "n - h" arbitrary: h)
  case 0
  then show ?case by simp
next
  case (Suc k)
  then have "[h..<n] = h # [Suc h..<n]" by (simp add: upt_conv_Cons)
  moreover have "free_chain ss (sl_next_free (ss ! h)) [Suc h..<n]"
  proof (cases "h = n - 1")
    case True
    then show ?thesis using assms(2) [of h] Suc.prems by simp
  next
    case False
    then show ?thesis using assms(2) [of h] Suc.prems Suc.hyps by simp
  qed
  ultimately show ?case using assms(1) Suc.prems by simp
qed

text \<open>The pieces of a state that an operation on the table leaves alone.\<close>

lemma upd_ctx_simps [simp]:
  "wk_tab (upd_ctx c f w) = wk_tab w" "slot_at (upd_ctx c f w) i = slot_at w i"
  "wk_ctx (upd_ctx c f w) d = (if d = c then f (wk_ctx w c) else wk_ctx w d)"
  "wk_now (upd_ctx c f w) = wk_now w"
  by (simp_all add: upd_ctx_def slot_at_def)

lemma table_inv_cong: "wk_tab w = wk_tab w' \<Longrightarrow> table_inv w = table_inv w'"
  by (simp add: table_inv_def table_wf_def free_list_def slot_at_def)

lemma table_inv_upd_ctx [simp]: "table_inv (upd_ctx c f w) = table_inv w"
  by (rule table_inv_cong) simp

lemma slot_table_init_inv:
  assumes "slot_table_init alloc_ok rnd pid seed_rc n w = (NGX_OK, w')"
  shows "table_inv w'"
proof -
  define ss where "ss = (map fresh_slot [0..<n])[n - 1 := (map fresh_slot [0..<n] ! (n - 1))\<lparr>sl_next_free := SLOT_NIL\<rparr>]"
  from assms have n: "0 < n" "n \<le> SLOT_INDEX_MASK"
    and w': "t_slots (wk_tab w') = ss" "t_nslots (wk_tab w') = n" "t_free_head (wk_tab w') = 0"
    by (auto simp: ss_def slot_table_init_def Let_def split: if_splits)
  have len: "length ss = n" by (simp add: ss_def)
  have nf: "sl_next_free (ss ! i) = (if i = n - 1 then SLOT_NIL else i + 1)" if "i < n" for i
    using that by (auto simp: ss_def nth_list_update fresh_slot_def)
  have gen: "sl_gen (ss ! i) = 0" "sl_ctx (ss ! i) = None" if "i < n" for i
    using that by (auto simp: ss_def nth_list_update fresh_slot_def)
  have at: "slot_at w' i = ss ! i" for i by (simp add: slot_at_def w')
  have "free_chain ss 0 [0..<n]"
    by (rule free_chain_interval [OF len nf n(1)])
  then have "free_list w' [0..<n]"
    using gen by (auto simp: free_list_def w' at)
  moreover have "table_wf w'"
    using gen len n by (simp add: table_wf_def w' at)
  ultimately show ?thesis by (auto simp: table_inv_def)
qed

text \<open>How release and acquire rewrite the array of slots.\<close>

lemma wk_tab_slot_release:
  "wk_tab (slot_release i w) =
     (if sl_gen (slot_at w i) = 0 then wk_tab w
      else (wk_tab w)\<lparr>t_slots := (t_slots (wk_tab w))
             [i := (slot_at w i)\<lparr>sl_gen := 0, sl_ctx := None, sl_next_free := t_free_head (wk_tab w)\<rparr>],
             t_free_head := i\<rparr>)"
  by (simp add: slot_release_def Let_def upd_slot_def slot_at_def upd_ctx_def split: option.split)

lemma slot_release_free: "sl_gen (slot_at w i) = 0 \<Longrightarrow> slot_release i w = w"
  by (simp add: slot_release_def)

lemma t_nslots_slot_release [simp]: "t_nslots (wk_tab (slot_release i w)) = t_nslots (wk_tab w)"
  by (simp add: wk_tab_slot_release)

lemma slot_at_slot_release:
  assumes "table_wf w" and "i < t_nslots (wk_tab w)" and "sl_gen (slot_at w i) \<noteq> 0"
  shows "slot_at (slot_release i w) k = (if k = i
      then (slot_at w i)\<lparr>sl_gen := 0, sl_ctx := None, sl_next_free := t_free_head (wk_tab w)\<rparr>
      else slot_at w k)"
  using assms by (auto simp: table_wf_def slot_at_def wk_tab_slot_release)

lemma gen_slot_release:
  assumes "table_wf w" and "i < t_nslots (wk_tab w)"
  shows "sl_gen (slot_at (slot_release i w) k) = (if k = i then 0 else sl_gen (slot_at w k))"
  using assms slot_at_slot_release [OF assms]
  by (cases "sl_gen (slot_at w i) = 0") (auto simp: slot_release_free)

lemma t_seq_slot_release [simp]: "t_seq (wk_tab (slot_release i w)) = t_seq (wk_tab w)"
  by (simp add: wk_tab_slot_release)

lemma slot_release_inv [waf_inv]:
  assumes inv: "table_inv w" and i: "i < t_nslots (wk_tab w)"
  shows "table_inv (slot_release i w)"
proof (cases "sl_gen (slot_at w i) = 0")
  case True
  then show ?thesis using inv by (simp add: slot_release_free)
next
  case False
  from inv obtain fl where wf: "table_wf w" and fl: "free_list w fl" by (auto simp: table_inv_def)
  note at = slot_at_slot_release [OF wf i False]
  have notin: "i \<notin> set fl" using False fl by (simp add: free_list_def)
  have "free_list (slot_release i w) (i # fl)"
    unfolding free_list_def
  proof (intro conjI)
    show "free_chain (t_slots (wk_tab (slot_release i w))) (t_free_head (wk_tab (slot_release i w))) (i # fl)"
      using False i wf fl notin
      by (auto simp: wk_tab_slot_release free_chain_update free_list_def table_wf_def)
    show "set (i # fl) = {k. k < t_nslots (wk_tab (slot_release i w)) \<and> sl_gen (slot_at (slot_release i w) k) = 0}"
      using fl i by (auto simp: free_list_def at)
  qed (use fl notin in \<open>simp add: free_list_def\<close>)
  moreover have "table_wf (slot_release i w)"
    using wf by (simp add: table_wf_def at) (simp add: wk_tab_slot_release)
  ultimately show ?thesis by (auto simp: table_inv_def)
qed

text \<open>The state \<open>slot_acquire\<close> reaches before it registers the pool cleanup.\<close>

definition acquired :: "nat \<Rightarrow> 'a worker_scheme \<Rightarrow> 'a worker_scheme" where
  "acquired c w =
     (let t = wk_tab w; i = t_free_head t; gen = next_gen (t_seq t);
          rid = push_bit SLOT_INDEX_BITS gen OR of_nat i
      in upd_ctx c (\<lambda>x. x\<lparr>c_slot := i, c_rid := rid, c_rid_hex := rid_hex rid\<rparr>)
          (w\<lparr>wk_tab := t\<lparr>t_slots := (t_slots t)[i := (slot_at w i)
               \<lparr>sl_next_free := SLOT_NIL, sl_gen := gen, sl_ctx := Some c,
                sl_wave := p_wave (ph (wk_ctx w c)), sl_got := 0, sl_denied := 0,
                sl_awaited := 0, sl_published := wk_now w\<rparr>],
             t_free_head := sl_next_free (slot_at w i), t_seq := gen\<rparr>\<rparr>))"

lemma slot_acquire_eq:
  "slot_acquire cln_ok c w =
     (if t_free_head (wk_tab w) = SLOT_NIL then (None, w)
      else if cln_ok then (Some (t_free_head (wk_tab w)), acquired c w)
      else (None, slot_release (t_free_head (wk_tab w)) (acquired c w)))"
  by (simp add: slot_acquire_def acquired_def Let_def)

lemma free_head_NIL_iff:
  assumes "table_inv w"
  shows "t_free_head (wk_tab w) = SLOT_NIL \<longleftrightarrow> (\<forall>i<t_nslots (wk_tab w). sl_gen (slot_at w i) \<noteq> 0)"
proof -
  from assms obtain fl where wf: "table_wf w" and fl: "free_list w fl" by (auto simp: table_inv_def)
  show ?thesis
  proof (cases fl)
    case Nil
    then show ?thesis using fl by (auto simp: free_list_def)
  next
    case (Cons i fs)
    then have "t_free_head (wk_tab w) = i" "i < t_nslots (wk_tab w)" "sl_gen (slot_at w i) = 0"
      using fl wf by (auto simp: free_list_def table_wf_def)
    then show ?thesis using wf by (auto simp: table_wf_def)
  qed
qed

lemma free_head_free:
  assumes "table_inv w" and "t_free_head (wk_tab w) \<noteq> SLOT_NIL"
  shows "t_free_head (wk_tab w) < t_nslots (wk_tab w)"
    and "sl_gen (slot_at w (t_free_head (wk_tab w))) = 0"
proof -
  from assms obtain fl where wf: "table_wf w" and fl: "free_list w fl" by (auto simp: table_inv_def)
  with assms(2) obtain i fs where "fl = i # fs" "t_free_head (wk_tab w) = i"
    by (cases fl) (auto simp: free_list_def)
  then show "t_free_head (wk_tab w) < t_nslots (wk_tab w)"
    and "sl_gen (slot_at w (t_free_head (wk_tab w))) = 0"
    using fl by (auto simp: free_list_def)
qed

lemma acquired_frame [simp]:
  "t_nslots (wk_tab (acquired c w)) = t_nslots (wk_tab w)"
  "t_seq (wk_tab (acquired c w)) = next_gen (t_seq (wk_tab w))"
  "t_free_head (wk_tab (acquired c w)) = sl_next_free (slot_at w (t_free_head (wk_tab w)))"
  "c_slot (wk_ctx (acquired c w) c) = t_free_head (wk_tab w)"
  "c_rid (wk_ctx (acquired c w) c)
     = push_bit SLOT_INDEX_BITS (next_gen (t_seq (wk_tab w))) OR of_nat (t_free_head (wk_tab w))"
  by (simp_all add: acquired_def Let_def)

lemma slot_at_acquired:
  assumes "table_inv w" and "t_free_head (wk_tab w) \<noteq> SLOT_NIL"
  shows "slot_at (acquired c w) k = (if k = t_free_head (wk_tab w)
      then (slot_at w k)\<lparr>sl_next_free := SLOT_NIL, sl_gen := next_gen (t_seq (wk_tab w)),
             sl_ctx := Some c, sl_wave := p_wave (ph (wk_ctx w c)), sl_got := 0, sl_denied := 0,
             sl_awaited := 0, sl_published := wk_now w\<rparr>
      else slot_at w k)"
  using assms(1) free_head_free [OF assms]
  by (auto simp: acquired_def Let_def slot_at_def upd_ctx_def table_inv_def table_wf_def)

lemma acquired_inv:
  assumes "table_inv w" and nn: "t_free_head (wk_tab w) \<noteq> SLOT_NIL"
  shows "table_inv (acquired c w)"
proof -
  let ?i = "t_free_head (wk_tab w)"
  from assms obtain fl where wf: "table_wf w" and fl: "free_list w (?i # fl)"
    unfolding table_inv_def free_list_def by (metis free_chain.simps list.exhaust)
  note at = slot_at_acquired [OF assms]
  have "free_chain (t_slots (wk_tab w)) (sl_next_free (slot_at w ?i)) fl" and notin: "?i \<notin> set fl"
    using fl by (auto simp: free_list_def slot_at_def)
  then have "free_chain (t_slots (wk_tab (acquired c w))) (t_free_head (wk_tab (acquired c w))) fl"
    by (simp add: acquired_def Let_def free_chain_update)
  moreover have "set fl = {k. k < t_nslots (wk_tab w) \<and> sl_gen (slot_at (acquired c w) k) = 0}"
    using fl notin by (auto simp: free_list_def at next_gen_nonzero)
  ultimately have "free_list (acquired c w) fl"
    using fl by (simp add: free_list_def)
  moreover have "length (t_slots (wk_tab (acquired c w))) = length (t_slots (wk_tab w))"
    by (simp add: acquired_def Let_def)
  then have "table_wf (acquired c w)"
    using wf by (simp add: table_wf_def at next_gen_nonzero take_bit_next_gen)
  ultimately show ?thesis by (auto simp: table_inv_def)
qed

lemma slot_acquire_inv [waf_inv]:
  assumes "table_inv w" and "slot_acquire cln_ok c w = (r, w')"
  shows "table_inv w'"
proof (cases "t_free_head (wk_tab w) = SLOT_NIL")
  case True
  then show ?thesis using assms by (auto simp: slot_acquire_eq)
next
  case False
  note acquired_inv [OF assms(1) False, of c] free_head_free(1) [OF assms(1) False]
  then show ?thesis
    using assms(2) False by (auto simp: slot_acquire_eq intro: slot_release_inv split: if_splits)
qed

subsection \<open>Looking a request id up\<close>

lemma rid_parts:
  assumes "i \<le> SLOT_INDEX_MASK" and "take_bit 40 g = g"
  shows "unat ((push_bit SLOT_INDEX_BITS g OR of_nat i) AND of_nat SLOT_INDEX_MASK) = i"
    and "drop_bit SLOT_INDEX_BITS (push_bit SLOT_INDEX_BITS g OR of_nat i :: u64) = g"
proof -
  have i: "take_bit 24 (of_nat i :: u64) = of_nat i" "unat (of_nat i :: u64) = i"
    using assms(1) by (simp_all add: take_bit_of_nat take_bit_nat_eq_self unat_of_nat)
  then have bi: "bit (of_nat i :: u64) k \<Longrightarrow> k < 24" for k by (metis bit_take_bit_iff)
  have bg: "bit g k \<Longrightarrow> k < 40" for k using assms(2) by (metis bit_take_bit_iff)
  have m: "(of_nat SLOT_INDEX_MASK :: u64) = mask 24" by (simp add: mask_eq_exp_minus_1)
  have "(push_bit SLOT_INDEX_BITS g OR of_nat i) AND of_nat SLOT_INDEX_MASK = of_nat i"
    unfolding m by (rule bit_word_eqI)
      (auto simp: bit_and_iff bit_mask_iff bit_or_iff bit_push_bit_iff dest: bi)
  then show "unat ((push_bit SLOT_INDEX_BITS g OR of_nat i) AND of_nat SLOT_INDEX_MASK) = i"
    using i by simp
  show "drop_bit SLOT_INDEX_BITS (push_bit SLOT_INDEX_BITS g OR of_nat i :: u64) = g"
    by (rule bit_word_eqI) (auto simp: bit_drop_bit_eq bit_or_iff bit_push_bit_iff dest: bi bg)
qed

lemma slot_lookup_Some_iff:
  "slot_lookup rid w = Some i \<longleftrightarrow>
     i = unat (rid AND of_nat SLOT_INDEX_MASK) \<and> i < t_nslots (wk_tab w) \<and>
     sl_gen (slot_at w i) = drop_bit SLOT_INDEX_BITS rid \<and> sl_ctx (slot_at w i) \<noteq> None"
  by (auto simp: slot_lookup_def Let_def)

lemma slot_acquire_SomeD:
  assumes "table_inv w" and "slot_acquire cln_ok c w = (Some i, w')"
  shows "t_free_head (wk_tab w) \<noteq> SLOT_NIL" and "i = t_free_head (wk_tab w)"
    and "i < t_nslots (wk_tab w)" and "sl_gen (slot_at w i) = 0" and "w' = acquired c w"
proof -
  show nn: "t_free_head (wk_tab w) \<noteq> SLOT_NIL"
    using assms(2) by (auto simp: slot_acquire_eq split: if_splits)
  with assms(2) show i: "i = t_free_head (wk_tab w)" and "w' = acquired c w"
    by (auto simp: slot_acquire_eq split: if_splits)
  show "i < t_nslots (wk_tab w)" and "sl_gen (slot_at w i) = 0"
    using free_head_free [OF assms(1) nn] by (simp_all add: i)
qed

lemma slot_lookup_acquired:
  assumes inv: "table_inv w" and acq: "slot_acquire cln_ok c w = (Some i, w')"
  shows "slot_lookup (c_rid (wk_ctx w' c)) w' = Some i"
proof -
  note D = slot_acquire_SomeD [OF assms]
  have "i \<le> SLOT_INDEX_MASK" using D(3) inv by (simp add: table_inv_def table_wf_def)
  note rid = rid_parts [OF this take_bit_next_gen [of "t_seq (wk_tab w)"]]
  show ?thesis
    using D rid slot_at_acquired [OF inv D(1)] by (simp add: slot_lookup_Some_iff)
qed

lemma slot_lookup_acquire_other:
  assumes inv: "table_inv w" and acq: "slot_acquire cln_ok c w = (Some i, w')"
    and "slot_lookup rid w = Some k"
  shows "slot_lookup rid w' = Some k" and "k \<noteq> i"
proof -
  note D = slot_acquire_SomeD [OF inv acq]
  have k: "k < t_nslots (wk_tab w)" "sl_ctx (slot_at w k) \<noteq> None"
    using assms(3) unfolding slot_lookup_Some_iff by blast+
  with inv have "sl_gen (slot_at w k) \<noteq> 0" by (auto simp: table_inv_def table_wf_def)
  with D(4) show "k \<noteq> i" by auto
  then have "slot_at w' k = slot_at w k"
    using D slot_at_acquired [OF inv D(1), of c k] by simp
  with D(5) assms(3) show "slot_lookup rid w' = Some k"
    by (auto simp: slot_lookup_Some_iff)
qed

lemma slot_lookup_release:
  assumes "table_inv w" and "i < t_nslots (wk_tab w)"
  shows "slot_lookup rid (slot_release i w) = (if slot_lookup rid w = Some i then None else slot_lookup rid w)"
proof (cases "sl_gen (slot_at w i) = 0")
  case True
  then have "slot_lookup rid w \<noteq> Some i"
    using assms by (auto simp: slot_lookup_Some_iff table_inv_def table_wf_def)
  with True show ?thesis by (simp add: slot_release_free)
next
  case False
  from assms(1) have wf: "table_wf w" by (simp add: table_inv_def)
  note at = slot_at_slot_release [OF wf assms(2) False]
  show ?thesis
    by (auto simp: slot_lookup_def Let_def at)
qed

subsection \<open>What the runtime relies on\<close>

text \<open>
  The contract the phase handler uses: a slot taken for a context is found by the context's request
  id until it is given back, other requests keep their slots, and giving a slot back ends its id.
\<close>

locale wait_slots =
  fixes inv :: "'w \<Rightarrow> bool"
    and room :: "nat \<Rightarrow> 'w \<Rightarrow> bool"
    and acquire :: "bool \<Rightarrow> nat \<Rightarrow> 'w \<Rightarrow> nat option \<times> 'w"
    and lookup :: "u64 \<Rightarrow> 'w \<Rightarrow> nat option"
    and release :: "nat \<Rightarrow> 'w \<Rightarrow> 'w"
    and rid_of :: "nat \<Rightarrow> 'w \<Rightarrow> u64"
  assumes acquire_inv: "inv w \<Longrightarrow> acquire ok c w = (r, w') \<Longrightarrow> inv w'"
    and release_inv: "inv w \<Longrightarrow> room i w \<Longrightarrow> inv (release i w)"
    and lookup_room: "inv w \<Longrightarrow> lookup rid w = Some i \<Longrightarrow> room i w"
    and lookup_acquired: "inv w \<Longrightarrow> acquire ok c w = (Some i, w') \<Longrightarrow> lookup (rid_of c w') w' = Some i"
    and lookup_kept: "inv w \<Longrightarrow> acquire ok c w = (Some i, w') \<Longrightarrow> lookup rid w = Some k
           \<Longrightarrow> lookup rid w' = Some k"
    and acquired_fresh: "inv w \<Longrightarrow> acquire ok c w = (Some i, w') \<Longrightarrow> lookup rid w \<noteq> Some i"
    and lookup_released: "inv w \<Longrightarrow> room i w \<Longrightarrow>
           lookup rid (release i w) = (if lookup rid w = Some i then None else lookup rid w)"
begin

lemma two_requests_apart:
  assumes "inv w" and a: "acquire ok1 c1 w = (Some i, w1)" and b: "acquire ok2 c2 w1 = (Some j, w2)"
  shows "i \<noteq> j \<and> rid_of c1 w1 \<noteq> rid_of c2 w2
         \<and> lookup (rid_of c1 w1) w2 = Some i \<and> lookup (rid_of c2 w2) w2 = Some j"
proof -
  have w1: "inv w1" by (rule acquire_inv [OF assms(1) a])
  have l1: "lookup (rid_of c1 w1) w1 = Some i" by (rule lookup_acquired [OF assms(1) a])
  have l2: "lookup (rid_of c1 w1) w2 = Some i" by (rule lookup_kept [OF w1 b l1])
  have l3: "lookup (rid_of c2 w2) w2 = Some j" by (rule lookup_acquired [OF w1 b])
  have "i \<noteq> j" using acquired_fresh [OF w1 b] l1 by blast
  with l2 l3 show ?thesis by auto
qed

lemma released_forgotten:
  assumes "inv w" and a: "acquire ok c w = (Some i, w1)"
  shows "lookup (rid_of c w1) (release i w1) = None"
    and "inv (release i w1)"
    and "lookup rid w = Some k \<Longrightarrow> lookup rid (release i w1) = Some k"
proof -
  have w1: "inv w1" by (rule acquire_inv [OF assms])
  have l1: "lookup (rid_of c w1) w1 = Some i" by (rule lookup_acquired [OF assms])
  note r = lookup_room [OF w1 l1]
  show "lookup (rid_of c w1) (release i w1) = None" by (simp add: lookup_released [OF w1 r] l1)
  show "inv (release i w1)" by (rule release_inv [OF w1 r])
  assume k: "lookup rid w = Some k"
  with acquired_fresh [OF assms, of rid] have "k \<noteq> i" by auto
  with lookup_kept [OF assms k] show "lookup rid (release i w1) = Some k"
    by (simp add: lookup_released [OF w1 r])
qed

end

interpretation slots: wait_slots table_inv "\<lambda>i w. i < t_nslots (wk_tab w)" slot_acquire slot_lookup
  slot_release "\<lambda>c w. c_rid (wk_ctx w c)"
proof
  show "slot_lookup rid w = Some i \<Longrightarrow> i < t_nslots (wk_tab w)" for rid i and w :: "'a worker_scheme"
    by (simp add: slot_lookup_Some_iff)
qed (simp_all add: slot_acquire_inv slot_release_inv slot_lookup_acquired
      slot_lookup_acquire_other(1) slot_lookup_release, metis slot_lookup_acquire_other(2))

subsection \<open>Runs of the table\<close>

text \<open>
  Any sequence of table operations by any contexts, with the number of generations it hands out.
  \<open>run_slot\<close> stands for the runtime writing the wave fields of a slot, \<open>run_ctx\<close> for
  every step that does not touch the table.
\<close>

inductive table_run :: "'a worker_scheme \<Rightarrow> nat \<Rightarrow> 'a worker_scheme \<Rightarrow> bool" where
  run_refl: "table_run w 0 w"
| run_acquire: "table_run w n v \<Longrightarrow> slot_acquire ok c v = (r, v') \<Longrightarrow> table_run w (Suc n) v'"
| run_release: "table_run w n v \<Longrightarrow> i < t_nslots (wk_tab v) \<Longrightarrow> table_run w n (slot_release i v)"
| run_detach: "table_run w n v \<Longrightarrow> table_run w n (slot_detach c v)"
| run_slot: "table_run w n v \<Longrightarrow> i < t_nslots (wk_tab v) \<Longrightarrow>
     (\<And>s. sl_gen (f s) = sl_gen s \<and> sl_next_free (f s) = sl_next_free s \<and> sl_ctx (f s) = sl_ctx s) \<Longrightarrow>
     table_run w n (upd_slot i f v)"
| run_ctx: "table_run w n v \<Longrightarrow> wk_tab v' = wk_tab v \<Longrightarrow> table_run w n v'"

lemma slot_detach_eq:
  "\<exists>f. slot_detach c w =
     (let v = upd_ctx c f w in
      if c_slot (wk_ctx w c) \<ge> t_nslots (wk_tab w) then v
      else upd_ctx c (c_slot_update (\<lambda>_. SLOT_NIL))
             (if sl_gen (slot_at w (c_slot (wk_ctx w c))) = drop_bit SLOT_INDEX_BITS (c_rid (wk_ctx w c))
              then slot_release (c_slot (wk_ctx w c)) v else v))"
proof (cases "c_timer (wk_ctx w c) = None")
  case True
  moreover have "upd_ctx c (\<lambda>x. x) w = w" by (simp add: upd_ctx_def)
  ultimately show ?thesis by (intro exI [of _ "\<lambda>x. x"]) (simp add: slot_detach_def Let_def)
next
  case False
  then show ?thesis
    by (intro exI [of _ "c_timer_update (\<lambda>_. None)"]) (auto simp: slot_detach_def Let_def)
qed

lemma wk_tab_slot_detach:
  "wk_tab (slot_detach c w) = wk_tab w \<or>
   (\<exists>i<t_nslots (wk_tab w). wk_tab (slot_detach c w) = wk_tab (slot_release i w))"
proof -
  have "wk_tab (slot_release i (upd_ctx c f w)) = wk_tab (slot_release i w)" for f i
    by (simp add: wk_tab_slot_release)
  with slot_detach_eq [of c w] show ?thesis
    by (auto simp: Let_def split: if_splits) (metis linorder_not_le)+
qed

lemma slot_detach_inv [waf_inv]: "table_inv w \<Longrightarrow> table_inv (slot_detach c w)"
  using wk_tab_slot_detach [of c w] by (metis slot_release_inv table_inv_cong)

lemma upd_slot_inv:
  assumes "table_inv w" and "i < t_nslots (wk_tab w)"
    and f: "\<And>s. sl_gen (f s) = sl_gen s \<and> sl_next_free (f s) = sl_next_free s \<and> sl_ctx (f s) = sl_ctx s"
  shows "table_inv (upd_slot i f w)"
proof -
  have chain: "free_chain (ss[i := f (ss ! i)]) h fl = free_chain ss h fl" for ss h fl
  proof (induction fl arbitrary: h)
    case (Cons a fl)
    have "a < length ss \<Longrightarrow> sl_next_free (ss[i := f (ss ! i)] ! a) = sl_next_free (ss ! a)"
      using f [of "ss ! i"] by (cases "a = i") simp_all
    then show ?case using Cons.IH by (cases "a < length ss") simp_all
  qed simp
  have at: "slot_at (upd_slot i f w) k = (if k = i then f (slot_at w k) else slot_at w k)" for k
    using assms(1,2) by (auto simp: slot_at_def upd_slot_def table_inv_def table_wf_def)
  from assms(1) obtain fl where "table_wf w" "free_list w fl" by (auto simp: table_inv_def)
  moreover have "wk_tab (upd_slot i f w) = (wk_tab w)\<lparr>t_slots := (t_slots (wk_tab w))[i := f (t_slots (wk_tab w) ! i)]\<rparr>"
    by (simp add: upd_slot_def)
  moreover have "sl_gen (slot_at (upd_slot i f w) k) = sl_gen (slot_at w k)"
      "sl_ctx (slot_at (upd_slot i f w) k) = sl_ctx (slot_at w k)" for k
    using f by (simp_all add: at)
  ultimately have "table_wf (upd_slot i f w)" "free_list (upd_slot i f w) fl"
    by (simp_all add: table_wf_def free_list_def chain)
  then show ?thesis by (auto simp: table_inv_def)
qed

lemma table_run_inv: "table_run w n v \<Longrightarrow> table_inv w \<Longrightarrow> table_inv v"
proof (induction rule: table_run.induct)
  case (run_acquire w n v ok c r v')
  then show ?case using slot_acquire_inv by blast
next
  case (run_release w n v i)
  then show ?case using slot_release_inv by blast
next
  case (run_detach w n v c)
  then show ?case using slot_detach_inv by blast
next
  case (run_slot w n v i f)
  then show ?case using upd_slot_inv by blast
next
  case (run_ctx w n v v')
  then show ?case using table_inv_cong by blast
qed

text \<open>
  A slot that was free at the start of a run holds, at its end, no generation or one of those
  handed out during the run.
\<close>

definition handed_out :: "u64 \<Rightarrow> nat \<Rightarrow> u64 \<Rightarrow> bool" where
  "handed_out s m g \<longleftrightarrow> g = 0 \<or> (\<exists>j. 0 < j \<and> j \<le> m \<and> g = (next_gen ^^ j) s)"

lemma handed_out_simps [simp]: "handed_out s m 0" "handed_out s (Suc m) ((next_gen ^^ Suc m) s)"
  unfolding handed_out_def by blast+

lemma handed_out_Suc: "handed_out s m g \<Longrightarrow> handed_out s (Suc m) g"
  unfolding handed_out_def using le_SucI by blast

lemma slot_acquire_gens:
  assumes inv: "table_inv v" and acq: "slot_acquire ok c v = (r, v')"
    and seq: "t_seq (wk_tab v) = (next_gen ^^ m) s" and g: "handed_out s m (sl_gen (slot_at v i))"
  shows "t_nslots (wk_tab v') = t_nslots (wk_tab v) \<and>
         (\<exists>k\<le>Suc m. t_seq (wk_tab v') = (next_gen ^^ k) s \<and> handed_out s k (sl_gen (slot_at v' i)))"
proof (cases "t_free_head (wk_tab v) = SLOT_NIL")
  case True
  then have "v' = v" using acq by (simp add: slot_acquire_eq)
  then show ?thesis using seq g le_SucI by blast
next
  case False
  let ?h = "t_free_head (wk_tab v)"
  note inv' = acquired_inv [OF inv False, of c]
  have "next_gen (t_seq (wk_tab v)) = (next_gen ^^ Suc m) s" by (simp add: seq)
  then have acq': "handed_out s (Suc m) (sl_gen (slot_at (acquired c v) i))"
    and seq': "t_seq (wk_tab (acquired c v)) = (next_gen ^^ Suc m) s"
    using g by (simp_all add: slot_at_acquired [OF inv False] handed_out_Suc del: funpow.simps)
  have "handed_out s (Suc m) (sl_gen (slot_at (slot_release ?h (acquired c v)) i))"
    using acq' gen_slot_release [of "acquired c v" ?h i] free_head_free(1) [OF inv False] inv'
    by (simp add: table_inv_def del: funpow.simps)
  with acq' seq' show ?thesis
    using acq False
    by (intro conjI exI [of _ "Suc m"])
      (auto simp: slot_acquire_eq simp del: funpow.simps split: if_splits)
qed

lemma table_run_gens:
  assumes "table_run w n v" and "table_inv w" and "i < t_nslots (wk_tab w)"
    and "sl_gen (slot_at w i) = 0"
  shows "t_nslots (wk_tab v) = t_nslots (wk_tab w) \<and>
         (\<exists>m\<le>n. t_seq (wk_tab v) = (next_gen ^^ m) (t_seq (wk_tab w))
               \<and> handed_out (t_seq (wk_tab w)) m (sl_gen (slot_at v i)))"
  using assms
proof (induction rule: table_run.induct)
  case (run_refl w)
  then show ?case by auto
next
  case (run_acquire w n v ok c r v')
  then have inv: "table_inv v" using table_run_inv by blast
  from run_acquire obtain m where m: "m \<le> n"
    and seq: "t_seq (wk_tab v) = (next_gen ^^ m) (t_seq (wk_tab w))"
    and g: "handed_out (t_seq (wk_tab w)) m (sl_gen (slot_at v i))"
    and ns: "t_nslots (wk_tab v) = t_nslots (wk_tab w)" by blast
  from slot_acquire_gens [OF inv run_acquire.hyps(2) seq g] obtain k where "k \<le> Suc m"
    and "t_seq (wk_tab v') = (next_gen ^^ k) (t_seq (wk_tab w))"
    and "handed_out (t_seq (wk_tab w)) k (sl_gen (slot_at v' i))"
    and "t_nslots (wk_tab v') = t_nslots (wk_tab v)" by blast
  moreover have "k \<le> Suc n" using \<open>k \<le> Suc m\<close> m by simp
  ultimately show ?case using ns by auto
next
  case (run_release w n v k)
  then have "table_wf v" using table_run_inv by (auto simp: table_inv_def)
  then show ?case
    using run_release gen_slot_release [of v k i] by auto
next
  case (run_detach w n v c)
  then have wf: "table_wf v" using table_run_inv by (auto simp: table_inv_def)
  consider "wk_tab (slot_detach c v) = wk_tab v"
    | k where "k < t_nslots (wk_tab v)" "wk_tab (slot_detach c v) = wk_tab (slot_release k v)"
    using wk_tab_slot_detach by blast
  then show ?case
  proof cases
    case 1
    then show ?thesis using run_detach by (simp add: slot_at_def)
  next
    case 2
    then have "slot_at (slot_detach c v) i = slot_at (slot_release k v) i" by (simp add: slot_at_def)
    then show ?thesis using 2 run_detach gen_slot_release [OF wf 2(1), of i] by auto
  qed
next
  case (run_slot w n v k f)
  have "sl_gen (slot_at (upd_slot k f v) i) = sl_gen (slot_at v i)"
    using run_slot.hyps(3) [of "slot_at v k"]
    by (cases "k < length (t_slots (wk_tab v))")
      (auto simp: slot_at_def upd_slot_def nth_list_update list_update_beyond)
  then show ?case using run_slot by (simp add: upd_slot_def)
next
  case (run_ctx w n v v')
  then show ?case by (simp add: slot_at_def)
qed

subsection \<open>Event ids\<close>

lemma byte_eqI:
  fixes a b :: byte
  assumes "\<And>n. n \<in> {0, 1, 2, 3, 4, 5, 6, 7} \<Longrightarrow> bit a n = bit b n"
  shows "a = b"
proof (rule bit_word_eqI)
  fix n assume "n < LENGTH(8)"
  then have "n \<in> {0, 1, 2, 3, 4, 5, 6, 7}" by auto
  then show "bit a n = bit b n" by (rule assms)
qed

lemma uuid_version: "drop_bit 4 ((b AND 0x0f) OR 0x40 :: byte) = 4"
  by (rule byte_eqI) (auto simp: bit_drop_bit_eq mask_bits)

lemma uuid_variant:
  "drop_bit 4 ((b AND 0x3f) OR 0x80 :: byte) = 8 + (drop_bit 4 b AND 3)"
  "drop_bit 4 b AND 3 \<in> {0 :: byte, 1, 2, 3}"
proof -
  have "8 + (drop_bit 4 b AND 3) = 8 OR (drop_bit 4 b AND 3 :: byte)"
    by (rule disjunctive_add_eq_or) (rule byte_eqI, auto simp: mask_bits)
  moreover have "drop_bit 4 ((b AND 0x3f) OR 0x80 :: byte) = 8 OR (drop_bit 4 b AND 3)"
    by (rule byte_eqI) (auto simp: bit_drop_bit_eq mask_bits)
  ultimately show "drop_bit 4 ((b AND 0x3f) OR 0x80 :: byte) = 8 + (drop_bit 4 b AND 3)" by simp
  have "unat (drop_bit 4 b AND 3) < 4"
  proof -
    have "drop_bit 4 b AND 3 = take_bit 2 (drop_bit 4 b)"
      by (simp add: take_bit_eq_mask mask_eq_exp_minus_1)
    then show ?thesis by (simp add: unsigned_take_bit_eq take_bit_nat_less_exp [of 2, simplified])
  qed
  moreover define n where "n = unat (drop_bit 4 b AND 3)"
  ultimately have "n \<in> {0, 1, 2, 3}" by auto
  moreover have "drop_bit 4 b AND 3 = of_nat n" by (simp add: n_def)
  ultimately show "drop_bit 4 b AND 3 \<in> {0 :: byte, 1, 2, 3}" by auto
qed

lemma list16:
  assumes "length xs = 16"
  obtains a b c d e f g h i j k l m n p q where "xs = [a, b, c, d, e, f, g, h, i, j, k, l, m, n, p, q]"
  using assms by (auto simp: length_Suc_conv numeral_eq_Suc)

subsection \<open>Properties\<close>

text \<open>A worker with an empty table of two slots, for the instances below.\<close>

definition sample_worker :: worker where
  "sample_worker = snd (slot_table_init True 5 4711 NGX_OK 2
     \<lparr>wk_tab = \<lparr>t_slots = [], t_nslots = 0, t_free_head = 0, t_seq = 0\<rparr>,
      wk_ctx = (\<lambda>_. ctx_create []), wk_now = 1000\<rparr>)"

lemma sample_worker_init:
  "slot_table_init True 5 4711 NGX_OK 2
     \<lparr>wk_tab = \<lparr>t_slots = [], t_nslots = 0, t_free_head = 0, t_seq = 0\<rparr>,
      wk_ctx = (\<lambda>_. ctx_create []), wk_now = 1000\<rparr> = (NGX_OK, sample_worker)"
  by (simp add: sample_worker_def slot_table_init_def Let_def)

lemmas sample_worker_inv = slot_table_init_inv [OF sample_worker_init]

lemma sample_worker_acquire:
  "slot_acquire True c sample_worker = (Some 0, acquired c sample_worker)"
  "slot_acquire True d (acquired c sample_worker) = (Some 1, acquired d (acquired c sample_worker))"
  by (simp_all add: slot_acquire_eq sample_worker_def slot_table_init_def acquired_def Let_def
      slot_at_def fresh_slot_def)

text \<open>
  C1: A request id has exactly one spelling on the bus: \<open>rid_parse\<close> accepts a string if and
  only if it is the 16 lower-case hexadecimal digits \<open>rid_hex\<close> writes for that id.
\<close>

theorem rid_parse_iff: "rid_parse s = Some r \<longleftrightarrow> s = rid_hex r"
  using rid_parse_rid_hex rid_parse_canonical by blast

text \<open>
  C2: From a successful initialisation on, every sequence of acquires (also failed ones), releases
  and detaches keeps the table well formed: the free list reaches every free slot exactly once, and
  a slot has a context exactly when it has a generation.
\<close>

theorem slot_table_reachable_inv:
  assumes "slot_table_init alloc_ok rnd pid seed_rc nslots w0 = (NGX_OK, w)"
    and "table_run w n v"
  shows "table_inv v"
  using slot_table_init_inv [OF assms(1)] table_run_inv [OF assms(2)] by blast

theorem slot_table_reachable_inv_witness:
  "table_inv (slot_release 0 (snd (slot_acquire True 7 sample_worker)))"
proof -
  have "table_run sample_worker 1 (acquired 7 sample_worker)"
    using run_acquire [OF run_refl sample_worker_acquire(1)] by simp
  moreover have "0 < t_nslots (wk_tab (acquired 7 sample_worker))"
    using sample_worker_inv by (simp add: table_inv_def table_wf_def)
  ultimately have "table_run sample_worker 1 (slot_release 0 (acquired 7 sample_worker))"
    by (rule run_release)
  from slot_table_reachable_inv [OF sample_worker_init this] show ?thesis
    by (simp add: sample_worker_acquire)
qed



text \<open>
  Two requests that hold slots at the same time have different slots and different request
  ids, and each id finds its own slot.
\<close>

theorem concurrent_requests_apart:
  assumes "table_inv w" and "slot_acquire ok1 c1 w = (Some i, w1)"
    and "slot_acquire ok2 c2 w1 = (Some j, w2)"
  shows "i \<noteq> j \<and> c_rid (wk_ctx w1 c1) \<noteq> c_rid (wk_ctx w2 c2) \<and>
         slot_lookup (c_rid (wk_ctx w1 c1)) w2 = Some i \<and> slot_lookup (c_rid (wk_ctx w2 c2)) w2 = Some j"
  by (rule slots.two_requests_apart [OF assms])

theorem concurrent_requests_apart_witness:
  "slot_lookup (c_rid (wk_ctx (acquired 7 sample_worker) 7))
     (acquired 8 (acquired 7 sample_worker)) = Some 0"
  using concurrent_requests_apart [OF sample_worker_inv sample_worker_acquire] by blast

text \<open>
  Apart from a failed cleanup registration, a request is refused a slot exactly when every
  slot of the table is in use.
\<close>

theorem slot_acquire_full:
  assumes "table_inv w"
  shows "fst (slot_acquire True c w) = None \<longleftrightarrow> (\<forall>i<t_nslots (wk_tab w). sl_ctx (slot_at w i) \<noteq> None)"
  using free_head_NIL_iff [OF assms] assms
  by (auto simp: slot_acquire_eq table_inv_def table_wf_def)

theorem slot_acquire_full_witness:
  "fst (slot_acquire True 9 sample_worker) = None \<longleftrightarrow>
     (\<forall>i<2. sl_ctx (slot_at sample_worker i) \<noteq> None)"
  using slot_acquire_full [OF sample_worker_inv, of 9]
  by (simp add: sample_worker_def slot_table_init_def Let_def)

text \<open>
  Every event id is a version 4, variant 1 UUID in its 36-character form, also when the system
  has no random bytes and the id comes from the hash of the seed and a counter.
\<close>

theorem ray_next_uuid4:
  assumes "fst getrandom = 16 \<Longrightarrow> length (snd getrandom) = 16"
    and "fst rd = 16 \<Longrightarrow> length (snd rd) = 16"
    and "\<And>seed n. length (md5 seed n) = 16"
  shows "\<exists>u. fst (ray_next md5 getrandom rd st) = u \<and> length u = RAY_HEX_LEN
     \<and> u ! 8 = 0x2d \<and> u ! 13 = 0x2d \<and> u ! 18 = 0x2d \<and> u ! 23 = 0x2d
     \<and> u ! 14 = 0x34 \<and> u ! 19 \<in> {0x38, 0x39, 0x61, 0x62}"
proof -
  obtain raw where len: "length raw = 16" and eq: "fst (ray_next md5 getrandom rd st) =
      uuid_fmt (let raw = raw[6 := (raw ! 6 AND 0x0f) OR 0x40] in raw[8 := (raw ! 8 AND 0x3f) OR 0x80])"
    using assms by (fastforce simp: ray_next_def random16_def Let_def split: if_splits)
  from len obtain a b c d e f g h i j k l m n p q
    where raw: "raw = [a, b, c, d, e, f, g, h, i, j, k, l, m, n, p, q]" by (rule list16)
  show ?thesis
    using uuid_variant(2) [of i]
    by (auto simp: eq raw uuid_fmt_def uuid_version uuid_variant(1) hex_digits_def)
qed

theorem ray_next_uuid4_witness:
  "length (fst (ray_next (\<lambda>_ _. replicate 16 0xff) (16, replicate 16 0xab) (-1, [])
     \<lparr>ray_seed_bytes = [], ray_fallback = 0, ray_fd = -1\<rparr>)) = 36"
  using ray_next_uuid4 [of "(16, replicate 16 0xab)" "(-1, [])" "\<lambda>_ _. replicate 16 0xff"] by auto

end
