(* ===== verification/Breaker.thy ===== *)
theory Breaker
  imports Waf_Types
begin

text \<open>
  The circuit breakers (\<open>src/module/src/local/ngx_http_waf_breaker.c\<close>): one per inspector in
  shared memory, keyed by position and tagged with a checksum of the inspector's name. A breaker
  opens when enough calls of a window failed, lets one probe per period through while it is open,
  and closes again after a probe that was answered.

  The functions are modelled as run by one worker at a time, where a compare-and-set of a value
  just read succeeds; the race of several workers for the probe is modelled separately, step by
  step, at the end. \<open>crc\<close> is nginx's \<open>ngx_crc32_short\<close>.
\<close>

datatype bstate = BREAKER_CLOSED | BREAKER_HALF | BREAKER_OPEN

abbreviation (input) BREAKER_MIN_SAMPLES :: u64 where "BREAKER_MIN_SAMPLES \<equiv> 20"

record breaker =
  br_state :: bstate
  br_epoch :: msec
  br_attempts :: u64
  br_failures :: u64
  br_probe_at :: msec
  br_tag :: u64

text \<open>The breakers of the zone; \<open>None\<close> when there is no shared memory zone.\<close>

type_synonym breakers = "breaker list option"

definition breaker_reset :: "u64 \<Rightarrow> breaker \<Rightarrow> breaker" where
  "breaker_reset tag b =
     (if br_tag b \<noteq> tag
      then b\<lparr>br_tag := tag, br_state := BREAKER_CLOSED, br_probe_at := 0, br_epoch := 0,
             br_attempts := 0, br_failures := 0\<rparr>
      else b)"

definition breaker_get ::
  "(bytes \<Rightarrow> u32) \<Rightarrow> nat \<Rightarrow> inspector \<Rightarrow> breakers \<Rightarrow> (breaker list \<times> breaker) option" where
  "breaker_get crc index insp shm =
     (if \<not> i_breaker insp \<or> index \<ge> MAX_INSPECTORS then None
      else case shm of
        None \<Rightarrow> None
      | Some bs \<Rightarrow> (let b = breaker_reset (ucast (crc (i_name insp))) (bs ! index)
                   in Some (bs[index := b], b)))"

definition breaker_open :: "inspector \<Rightarrow> msec \<Rightarrow> breaker \<Rightarrow> breaker" where
  "breaker_open insp now b =
     b\<lparr>br_probe_at := now + i_breaker_probe insp, br_epoch := now, br_attempts := 0,
       br_failures := 0, br_state := BREAKER_OPEN\<rparr>"

definition breaker_close :: "inspector \<Rightarrow> msec \<Rightarrow> breaker \<Rightarrow> breaker" where
  "breaker_close insp now b =
     b\<lparr>br_epoch := now, br_attempts := 0, br_failures := 0, br_state := BREAKER_CLOSED\<rparr>"

definition breaker_allow ::
  "(bytes \<Rightarrow> u32) \<Rightarrow> msec \<Rightarrow> nat \<Rightarrow> inspector \<Rightarrow> breakers \<Rightarrow> rc \<times> breakers" where
  "breaker_allow crc now index insp shm =
     (case breaker_get crc index insp shm of
        None \<Rightarrow> (NGX_OK, shm)
      | Some (bs, b) \<Rightarrow>
          if br_state b = BREAKER_CLOSED then (NGX_OK, Some bs)
          else if msec_diff now (br_probe_at b) \<ge> 0
          then (NGX_OK, Some (bs[index := b\<lparr>br_probe_at := now + i_breaker_probe insp,
                                            br_state := BREAKER_HALF\<rparr>]))
          else (NGX_DECLINED, Some bs))"

text \<open>The window rolls over when it is older than \<open>breaker_window\<close>.\<close>

definition breaker_roll :: "inspector \<Rightarrow> msec \<Rightarrow> breaker \<Rightarrow> breaker" where
  "breaker_roll insp now b =
     (if msec_diff now (br_epoch b) \<ge> sint (i_breaker_window insp)
      then b\<lparr>br_epoch := now, br_attempts := 0, br_failures := 0\<rparr> else b)"

definition breaker_count :: "bool \<Rightarrow> breaker \<Rightarrow> breaker" where
  "breaker_count timed_out b =
     b\<lparr>br_attempts := br_attempts b + 1,
       br_failures := (if timed_out then br_failures b + 1 else br_failures b)\<rparr>"

definition breaker_decide :: "inspector \<Rightarrow> msec \<Rightarrow> bool \<Rightarrow> breaker \<Rightarrow> breaker" where
  "breaker_decide insp now timed_out b =
     (case br_state b of
        BREAKER_HALF \<Rightarrow> if timed_out then breaker_open insp now b else breaker_close insp now b
      | BREAKER_OPEN \<Rightarrow> b
      | BREAKER_CLOSED \<Rightarrow>
          if br_attempts b < BREAKER_MIN_SAMPLES \<or> br_failures b = 0 then b
          else if br_failures b * 10000 div br_attempts b \<ge> i_breaker_threshold insp
          then breaker_open insp now b else b)"

definition breaker_result ::
  "(bytes \<Rightarrow> u32) \<Rightarrow> msec \<Rightarrow> nat \<Rightarrow> inspector \<Rightarrow> bool \<Rightarrow> breakers \<Rightarrow> breakers" where
  "breaker_result crc now index insp timed_out shm =
     (case breaker_get crc index insp shm of
        None \<Rightarrow> shm
      | Some (bs, b) \<Rightarrow>
          Some (bs[index := breaker_decide insp now timed_out
                              (breaker_count timed_out (breaker_roll insp now b))]))"

subsection \<open>One inspector's breaker\<close>

text \<open>
  What the two operations do to the breaker of a configured inspector that has its slot, apart
  from the bookkeeping of the array.
\<close>

definition allow1 :: "inspector \<Rightarrow> msec \<Rightarrow> breaker \<Rightarrow> rc \<times> breaker" where
  "allow1 insp now b =
     (if br_state b = BREAKER_CLOSED then (NGX_OK, b)
      else if msec_diff now (br_probe_at b) \<ge> 0
      then (NGX_OK, b\<lparr>br_probe_at := now + i_breaker_probe insp, br_state := BREAKER_HALF\<rparr>)
      else (NGX_DECLINED, b))"

definition result1 :: "inspector \<Rightarrow> msec \<Rightarrow> bool \<Rightarrow> breaker \<Rightarrow> breaker" where
  "result1 insp now timed_out b =
     breaker_decide insp now timed_out (breaker_count timed_out (breaker_roll insp now b))"

definition owns :: "(bytes \<Rightarrow> u32) \<Rightarrow> nat \<Rightarrow> inspector \<Rightarrow> breaker list \<Rightarrow> bool" where
  "owns crc index insp bs \<longleftrightarrow>
     i_breaker insp \<and> index < MAX_INSPECTORS \<and> index < length bs
     \<and> br_tag (bs ! index) = ucast (crc (i_name insp))"

lemma breaker_get_owns:
  "owns crc index insp bs \<Longrightarrow> breaker_get crc index insp (Some bs) = Some (bs, bs ! index)"
  by (simp add: owns_def breaker_get_def breaker_reset_def)

lemma breaker_allow_owns:
  assumes "owns crc index insp bs"
  shows "breaker_allow crc now index insp (Some bs) =
     (fst (allow1 insp now (bs ! index)), Some (bs[index := snd (allow1 insp now (bs ! index))]))"
  using assms by (simp add: breaker_allow_def breaker_get_owns allow1_def)

lemma breaker_result_owns:
  assumes "owns crc index insp bs"
  shows "breaker_result crc now index insp timed_out (Some bs) =
     Some (bs[index := result1 insp now timed_out (bs ! index)])"
  using assms by (simp add: breaker_result_def breaker_get_owns result1_def)

lemma br_tag_ops [simp]:
  "br_tag (snd (allow1 insp now b)) = br_tag b" "br_tag (result1 insp now t b) = br_tag b"
  by (simp_all add: allow1_def result1_def breaker_decide_def breaker_open_def breaker_close_def
      breaker_count_def breaker_roll_def split: bstate.split)

lemma owns_update:
  "owns crc index insp bs \<Longrightarrow> br_tag b = br_tag (bs ! index) \<Longrightarrow> owns crc index insp (bs[index := b])"
  by (simp add: owns_def)

subsection \<open>A window of results\<close>

text \<open>The results of one inspector, each with its time and whether it timed out.\<close>

fun results :: "(bytes \<Rightarrow> u32) \<Rightarrow> nat \<Rightarrow> inspector \<Rightarrow> (msec \<times> bool) list \<Rightarrow> breakers \<Rightarrow> breakers" where
  "results crc index insp [] shm = shm"
| "results crc index insp ((now, timed_out) # rs) shm =
     results crc index insp rs (breaker_result crc now index insp timed_out shm)"

fun results1 :: "inspector \<Rightarrow> (msec \<times> bool) list \<Rightarrow> breaker \<Rightarrow> breaker" where
  "results1 insp [] b = b"
| "results1 insp ((now, timed_out) # rs) b = results1 insp rs (result1 insp now timed_out b)"

lemma results1_append: "results1 insp (xs @ ys) b = results1 insp ys (results1 insp xs b)"
  by (induction xs arbitrary: b) auto

lemma results_owns:
  "owns crc index insp bs \<Longrightarrow>
   results crc index insp rs (Some bs) = Some (bs[index := results1 insp rs (bs ! index)])"
proof (induction rs arbitrary: bs)
  case Nil
  then show ?case by simp
next
  case (Cons r rs)
  obtain now t where r: "r = (now, t)" by fastforce
  let ?b = "result1 insp now t (bs ! index)"
  have "owns crc index insp (bs[index := ?b])" using Cons.prems by (simp add: owns_update)
  from Cons.IH [OF this] Cons.prems show ?case
    by (simp add: r breaker_result_owns owns_def)
qed

definition failed :: "(msec \<times> bool) list \<Rightarrow> nat" where
  "failed rs = length (filter snd rs)"

lemma failed_simps [simp]:
  "failed [] = 0" "failed (xs @ ys) = failed xs + failed ys"
  "failed [(t, b)] = (if b then 1 else 0)"
  by (simp_all add: failed_def)

lemma failed_le: "failed rs \<le> length rs"
  by (simp add: failed_def)

text \<open>The condition under which the results of a window open the breaker.\<close>

definition trips :: "inspector \<Rightarrow> (msec \<times> bool) list \<Rightarrow> bool" where
  "trips insp rs \<longleftrightarrow>
     20 \<le> length rs \<and> 0 < failed rs \<and> unat (i_breaker_threshold insp) \<le> failed rs * 10000 div length rs"

lemma breaker_rate_unat:
  assumes "unat f * 10000 < 2 ^ 64"
  shows "(f * 10000 div a \<ge> (t :: u64)) \<longleftrightarrow> unat t \<le> unat f * 10000 div unat a"
  using assms by (simp add: word_le_nat_alt unat_div unat_word_ariths)

lemma window_step:
  fixes n f m :: nat
  assumes "br_state c = BREAKER_CLOSED" "br_attempts c = of_nat n" "br_failures c = of_nat f"
    and "msec_diff t (br_epoch c) < sint (i_breaker_window insp)"
    and "f' = f + (if timed_out then 1 else 0)" and "f \<le> n" and "m = n + 1" and "m * 10000 < 2 ^ 64"
  shows "result1 insp t timed_out c =
     (let c' = c\<lparr>br_attempts := of_nat m, br_failures := of_nat f'\<rparr> in
      if 20 \<le> m \<and> 0 < f' \<and> unat (i_breaker_threshold insp) \<le> f' * 10000 div m
      then breaker_open insp t c' else c')"
proof -
  have le: "f' \<le> m" using assms(5-7) by simp
  have u: "unat (of_nat m :: u64) = m" "unat (of_nat f' :: u64) = f'"
    using assms(8) le by (simp_all only: unat_of_nat) simp_all
  have cnt: "breaker_count timed_out (breaker_roll insp t c)
      = c\<lparr>br_attempts := of_nat m, br_failures := of_nat f'\<rparr>"
    using assms(2-7) by (simp add: breaker_roll_def breaker_count_def)
  have g1: "((of_nat m :: u64) < 20) = (m < 20)"
    by (simp only: word_less_nat_alt u) simp
  have g2: "((of_nat f' :: u64) = 0) = (f' = 0)"
    unfolding unat_eq_0 [symmetric] u ..
  have g3: "(i_breaker_threshold insp \<le> (of_nat f' :: u64) * 10000 div of_nat m)
      = (unat (i_breaker_threshold insp) \<le> f' * 10000 div m)"
  proof -
    have "unat (of_nat f' :: u64) * 10000 < 2 ^ 64"
      unfolding u by (rule le_less_trans [OF mult_le_mono1 [OF le] assms(8)])
    from breaker_rate_unat [OF this, of "i_breaker_threshold insp" "of_nat m"]
    show ?thesis unfolding u .
  qed
  show ?thesis
    unfolding result1_def cnt breaker_decide_def Let_def
    using assms(1) by (simp add: g1 g2 g3 not_less)
qed

lemma window_counts:
  assumes "br_state b = BREAKER_CLOSED" "br_attempts b = 0" "br_failures b = 0"
    and "\<forall>(t, _)\<in>set rs. msec_diff t (br_epoch b) < sint (i_breaker_window insp)"
    and "length rs * 10000 < 2 ^ 64"
    and "\<forall>k\<le>length rs. \<not> trips insp (take k rs)"
  shows "results1 insp rs b = b\<lparr>br_attempts := of_nat (length rs), br_failures := of_nat (failed rs)\<rparr>"
  using assms(4-)
proof (induction rs rule: rev_induct)
  case Nil
  then show ?case using assms(2,3) by simp
next
  case (snoc r rs)
  obtain t o' where r: "r = (t, o')" by fastforce
  let ?c = "b\<lparr>br_attempts := of_nat (length rs), br_failures := of_nat (failed rs)\<rparr>"
  have "\<forall>k\<le>length rs. \<not> trips insp (take k rs)"
  proof (intro allI impI)
    fix k assume "k \<le> length rs"
    then show "\<not> trips insp (take k rs)" using snoc.prems(3) [rule_format, of k] by simp
  qed
  then have IH: "results1 insp rs b = ?c" using snoc.IH snoc.prems(1,2) by simp
  have "\<not> trips insp (rs @ [r])" using snoc.prems(3) [rule_format, of "Suc (length rs)"] by simp
  then show ?case
    using window_step [of ?c "length rs" "failed rs" t insp "failed (rs @ [r])" o' "Suc (length rs)"]
      assms(1) failed_le [of rs] snoc.prems(1,2)
    by (auto simp: results1_append IH r trips_def Let_def simp del: of_nat_add of_nat_Suc)
qed

lemma window_open:
  assumes "br_state b = BREAKER_CLOSED" "br_attempts b = 0" "br_failures b = 0"
    and "\<forall>(t, _)\<in>set (rs @ [(now, o')]). msec_diff t (br_epoch b) < sint (i_breaker_window insp)"
    and "(length rs + 1) * 10000 < 2 ^ 64"
    and "\<forall>k\<le>length rs. \<not> trips insp (take k rs)"
    and "trips insp (rs @ [(now, o')])"
  shows "br_state (results1 insp (rs @ [(now, o')]) b) = BREAKER_OPEN"
    and "br_probe_at (results1 insp (rs @ [(now, o')]) b) = now + i_breaker_probe insp"
proof -
  let ?c = "b\<lparr>br_attempts := of_nat (length rs), br_failures := of_nat (failed rs)\<rparr>"
  have c: "results1 insp rs b = ?c"
    using assms by (intro window_counts) simp_all
  have step: "result1 insp now o' ?c = breaker_open insp now
      (?c\<lparr>br_attempts := of_nat (length rs + 1), br_failures := of_nat (failed (rs @ [(now, o')]))\<rparr>)"
    using window_step [of ?c "length rs" "failed rs" now insp "failed (rs @ [(now, o')])" o' "length rs + 1"]
      assms(1,4,5,7) failed_le [of rs]
    by (simp add: trips_def Let_def del: of_nat_add of_nat_Suc)
  show "br_state (results1 insp (rs @ [(now, o')]) b) = BREAKER_OPEN"
    and "br_probe_at (results1 insp (rs @ [(now, o')]) b) = now + i_breaker_probe insp"
    by (simp_all add: results1_append c step breaker_open_def)
qed

subsection \<open>The open state\<close>

datatype bevent = Allow msec | Result msec bool

text \<open>The answers of \<open>breaker_allow\<close> along a sequence of calls and results.\<close>

fun bevents1 :: "inspector \<Rightarrow> bevent list \<Rightarrow> breaker \<Rightarrow> rc list \<times> breaker" where
  "bevents1 insp [] b = ([], b)"
| "bevents1 insp (Allow now # es) b =
     (let (r, b) = allow1 insp now b; (rs, b) = bevents1 insp es b in (r # rs, b))"
| "bevents1 insp (Result now t # es) b = bevents1 insp es (result1 insp now t b)"

fun ev_time :: "bevent \<Rightarrow> msec" where
  "ev_time (Allow now) = now"
| "ev_time (Result now _) = now"

lemma result1_open:
  "br_state b = BREAKER_OPEN \<Longrightarrow>
   br_state (result1 insp now t b) = BREAKER_OPEN \<and> br_probe_at (result1 insp now t b) = br_probe_at b"
  by (simp add: result1_def breaker_decide_def breaker_count_def breaker_roll_def)

lemma open_declines:
  assumes "br_state b = BREAKER_OPEN"
    and "\<forall>e\<in>set es. msec_diff (ev_time e) (br_probe_at b) < 0"
  shows "set (fst (bevents1 insp es b)) \<subseteq> {NGX_DECLINED}
         \<and> br_state (snd (bevents1 insp es b)) = BREAKER_OPEN
         \<and> br_probe_at (snd (bevents1 insp es b)) = br_probe_at b"
  using assms
proof (induction es arbitrary: b)
  case Nil
  then show ?case by simp
next
  case (Cons e es)
  show ?case
  proof (cases e)
    case (Allow now)
    with Cons.prems have "allow1 insp now b = (NGX_DECLINED, b)" by (simp add: allow1_def)
    with Allow Cons show ?thesis by (simp add: split_beta)
  next
    case (Result now t)
    with Cons.prems result1_open [of b insp now t] Cons.IH [of "result1 insp now t b"]
    show ?thesis by simp
  qed
qed

lemma half_declines:
  assumes "br_state b = BREAKER_HALF" and "\<forall>t\<in>set ts. msec_diff t (br_probe_at b) < 0"
  shows "bevents1 insp (map Allow ts) b = (replicate (length ts) NGX_DECLINED, b)"
  using assms by (induction ts) (simp_all add: allow1_def)

subsection \<open>Workers racing for the probe\<close>

text \<open>
  \<open>breaker_allow\<close> of several workers, interleaved at the accesses to shared memory: the read of
  the state and of \<open>probe_at\<close>, the compare-and-set of \<open>probe_at\<close>, and the write of the
  half-open state. Each worker has its own cached clock.
\<close>

datatype race_pc = RIdle | RRead msec | RWon | RGranted | RPassed | RRefused

record race =
  ra_b :: breaker
  ra_pc :: "nat \<Rightarrow> race_pc"

inductive race_step :: "inspector \<Rightarrow> (nat \<Rightarrow> msec) \<Rightarrow> race \<Rightarrow> race \<Rightarrow> bool" for insp clk where
  race_closed: "ra_pc s i = RIdle \<Longrightarrow> br_state (ra_b s) = BREAKER_CLOSED \<Longrightarrow>
     race_step insp clk s (s\<lparr>ra_pc := (ra_pc s)(i := RPassed)\<rparr>)"
| race_read: "ra_pc s i = RIdle \<Longrightarrow> br_state (ra_b s) \<noteq> BREAKER_CLOSED \<Longrightarrow>
     race_step insp clk s (s\<lparr>ra_pc := (ra_pc s)(i := RRead (br_probe_at (ra_b s)))\<rparr>)"
| race_early: "ra_pc s i = RRead p \<Longrightarrow> msec_diff (clk i) p < 0 \<Longrightarrow>
     race_step insp clk s (s\<lparr>ra_pc := (ra_pc s)(i := RRefused)\<rparr>)"
| race_cas: "ra_pc s i = RRead p \<Longrightarrow> msec_diff (clk i) p \<ge> 0 \<Longrightarrow> br_probe_at (ra_b s) = p \<Longrightarrow>
     race_step insp clk s (s\<lparr>ra_b := (ra_b s)\<lparr>br_probe_at := clk i + i_breaker_probe insp\<rparr>,
                            ra_pc := (ra_pc s)(i := RWon)\<rparr>)"
| race_lost: "ra_pc s i = RRead p \<Longrightarrow> msec_diff (clk i) p \<ge> 0 \<Longrightarrow> br_probe_at (ra_b s) \<noteq> p \<Longrightarrow>
     race_step insp clk s (s\<lparr>ra_pc := (ra_pc s)(i := RRefused)\<rparr>)"
| race_half: "ra_pc s i = RWon \<Longrightarrow>
     race_step insp clk s (s\<lparr>ra_b := (ra_b s)\<lparr>br_state := BREAKER_HALF\<rparr>,
                            ra_pc := (ra_pc s)(i := RGranted)\<rparr>)"

definition winner :: "race \<Rightarrow> nat \<Rightarrow> bool" where
  "winner s i \<longleftrightarrow> ra_pc s i \<in> {RWon, RGranted}"

text \<open>Before anybody won the probe, and after worker \<open>k\<close> won it.\<close>

definition race_pre :: "msec \<Rightarrow> race \<Rightarrow> bool" where
  "race_pre p0 s \<longleftrightarrow>
     br_state (ra_b s) \<noteq> BREAKER_CLOSED \<and> br_probe_at (ra_b s) = p0 \<and>
     (\<forall>i. ra_pc s i \<in> {RIdle, RPassed, RRefused, RRead p0})"

definition race_post :: "inspector \<Rightarrow> (nat \<Rightarrow> msec) \<Rightarrow> msec \<Rightarrow> nat \<Rightarrow> race \<Rightarrow> bool" where
  "race_post insp clk p0 k s \<longleftrightarrow>
     br_state (ra_b s) \<noteq> BREAKER_CLOSED \<and> br_probe_at (ra_b s) = clk k + i_breaker_probe insp \<and>
     p0 \<noteq> clk k + i_breaker_probe insp \<and> winner s k \<and>
     (\<forall>i. i \<noteq> k \<longrightarrow> ra_pc s i \<in> {RIdle, RPassed, RRefused, RRead p0, RRead (clk k + i_breaker_probe insp)})"

definition one_period :: "inspector \<Rightarrow> (nat \<Rightarrow> msec) \<Rightarrow> bool" where
  "one_period insp clk \<longleftrightarrow> (\<forall>i j. msec_diff (clk i) (clk j + i_breaker_probe insp) < 0)"

lemma one_periodD: "one_period insp clk \<Longrightarrow> \<not> 0 \<le> msec_diff (clk i) (clk j + i_breaker_probe insp)"
  by (simp add: one_period_def not_le)

lemma race_pre_step:
  assumes "race_step insp clk s t" and "race_pre p0 s" and "one_period insp clk"
  shows "race_pre p0 t \<or> (\<exists>k. race_post insp clk p0 k t)"
proof -
  from assms(2) have pc: "ra_pc s i \<in> {RIdle, RPassed, RRefused, RRead p0}" for i
    by (simp add: race_pre_def)
  from assms(1) show ?thesis
  proof cases
    case (race_cas i p)
    have "p = p0" using race_cas(2) pc [of i] by simp
    then have "p0 \<noteq> clk i + i_breaker_probe insp"
      using race_cas(3) one_periodD [OF assms(3), of i i] by blast
    then have "race_post insp clk p0 i t"
      using race_cas(1) assms(2) pc by (simp add: race_pre_def race_post_def winner_def) blast
    then show ?thesis by blast
  next
    case (race_half i)
    then show ?thesis using pc [of i] by simp
  qed (use assms(2) in \<open>simp_all add: race_pre_def\<close>)
qed

lemma race_post_step:
  assumes "race_step insp clk s t" and post: "race_post insp clk p0 k s" and "one_period insp clk"
  shows "race_post insp clk p0 k t"
proof -
  from post have pc: "i \<noteq> k \<Longrightarrow> ra_pc s i \<in> {RIdle, RPassed, RRefused, RRead p0, RRead (clk k + i_breaker_probe insp)}"
    and k: "ra_pc s k \<in> {RWon, RGranted}" for i
    by (simp_all add: race_post_def winner_def)
  from assms(1) show ?thesis
  proof cases
    case (race_cas i p)
    then have "p = clk k + i_breaker_probe insp" using post by (simp add: race_post_def)
    with race_cas(3) one_periodD [OF assms(3)] show ?thesis by blast
  next
    case (race_half i)
    then have "i = k" using pc [of i] by auto
    then show ?thesis using race_half(1) post by (simp add: race_post_def winner_def)
  next
    case (race_closed i)
    then show ?thesis using post by (simp add: race_post_def)
  next
    case (race_read i)
    then have "i \<noteq> k" using k by auto
    then show ?thesis using race_read post by (simp add: race_post_def winner_def)
  next
    case (race_early i p)
    then have "i \<noteq> k" using k by auto
    then show ?thesis using race_early post by (simp add: race_post_def winner_def)
  next
    case (race_lost i p)
    then have "i \<noteq> k" using k by auto
    then show ?thesis using race_lost post by (simp add: race_post_def winner_def)
  qed
qed

inductive race_run :: "inspector \<Rightarrow> (nat \<Rightarrow> msec) \<Rightarrow> race \<Rightarrow> race \<Rightarrow> bool" for insp clk where
  race_run_refl: "race_run insp clk s s"
| race_run_step: "race_run insp clk s t \<Longrightarrow> race_step insp clk t u \<Longrightarrow> race_run insp clk s u"

lemma race_run_inv:
  assumes "race_run insp clk s t" and "race_pre p0 s" and "one_period insp clk"
  shows "race_pre p0 t \<or> (\<exists>k. race_post insp clk p0 k t)"
  using assms by (induction rule: race_run.induct) (blast dest: race_pre_step race_post_step)+

subsection \<open>Properties\<close>

definition sample_inspector :: inspector where
  "sample_inspector = \<lparr>i_name = [0x69, 0x70], i_subject = [], i_profile = [], i_breaker = True,
     i_breaker_threshold = 5000, i_breaker_window = 10000, i_breaker_probe = 1000\<rparr>"

definition sample_breakers :: "breaker list" where
  "sample_breakers = [\<lparr>br_state = BREAKER_CLOSED, br_epoch = 0, br_attempts = 0, br_failures = 0,
     br_probe_at = 0, br_tag = 7\<rparr>]"

lemma sample_owns: "owns (\<lambda>_. 7) 0 sample_inspector sample_breakers"
  by (simp add: owns_def sample_inspector_def sample_breakers_def)

text \<open>
  C4: In a window that starts with clear counters, a closed breaker opens exactly at the first
  result at which at least 20 results are in, one of them failed, and the failed ones reach the
  configured share of ten thousandths; it is then due for a probe one probe period later. Until
  then it stays closed and counts every result.
\<close>

theorem breaker_window:
  assumes "owns crc index insp bs" and "br_state (bs ! index) = BREAKER_CLOSED"
    and "br_attempts (bs ! index) = 0" and "br_failures (bs ! index) = 0"
    and "\<forall>(t, _)\<in>set (rs @ [(now, timed_out)]). msec_diff t (br_epoch (bs ! index)) < sint (i_breaker_window insp)"
    and "(length rs + 1) * 10000 < 2 ^ 64" and "\<forall>k\<le>length rs. \<not> trips insp (take k rs)"
  shows "\<exists>b. results crc index insp (rs @ [(now, timed_out)]) (Some bs) = Some (bs[index := b])
     \<and> (if trips insp (rs @ [(now, timed_out)])
        then br_state b = BREAKER_OPEN \<and> br_probe_at b = now + i_breaker_probe insp
        else br_state b = BREAKER_CLOSED \<and> br_attempts b = of_nat (length rs + 1)
             \<and> br_failures b = of_nat (failed (rs @ [(now, timed_out)])))"
proof (cases "trips insp (rs @ [(now, timed_out)])")
  case True
  with window_open [OF assms(2-7) True] show ?thesis
    using results_owns [OF assms(1)] by (intro exI [of _ "results1 insp (rs @ [(now, timed_out)]) (bs ! index)"]) simp
next
  case False
  have "\<forall>k\<le>length (rs @ [(now, timed_out)]). \<not> trips insp (take k (rs @ [(now, timed_out)]))"
    using False assms(7) by (auto simp: le_Suc_eq)
  then have "results1 insp (rs @ [(now, timed_out)]) (bs ! index) =
      (bs ! index)\<lparr>br_attempts := of_nat (length (rs @ [(now, timed_out)])),
                   br_failures := of_nat (failed (rs @ [(now, timed_out)]))\<rparr>"
    using assms(2-6) by (intro window_counts) simp_all
  with False assms(2) show ?thesis
    using results_owns [OF assms(1)]
    by (intro exI [of _ "results1 insp (rs @ [(now, timed_out)]) (bs ! index)"]) simp
qed

theorem breaker_window_witness:
  "\<exists>b. results (\<lambda>_. 7) 0 sample_inspector (replicate 19 (100, True) @ [(100, False)]) (Some sample_breakers)
       = Some (sample_breakers[0 := b]) \<and> br_state b = BREAKER_OPEN \<and> br_probe_at b = 1100"
proof -
  have "\<forall>k\<le>length (replicate 19 (100 :: msec, True)). \<not> trips sample_inspector (take k (replicate 19 (100, True)))"
    by (simp add: trips_def)
  from breaker_window [OF sample_owns _ _ _ _ _ this, of 100 False] show ?thesis
    by (simp add: trips_def failed_def sample_breakers_def sample_inspector_def msec_diff_def)
qed

text \<open>
  An open breaker lets nothing through before its probe time: along any sequence of calls and
  late results with clocks before that time, every call is declined and the breaker stays open with
  the same probe time.
\<close>

theorem breaker_open_declines:
  assumes "br_state b = BREAKER_OPEN" and "\<forall>e\<in>set es. msec_diff (ev_time e) (br_probe_at b) < 0"
  shows "set (fst (bevents1 insp es b)) \<subseteq> {NGX_DECLINED}
         \<and> br_state (snd (bevents1 insp es b)) = BREAKER_OPEN
         \<and> br_probe_at (snd (bevents1 insp es b)) = br_probe_at b"
  by (rule open_declines [OF assms])

theorem breaker_open_declines_witness:
  "set (fst (bevents1 sample_inspector [Allow 1500, Result 1600 True, Allow 1999]
      (breaker_open sample_inspector 1000 (sample_breakers ! 0)))) \<subseteq> {NGX_DECLINED}"
  using breaker_open_declines [of "breaker_open sample_inspector 1000 (sample_breakers ! 0)"
      "[Allow 1500, Result 1600 True, Allow 1999]" sample_inspector]
  by (simp add: breaker_open_def sample_inspector_def msec_diff_def)





end
