(* ===== verification/Wave_Graph.thy ===== *)
theory Wave_Graph
  imports Waf_Types
begin

text \<open>
  The inspection graph of a route (\<open>src/module/src/core/ngx_http_waf_graph.c\<close>): how the
  \<open>waf_inspect\<close> lines of a phase become its waves, which action can still reach its addressee,
  and the continuations an inspector keeps between the phases of a request. Outcomes of pool
  allocations are parameters. \<open>NGX_HTTP_WAF_NPHASE\<close> as a result is \<open>None\<close>.
\<close>

subsection \<open>Bindings\<close>

definition binding_find :: "loc_conf \<Rightarrow> nat \<Rightarrow> phase \<Rightarrow> binding option" where
  "binding_find lc index phase = find (\<lambda>b. b_index b = index) (lc_inspects lc phase)"

definition action_deliverable :: "loc_conf \<Rightarrow> nat \<Rightarrow> phase \<Rightarrow> nat \<Rightarrow> bool" where
  "action_deliverable lc to phase wave \<longleftrightarrow>
     (case binding_find lc to phase of Some b \<Rightarrow> b_wave b > wave | None \<Rightarrow> False)
     \<or> list_ex (\<lambda>p. binding_find lc to p \<noteq> None) (phases_after phase)"

definition resume_wanted :: "loc_conf \<Rightarrow> nat \<Rightarrow> phase \<Rightarrow> bool" where
  "resume_wanted lc index phase \<longleftrightarrow>
     (if phase \<noteq> PH_REQUEST then False
      else case binding_find lc index phase of Some b \<Rightarrow> b_keep b | None \<Rightarrow> False)"

definition resume_phase :: "loc_conf \<Rightarrow> nat \<Rightarrow> phase \<Rightarrow> phase option" where
  "resume_phase lc index phase =
     find (\<lambda>later. case binding_find lc index later of
                     Some b \<Rightarrow> b_resume b \<noteq> RESUME_OFF | None \<Rightarrow> False)
       (phases_after phase)"

subsection \<open>Checks of the configuration\<close>

definition kept_is_resumed :: "loc_conf \<Rightarrow> binding \<Rightarrow> bool" where
  "kept_is_resumed lc b \<longleftrightarrow> \<not> b_keep b \<or> resume_phase lc (b_index b) PH_REQUEST \<noteq> None"

definition resumed_is_kept :: "loc_conf \<Rightarrow> binding \<Rightarrow> bool" where
  "resumed_is_kept lc b \<longleftrightarrow>
     b_resume b = RESUME_OFF
     \<or> (case binding_find lc (b_index b) PH_REQUEST of Some rb \<Rightarrow> b_keep rb | None \<Rightarrow> False)"

definition check_resume_pairs :: "main_conf \<Rightarrow> rc" where
  "check_resume_pairs mc =
     (if list_all (\<lambda>lc. lc_has_children lc \<or> \<not> lc_enable lc
           \<or> (list_all (kept_is_resumed lc) (lc_inspects lc PH_REQUEST)
              \<and> list_all (\<lambda>p. list_all (resumed_is_kept lc) (lc_inspects lc p))
                   (phases_after PH_REQUEST)))
         (mc_loc_confs mc)
      then NGX_OK else NGX_ERROR)"

text \<open>The routes and phases the loop warns about; the check itself never fails.\<close>

definition check_send_routes :: "main_conf \<Rightarrow> rc \<times> (bytes \<times> phase) list" where
  "check_send_routes mc =
     (NGX_OK,
      concat (map (\<lambda>lc.
        if lc_has_children lc \<or> \<not> lc_enable lc then []
        else map (\<lambda>p. (lc_name lc, p))
               (filter (\<lambda>p. lc_inspects lc p \<noteq> []
                    \<and> sh_capture (lc_shoot lc p) AND obj_bit OBJ_BODY \<noteq> 0
                    \<and> sh_capture_limit (lc_shoot lc p) OBJ_BODY \<noteq> CAPTURE_LIMIT_WHOLE
                    \<and> lc_send lc p OBJ_BODY = SEND_STORE)
                 all_phases))
        (mc_loc_confs mc)))"

subsection \<open>Continuations\<close>

definition resume_subject :: "loc_conf \<Rightarrow> msec \<Rightarrow> ctx \<Rightarrow> nat \<Rightarrow> bytes option" where
  "resume_subject lc now c index =
     (case c_cont c of
        None \<Rightarrow> None
      | Some cont \<Rightarrow>
          if k_subject (cont ! index) = [] then None
          else case binding_find lc index (c_phase c) of
            None \<Rightarrow> None
          | Some b \<Rightarrow>
              if b_resume b = RESUME_OFF then None
              else if msec_diff now (k_expires (cont ! index)) \<ge> 0 then None
              else Some (k_subject (cont ! index)))"

definition resume_ask :: "bool \<Rightarrow> nat \<Rightarrow> ctx \<Rightarrow> rc \<times> ctx" where
  "resume_ask cln_ok index c =
     (if c_resume_asked c AND bit64 index \<noteq> 0 then (NGX_OK, c)
      else if c_resume_asked c = 0 \<and> \<not> cln_ok then (NGX_ERROR, c)
      else (NGX_OK, c\<lparr>c_resume_asked := c_resume_asked c OR bit64 index\<rparr>))"

definition resume_forget :: "nat \<Rightarrow> ctx \<Rightarrow> ctx" where
  "resume_forget index c =
     (let c = c\<lparr>c_resume_asked := c_resume_asked c AND NOT (bit64 index)\<rparr> in
      case c_cont c of
        None \<Rightarrow> c
      | Some cont \<Rightarrow> c\<lparr>c_cont := Some (cont[index := (cont ! index)\<lparr>k_subject := []\<rparr>])\<rparr>)"

text \<open>\<open>calloc_ok\<close> and \<open>alloc_ok\<close> are the outcomes of the two pool allocations.\<close>

definition cont0 :: cont where
  "cont0 = \<lparr>k_subject = [], k_size = 0, k_expires = 0\<rparr>"

definition resume_keep ::
  "bool \<Rightarrow> bool \<Rightarrow> main_conf \<Rightarrow> msec \<Rightarrow> nat \<Rightarrow> bytes \<Rightarrow> msec \<Rightarrow> ctx \<Rightarrow> rc \<times> ctx" where
  "resume_keep calloc_ok alloc_ok mc now index subject ttl c =
     (if c_cont c = None \<and> \<not> calloc_ok then (NGX_ERROR, c)
      else
        let cont = (case c_cont c of
                      None \<Rightarrow> replicate (length (mc_inspectors mc)) cont0
                    | Some cont \<Rightarrow> cont);
            c = c\<lparr>c_cont := Some cont\<rparr>;
            k = cont ! index
        in if length subject > k_size k \<and> \<not> alloc_ok then (NGX_ERROR, c)
           else (NGX_OK,
                 c\<lparr>c_cont := Some (cont[index :=
                     \<lparr>k_subject = subject, k_size = max (k_size k) (length subject),
                      k_expires = now + ttl\<rparr>])\<rparr>))"

subsection \<open>Waves\<close>

definition wave_new :: "shoot_conf \<Rightarrow> bool \<Rightarrow> wave" where
  "wave_new sh first =
     \<lparr>w_passive = 0, w_vote = 0, w_all = 0, w_off = 0,
      w_body_need =
        (if first \<and> sh_capture sh AND obj_bit OBJ_BODY \<noteq> 0
         then (if sh_capture_limit sh OBJ_BODY = CAPTURE_LIMIT_WHOLE then BODY_FULL
               else BODY_PREVIEW)
         else BODY_NONE),
      w_obj_need = sh_capture sh\<rparr>"

definition wave_add :: "binding \<Rightarrow> wave \<Rightarrow> wave" where
  "wave_add b w =
     (let bit = bit64 (b_index b);
          w = w\<lparr>w_all := w_all w OR bit\<rparr>
      in case b_mode b of
           MODE_OFF \<Rightarrow> w\<lparr>w_off := w_off w OR bit\<rparr>
         | MODE_PASSIVE \<Rightarrow> w\<lparr>w_passive := w_passive w OR bit\<rparr>
         | MODE_VOTE \<Rightarrow> w\<lparr>w_vote := w_vote w OR bit\<rparr>
         | MODE_ACTIVE \<Rightarrow> w)"

text \<open>
  The inner loop: one wave number over all bindings. The wave is pushed (\<open>push_ok\<close>) when its
  first binding is found, and \<open>first\<close> is cleared then.
\<close>

fun wave_scan ::
  "bool \<Rightarrow> shoot_conf \<Rightarrow> phase \<Rightarrow> nat \<Rightarrow> bool \<Rightarrow> wave option \<Rightarrow> binding list
   \<Rightarrow> (bool \<times> wave option) option" where
  "wave_scan push_ok sh phase wave first w [] = Some (first, w)"
| "wave_scan push_ok sh phase wave first w (b # bs) =
     (if b_phase b \<noteq> phase \<or> b_wave b \<noteq> wave then wave_scan push_ok sh phase wave first w bs
      else case w of
        Some v \<Rightarrow> wave_scan push_ok sh phase wave first (Some (wave_add b v)) bs
      | None \<Rightarrow>
          if \<not> push_ok then None
          else wave_scan push_ok sh phase wave False (Some (wave_add b (wave_new sh first))) bs)"

fun waves_loop ::
  "(nat \<Rightarrow> bool) \<Rightarrow> shoot_conf \<Rightarrow> phase \<Rightarrow> binding list \<Rightarrow> bool \<Rightarrow> wave list \<Rightarrow> nat list
   \<Rightarrow> wave list option" where
  "waves_loop push_ok sh phase bs first waves [] = Some waves"
| "waves_loop push_ok sh phase bs first waves (wave # rest) =
     (case wave_scan (push_ok (length waves)) sh phase wave first None bs of
        None \<Rightarrow> None
      | Some (first, None) \<Rightarrow> waves_loop push_ok sh phase bs first waves rest
      | Some (first, Some w) \<Rightarrow> waves_loop push_ok sh phase bs first (waves @ [w]) rest)"

definition waves_build ::
  "bool \<Rightarrow> (nat \<Rightarrow> bool) \<Rightarrow> main_conf \<Rightarrow> loc_conf \<Rightarrow> phase \<Rightarrow> wave list option \<times> loc_conf" where
  "waves_build create_ok push_ok mc lc phase =
     (let profiles = map i_profile (mc_inspectors mc);
          lc' = lc\<lparr>lc_profiles := profiles @ drop (length profiles) (lc_profiles lc)\<rparr>
      in if \<not> create_ok then (None, lc')
         else if lc_inspects lc phase = [] then (Some [], lc')
         else (waves_loop push_ok (lc_shoot lc phase) phase (lc_inspects lc phase) True []
                 [0..<MAX_WAVE + 1], lc'))"

subsection \<open>The waves, declaratively\<close>

definition in_wave :: "phase \<Rightarrow> nat \<Rightarrow> binding \<Rightarrow> bool" where
  "in_wave phase n b \<longleftrightarrow> b_phase b = phase \<and> b_wave b = n"

definition wave_of :: "shoot_conf \<Rightarrow> bool \<Rightarrow> binding list \<Rightarrow> wave" where
  "wave_of sh first bs = fold wave_add bs (wave_new sh first)"

lemma wave_scan_Some:
  "wave_scan True sh phase n first (Some w) bs = Some (first, Some (fold wave_add (filter (in_wave phase n) bs) w))"
  by (induction bs arbitrary: w) (auto simp: in_wave_def)

lemma wave_scan_None:
  "wave_scan True sh phase n first None bs =
     (let us = filter (in_wave phase n) bs
      in if us = [] then Some (first, None) else Some (False, Some (wave_of sh first us)))"
  by (induction bs) (auto simp: in_wave_def [abs_def] wave_scan_Some wave_of_def Let_def)

lemma waves_loop_eq:
  "waves_loop (\<lambda>_. True) sh phase bs first ws ns =
     (let ms = filter (\<lambda>n. list_ex (in_wave phase n) bs) ns
      in Some (ws @ map (\<lambda>k. wave_of sh (first \<and> k = 0) (filter (in_wave phase (ms ! k)) bs))
                     [0..<length ms]))"
proof (induction ns arbitrary: first ws)
  case Nil
  then show ?case by simp
next
  case (Cons n ns)
  let ?ms = "filter (\<lambda>n. list_ex (in_wave phase n) bs) ns"
  show ?case
  proof (cases "filter (in_wave phase n) bs = []")
    case True
    then have "\<not> list_ex (in_wave phase n) bs" by (auto simp: filter_empty_conv list_ex_iff)
    then show ?thesis using True Cons.IH by (simp add: wave_scan_None Let_def)
  next
    case False
    then have ex: "list_ex (in_wave phase n) bs" by (auto simp: filter_empty_conv list_ex_iff)
    have "[0..<Suc (length ?ms)] = 0 # map Suc [0..<length ?ms]"
      by (simp add: upt_conv_Cons map_Suc_upt del: upt_Suc)
    then show ?thesis using False ex Cons.IH [of False "ws @ [wave_of sh first (filter (in_wave phase n) bs)]"]
      by (simp add: wave_scan_None Let_def del: upt_Suc)
  qed
qed

lemma fold_wave_add_masks:
  "bit (w_all (fold wave_add bs w)) i \<longleftrightarrow> bit (w_all w) i \<or> i < 64 \<and> (\<exists>b\<in>set bs. b_index b = i)"
  "bit (w_off (fold wave_add bs w)) i \<longleftrightarrow>
     bit (w_off w) i \<or> i < 64 \<and> (\<exists>b\<in>set bs. b_index b = i \<and> b_mode b = MODE_OFF)"
  "bit (w_passive (fold wave_add bs w)) i \<longleftrightarrow>
     bit (w_passive w) i \<or> i < 64 \<and> (\<exists>b\<in>set bs. b_index b = i \<and> b_mode b = MODE_PASSIVE)"
  "bit (w_vote (fold wave_add bs w)) i \<longleftrightarrow>
     bit (w_vote w) i \<or> i < 64 \<and> (\<exists>b\<in>set bs. b_index b = i \<and> b_mode b = MODE_VOTE)"
  "w_body_need (fold wave_add bs w) = w_body_need w"
  "w_obj_need (fold wave_add bs w) = w_obj_need w"
  by (induction bs arbitrary: w)
     (auto simp: wave_add_def Let_def bit_or_iff split: imode.splits)

lemma wave_of_masks:
  "bit (w_all (wave_of sh f bs)) i \<longleftrightarrow> i < 64 \<and> (\<exists>b\<in>set bs. b_index b = i)"
  "bit (w_off (wave_of sh f bs)) i \<longleftrightarrow> i < 64 \<and> (\<exists>b\<in>set bs. b_index b = i \<and> b_mode b = MODE_OFF)"
  "bit (w_passive (wave_of sh f bs)) i \<longleftrightarrow>
     i < 64 \<and> (\<exists>b\<in>set bs. b_index b = i \<and> b_mode b = MODE_PASSIVE)"
  "bit (w_vote (wave_of sh f bs)) i \<longleftrightarrow> i < 64 \<and> (\<exists>b\<in>set bs. b_index b = i \<and> b_mode b = MODE_VOTE)"
  "w_body_need (wave_of sh f bs) = w_body_need (wave_new sh f)"
  "w_obj_need (wave_of sh f bs) = sh_capture sh"
  by (simp_all add: wave_of_def fold_wave_add_masks) (simp_all add: wave_new_def)

lemma binding_find_Some:
  "binding_find lc index phase = Some b \<Longrightarrow> b \<in> set (lc_inspects lc phase) \<and> b_index b = index"
  by (auto simp: binding_find_def find_Some_iff)

lemma binding_find_None:
  "binding_find lc index phase = None \<longleftrightarrow> (\<forall>b\<in>set (lc_inspects lc phase). b_index b \<noteq> index)"
  by (auto simp: binding_find_def find_None_iff)

lemma binding_find_distinct:
  assumes "distinct (map b_index (lc_inspects lc phase))" and "b \<in> set (lc_inspects lc phase)"
  shows "binding_find lc (b_index b) phase = Some b"
proof (cases "binding_find lc (b_index b) phase")
  case None
  then show ?thesis using assms(2) by (auto simp: binding_find_None)
next
  case (Some b')
  then have "b' \<in> set (lc_inspects lc phase)" "b_index b' = b_index b"
    using binding_find_Some by blast+
  then have "b' = b" using assms by (auto simp: distinct_map inj_on_def)
  then show ?thesis using Some by simp
qed

lemma resume_phase_Some:
  "resume_phase lc index p = Some q \<Longrightarrow>
   phase_num p < phase_num q \<and> (\<exists>b. binding_find lc index q = Some b \<and> b_resume b \<noteq> RESUME_OFF)"
  by (auto simp: resume_phase_def find_Some_iff split: option.splits
      dest: nth_mem simp flip: set_phases_after)

lemma resume_subject_after_keep:
  assumes "resume_keep a1 a2 mc now index subject ttl c = (NGX_OK, c')"
    and "case c_cont c of None \<Rightarrow> index < length (mc_inspectors mc) | Some cont \<Rightarrow> index < length cont"
  shows "\<exists>cont. c_cont c' = Some cont \<and> k_subject (cont ! index) = subject
           \<and> k_expires (cont ! index) = now + ttl
           \<and> c_phase c' = c_phase c"
  using assms by (auto simp: resume_keep_def Let_def split: if_splits option.splits)

subsection \<open>Properties\<close>

text \<open>
  C7: The waves of a phase are exactly its \<open>waf_inspect\<close> lines grouped by their wave number, in
  ascending order of the number and without empty waves: the masks of the k-th wave hold the
  inspectors of the k-th number in use, in the mode their line gives, every wave needs the captured
  objects, and only the first one reads the body.
\<close>

theorem waves_build_groups:
  assumes "\<forall>b\<in>set (lc_inspects lc phase). b_phase b = phase \<and> b_index b < 64 \<and> b_wave b \<le> 64"
  shows "\<exists>ws ns. fst (waves_build True (\<lambda>_. True) mc lc phase) = Some ws
     \<and> sorted_wrt (<) ns \<and> set ns = b_wave ` set (lc_inspects lc phase) \<and> length ws = length ns
     \<and> (\<forall>k<length ns. let bs = filter (\<lambda>b. b_wave b = ns ! k) (lc_inspects lc phase); w = ws ! k in
          (\<forall>i. (bit (w_all w) i \<longleftrightarrow> (\<exists>b\<in>set bs. b_index b = i))
             \<and> (bit (w_off w) i \<longleftrightarrow> (\<exists>b\<in>set bs. b_index b = i \<and> b_mode b = MODE_OFF))
             \<and> (bit (w_passive w) i \<longleftrightarrow> (\<exists>b\<in>set bs. b_index b = i \<and> b_mode b = MODE_PASSIVE))
             \<and> (bit (w_vote w) i \<longleftrightarrow> (\<exists>b\<in>set bs. b_index b = i \<and> b_mode b = MODE_VOTE)))
          \<and> w_all w \<noteq> 0
          \<and> w_obj_need w = sh_capture (lc_shoot lc phase)
          \<and> (0 < k \<longrightarrow> w_body_need w = BODY_NONE))"
proof -
  let ?bs = "lc_inspects lc phase" and ?sh = "lc_shoot lc phase"
  define ns where "ns = filter (\<lambda>n. list_ex (in_wave phase n) ?bs) [0..<65]"
  define ws where
    "ws = map (\<lambda>k. wave_of ?sh (k = 0) (filter (in_wave phase (ns ! k)) ?bs)) [0..<length ns]"
  have "fst (waves_build True (\<lambda>_. True) mc lc phase) = Some ws"
  proof (cases "?bs = []")
    case True
    then show ?thesis by (simp add: waves_build_def Let_def ws_def ns_def)
  next
    case False
    then show ?thesis
      using waves_loop_eq [of ?sh phase ?bs True "[]" "[0..<65]"]
      by (simp add: waves_build_def Let_def ws_def ns_def del: upt_Suc)
  qed
  moreover have "sorted_wrt (<) ns" by (simp add: ns_def sorted_wrt_filter)
  moreover have "set ns = b_wave ` set ?bs"
    using assms by (auto simp: ns_def list_ex_iff in_wave_def less_Suc_eq_le simp del: upt_Suc)
  moreover have "length ws = length ns" by (simp add: ws_def)
  moreover have in_wave: "filter (in_wave phase n) ?bs = filter (\<lambda>b. b_wave b = n) ?bs" for n
    using assms by (intro filter_cong) (auto simp: in_wave_def)
  moreover have "w_all (ws ! k) \<noteq> 0" if k: "k < length ns" for k
  proof -
    have "ns ! k \<in> set ns" using k by simp
    with \<open>set ns = _\<close> obtain b where b: "b \<in> set ?bs" "b_wave b = ns ! k" by auto
    then have "bit (w_all (ws ! k)) (b_index b)"
      using k assms by (auto simp: ws_def wave_of_masks in_wave)
    then show ?thesis by auto
  qed
  ultimately show ?thesis
    using assms
    by (intro exI [of _ ws] exI [of _ ns])
       (auto simp: Let_def ws_def wave_of_masks wave_new_def)
qed

definition sample_binding :: "nat \<Rightarrow> nat \<Rightarrow> imode \<Rightarrow> phase \<Rightarrow> binding" where
  "sample_binding index wave mode phase =
     \<lparr>b_name = [], b_index = index, b_wave = wave, b_timeout = 0, b_mode = mode, b_phase = phase,
      b_resume = (if phase = PH_REQUEST then RESUME_OFF else RESUME_PREFER), b_keep = True\<rparr>"

definition sample_conf :: loc_conf where
  "sample_conf =
     \<lparr>lc_enable = True, lc_name = [0x2f], lc_has_children = False,
      lc_inspects = (\<lambda>p. case p of
           PH_REQUEST \<Rightarrow> [sample_binding 0 5 MODE_ACTIVE p, sample_binding 1 2 MODE_PASSIVE p,
                          sample_binding 2 2 MODE_VOTE p]
         | PH_RESPONSE \<Rightarrow> map (\<lambda>i. sample_binding i 0 MODE_ACTIVE p) [0, 1, 2] | _ \<Rightarrow> []),
      lc_waves = (\<lambda>_. []), lc_deadline = (\<lambda>_. 500), lc_exception = (\<lambda>_ _. POLICY_BLOCK),
      lc_exception_response = (\<lambda>_ _. []), lc_deny_mode = (\<lambda>_. DENY_FAST), lc_score_deny = (\<lambda>_. 100),
      lc_actions_max = 4, lc_shoot = (\<lambda>_. \<lparr>sh_capture = 7, sh_capture_limit = (\<lambda>_. 0)\<rparr>),
      lc_send = (\<lambda>_ _. SEND_ORIGINAL), lc_profiles = replicate 64 [],
      lc_require_upgrade = False, lc_require_upgrade_response = []\<rparr>"

definition sample_main :: main_conf where
  "sample_main =
     \<lparr>mc_inspectors = replicate 3 \<lparr>i_name = [0x61], i_subject = [0x73], i_profile = [],
        i_breaker = False, i_breaker_threshold = 0, i_breaker_window = 0, i_breaker_probe = 0\<rparr>,
      mc_loc_confs = [sample_conf]\<rparr>"

theorem waves_build_groups_witness:
  "\<exists>ws ns. fst (waves_build True (\<lambda>_. True) sample_main sample_conf PH_REQUEST) = Some ws
     \<and> sorted_wrt (<) ns \<and> set ns = {2, 5 :: nat} \<and> length ws = length ns"
proof -
  have b: "\<forall>b\<in>set (lc_inspects sample_conf PH_REQUEST).
      b_phase b = PH_REQUEST \<and> b_index b < 64 \<and> b_wave b \<le> 64"
    by (simp add: sample_conf_def sample_binding_def)
  have w: "b_wave ` set (lc_inspects sample_conf PH_REQUEST) = {2, 5}"
    by (auto simp: sample_conf_def sample_binding_def)
  note g = waves_build_groups [of sample_conf PH_REQUEST sample_main, OF b]
  from g show ?thesis unfolding w by (elim exE conjE) blast
qed

text \<open>
  C8: An action addressed to an inspector can be delivered exactly when that inspector is still to
  be called after the sender: in a later wave of the same phase or anywhere in a later phase.
\<close>

theorem action_deliverable_iff:
  assumes "\<forall>p. distinct (map b_index (lc_inspects lc p))"
  shows "action_deliverable lc to phase wave \<longleftrightarrow>
     (\<exists>p. \<exists>b\<in>set (lc_inspects lc p). b_index b = to
        \<and> (phase_num phase < phase_num p \<or> p = phase \<and> wave < b_wave b))"
proof -
  have find: "(\<exists>b. binding_find lc to p = Some b \<and> P b)
      \<longleftrightarrow> (\<exists>b\<in>set (lc_inspects lc p). b_index b = to \<and> P b)" for p P
    using assms binding_find_Some binding_find_distinct by metis
  have "action_deliverable lc to phase wave \<longleftrightarrow>
      (\<exists>b. binding_find lc to phase = Some b \<and> wave < b_wave b)
      \<or> (\<exists>p. phase_num phase < phase_num p \<and> (\<exists>b. binding_find lc to p = Some b \<and> True))"
    by (auto simp: action_deliverable_def list_ex_iff split: option.splits)
  then show ?thesis unfolding find by blast
qed

theorem action_deliverable_iff_witness:
  "action_deliverable sample_conf 0 PH_REQUEST 2 \<and> action_deliverable sample_conf 1 PH_REQUEST 9
   \<and> \<not> action_deliverable sample_conf 1 PH_RESPONSE 0"
proof -
  have d: "distinct (map b_index (lc_inspects sample_conf p))" for p
    by (cases p) (auto simp: sample_conf_def sample_binding_def)
  from d have "action_deliverable sample_conf to phase wave \<longleftrightarrow>
     (\<exists>p. \<exists>b\<in>set (lc_inspects sample_conf p). b_index b = to
        \<and> (phase_num phase < phase_num p \<or> p = phase \<and> wave < b_wave b))" for to phase wave
    by (intro action_deliverable_iff) blast
  note iff = this
  have "action_deliverable sample_conf 0 PH_REQUEST 2"
    unfolding iff by (intro exI [of _ PH_REQUEST]) (simp add: sample_conf_def sample_binding_def)
  moreover have "action_deliverable sample_conf 1 PH_REQUEST 9"
    unfolding iff by (intro exI [of _ PH_RESPONSE]) (simp add: sample_conf_def sample_binding_def)
  moreover have "\<not> action_deliverable sample_conf 1 PH_RESPONSE 0"
    unfolding iff
  proof
    assume "\<exists>p. \<exists>b\<in>set (lc_inspects sample_conf p). b_index b = 1
        \<and> (phase_num PH_RESPONSE < phase_num p \<or> p = PH_RESPONSE \<and> 0 < b_wave b)"
    then obtain p b where "b \<in> set (lc_inspects sample_conf p)"
      "phase_num PH_RESPONSE < phase_num p \<or> p = PH_RESPONSE \<and> 0 < b_wave b" by blast
    then show False by (cases p) (auto simp: sample_conf_def sample_binding_def)
  qed
  ultimately show ?thesis by simp
qed



end
