(* ===== verification/Verdict.thy ===== *)
theory Verdict
  imports Wave_Graph
begin

text \<open>
  What the answers of a phase add up to (\<open>src/module/src/runtime/ngx_http_waf_verdict.c\<close>): the
  names of the protocol, the score, the actions, sessions and markers an answer leaves on the
  request, the modes of the inspectors of a wave under the control actions, and the verdict.

  Scores are mathematical integers: the property \<open>score_bounds\<close> below keeps them far from
  the range of \<open>ngx_int_t\<close>. The flags \<open>score_warned\<close>, \<open>control_warned\<close> and
  \<open>audit_ovr_warned\<close>, which only keep a log line from repeating, are left out.
\<close>

subsection \<open>Names\<close>

fun verdict_name :: "verdict \<Rightarrow> bytes" where
  "verdict_name V_ALLOW = ascii ''allow''"
| "verdict_name V_SCORE = ascii ''score''"
| "verdict_name V_REDIRECT = ascii ''redirect''"
| "verdict_name V_DENY = ascii ''deny''"
| "verdict_name V_ERROR = ascii ''error''"

fun phase_name :: "phase \<Rightarrow> bytes" where
  "phase_name PH_REQUEST = ascii ''request''"
| "phase_name PH_RESPONSE = ascii ''response''"
| "phase_name PH_FRAME_C2S = ascii ''frame''"
| "phase_name PH_FRAME_S2C = ascii ''frame''"

definition to_phase_name :: "u64 \<Rightarrow> bytes" where
  "to_phase_name phases =
     (if phases = ph_bit PH_REQUEST then phase_name PH_REQUEST
      else if phases = ph_bit PH_RESPONSE then phase_name PH_RESPONSE
      else ascii ''frame'')"

fun do_name :: "verb \<Rightarrow> bytes" where
  "do_name DO_CHALLENGE = ascii ''challenge''"
| "do_name DO_THRESHOLD = ascii ''threshold''"
| "do_name DO_SKIP = ascii ''skip''"
| "do_name DO_REAUTH = ascii ''reauth''"
| "do_name DO_NOTE = ascii ''note''"
| "do_name DO_MUTATE = ascii ''mutate''"
| "do_name DO_ACTIVE = ascii ''active''"
| "do_name DO_PASSIVE = ascii ''passive''"
| "do_name DO_OFF = ascii ''off''"
| "do_name DO_VOTE = ascii ''vote''"
| "do_name DO_AUDIT = ascii ''audit''"
| "do_name DO_ARCHIVE = ascii ''archive''"
| "do_name DO_MARK = ascii ''mark''"
| "do_name DO_SCORE = ascii ''score''"

fun apply_name :: "apply_axis \<Rightarrow> bytes" where
  "apply_name APPLY_REQUEST = ascii ''request''"
| "apply_name APPLY_IP = ascii ''ip''"
| "apply_name APPLY_ASN = ascii ''asn''"
| "apply_name APPLY_SESSION = ascii ''session''"
| "apply_name APPLY_CONN = ascii ''conn''"
| "apply_name APPLY_RESPONSE = ascii ''response''"

fun code_name :: "code \<Rightarrow> bytes" where
  "code_name CODE_NONE = []"
| "code_name CODE_LOCAL_LIST = ascii ''local_list''"
| "code_name CODE_LOCAL_RATE = ascii ''local_rate''"
| "code_name CODE_INSPECTOR = ascii ''inspector''"
| "code_name CODE_SCORE = ascii ''score''"
| "code_name CODE_FAIL_TIMEOUT = ascii ''fail_timeout''"
| "code_name CODE_FAIL_ABSENT = ascii ''fail_absent''"
| "code_name CODE_FAIL_BUS = ascii ''fail_bus''"
| "code_name CODE_FAIL_BODY = ascii ''fail_body''"
| "code_name CODE_FAIL_INSPECTOR = ascii ''fail_inspector''"
| "code_name CODE_FAIL_OVERLOAD = ascii ''fail_overload''"
| "code_name CODE_LOCAL_UPGRADE = ascii ''local_upgrade''"

fun exc_of :: "code \<Rightarrow> exc" where
  "exc_of CODE_FAIL_ABSENT = EXC_ABSENT"
| "exc_of CODE_FAIL_BUS = EXC_BUS"
| "exc_of CODE_FAIL_BODY = EXC_BODY"
| "exc_of CODE_FAIL_INSPECTOR = EXC_INSPECTOR"
| "exc_of CODE_FAIL_OVERLOAD = EXC_OVERLOAD"
| "exc_of _ = EXC_TIMEOUT"

fun exc_name :: "exc \<Rightarrow> bytes" where
  "exc_name EXC_TIMEOUT = ascii ''timeout''"
| "exc_name EXC_ABSENT = ascii ''absent''"
| "exc_name EXC_BUS = ascii ''bus''"
| "exc_name EXC_BODY = ascii ''body''"
| "exc_name EXC_INSPECTOR = ascii ''inspector''"
| "exc_name EXC_OVERLOAD = ascii ''overload''"

fun deny_scope_name :: "scope \<Rightarrow> bytes" where
  "deny_scope_name SCOPE_NONE = []"
| "deny_scope_name SCOPE_ADDRESS = ascii ''address''"
| "deny_scope_name SCOPE_NETWORK = ascii ''network''"
| "deny_scope_name SCOPE_COUNTRY = ascii ''country''"
| "deny_scope_name SCOPE_ASN = ascii ''asn''"
| "deny_scope_name SCOPE_SESSION = ascii ''session''"
| "deny_scope_name SCOPE_REQUEST = ascii ''request''"

definition deny_scope_parse :: "bytes \<Rightarrow> scope" where
  "deny_scope_parse word =
     (case find (\<lambda>s. word = deny_scope_name s)
             [SCOPE_ADDRESS, SCOPE_NETWORK, SCOPE_COUNTRY, SCOPE_ASN, SCOPE_SESSION, SCOPE_REQUEST]
      of Some s \<Rightarrow> s | None \<Rightarrow> SCOPE_NONE)"

fun entry_state_name :: "entry_state \<Rightarrow> bytes" where
  "entry_state_name ENTRY_ANSWERED = []"
| "entry_state_name ENTRY_TIMEOUT = ascii ''timeout''"
| "entry_state_name ENTRY_ABSENT = ascii ''absent''"
| "entry_state_name ENTRY_SKIPPED = ascii ''skipped''"
| "entry_state_name ENTRY_OFF = ascii ''off''"

subsection \<open>The stored answers\<close>

definition reply_at :: "ctx \<Rightarrow> nat \<Rightarrow> reply" where
  "reply_at c index = the (p_replies (ph c)) ! index"

definition upd_reply :: "nat \<Rightarrow> (reply \<Rightarrow> reply) \<Rightarrow> ctx \<Rightarrow> ctx" where
  "upd_reply index f c =
     upd_ph (p_replies_update (map_option (\<lambda>rs. rs[index := f (rs ! index)]))) c"

subsection \<open>The score\<close>

definition score_deny_at :: "loc_conf \<Rightarrow> ctx \<Rightarrow> int" where
  "score_deny_at lc c = lc_score_deny lc (c_phase c)"

definition account_score :: "nat \<Rightarrow> ctx \<Rightarrow> ctx" where
  "account_score index c =
     (let r = reply_at c index in
      if r_score r \<le> 0 then c
      else if r_passive r then upd_ph (p_shadow_update (\<lambda>s. s + r_score r)) c
      else upd_ph (p_score_update (\<lambda>s. s + r_score r)) c)"

definition account :: "nat \<Rightarrow> ctx \<Rightarrow> ctx" where
  "account index c =
     (let c = upd_ph (p_order_update Suc) c;
          c = upd_reply index (r_order_update (\<lambda>_. p_order (ph c))) c;
          r = reply_at c index
      in if r_verdict r = V_REDIRECT \<and> c_phase c \<noteq> PH_REQUEST
         then upd_reply index (r_verdict_update (\<lambda>_. V_ALLOW)) c
         else if r_vote r \<and> r_verdict r = V_DENY
         then account_score index (upd_reply index (r_score_update (\<lambda>_. SCORE_MAX)) c)
         else if r_verdict r \<noteq> V_SCORE then c
         else account_score index c)"

definition score_apply :: "main_conf \<Rightarrow> action \<Rightarrow> ctx \<Rightarrow> rc \<times> ctx" where
  "score_apply mc a c =
     (if a_passive a then (NGX_DECLINED, c)
      else if p_replies (ph c) = None \<or> a_from a \<ge> length (mc_inspectors mc) then (NGX_DECLINED, c)
      else
        let was = r_score (reply_at c (a_from a));
            now = was + a_value a;
            now = (if now > SCORE_MAX then SCORE_MAX
                   else if now < - SCORE_MAX then - SCORE_MAX else now);
            applied = now - was;
            applied = (if p_score (ph c) + applied < 0 then - p_score (ph c) else applied);
            c = upd_reply (a_from a) (r_score_update (\<lambda>_. was + applied)) c
        in (NGX_OK, upd_ph (p_score_update (\<lambda>s. s + applied)) c))"

subsection \<open>Markers, audit overrides and control\<close>

text \<open>
  The three arrays of the request that grow with the answers. \<open>alloc k n\<close> is the outcome of the
  allocation that pushing onto array \<open>k\<close> with \<open>n\<close> elements makes; for \<open>n = 0\<close> it is the
  creation of the array.
\<close>

datatype grown = ARR_ACTIONS | ARR_MARKERS | ARR_SESSIONS

type_synonym alloc = "grown \<Rightarrow> nat \<Rightarrow> bool"

definition markers_add :: "alloc \<Rightarrow> action \<Rightarrow> ctx \<Rightarrow> rc \<times> ctx" where
  "markers_add alloc a c =
     (if a_marker a = [] then (NGX_DECLINED, c)
      else if c_markers c = [] \<and> \<not> alloc ARR_MARKERS 0 then (NGX_ERROR, c)
      else if a_marker a \<in> set (c_markers c) then (NGX_OK, c)
      else if length (c_markers c) \<ge> MARKERS_MAX then (NGX_DECLINED, c)
      else if \<not> alloc ARR_MARKERS (length (c_markers c)) then (NGX_ERROR, c)
      else (NGX_OK, c\<lparr>c_markers := c_markers c @ [a_marker a]\<rparr>))"

definition control_set :: "verb \<Rightarrow> mask \<Rightarrow> control \<Rightarrow> control" where
  "control_set v b ctl =
     (let ctl = \<lparr>ctl_active = ctl_active ctl AND NOT b, ctl_passive = ctl_passive ctl AND NOT b,
                 ctl_off = ctl_off ctl AND NOT b, ctl_vote = ctl_vote ctl AND NOT b\<rparr>
      in case v of
           DO_ACTIVE \<Rightarrow> ctl\<lparr>ctl_active := ctl_active ctl OR b\<rparr>
         | DO_PASSIVE \<Rightarrow> ctl\<lparr>ctl_passive := ctl_passive ctl OR b\<rparr>
         | DO_OFF \<Rightarrow> ctl\<lparr>ctl_off := ctl_off ctl OR b\<rparr>
         | DO_VOTE \<Rightarrow> ctl\<lparr>ctl_vote := ctl_vote ctl OR b\<rparr>
         | _ \<Rightarrow> ctl)"

definition control_phases :: "action \<Rightarrow> u64" where
  "control_phases a = (if a_to_phases a \<noteq> 0 then a_to_phases a else 15)"

definition control_refused :: "loc_conf \<Rightarrow> action \<Rightarrow> ctx \<Rightarrow> bool" where
  "control_refused lc a c \<longleftrightarrow>
     a_to a = ACTION_ALL \<or> a_passive a
     \<or> a_apply a = APPLY_CONN \<and> \<not> phase_is_frame (c_phase c)
     \<or> \<not> list_ex (\<lambda>p. control_phases a AND ph_bit p \<noteq> 0 \<and> binding_find lc (a_to a) p \<noteq> None)
          all_phases"

definition control_apply :: "loc_conf \<Rightarrow> action \<Rightarrow> ctx \<Rightarrow> rc \<times> ctx" where
  "control_apply lc a c =
     (if control_refused lc a c then (NGX_DECLINED, c)
      else
        let set_in = (\<lambda>m p. if control_phases a AND ph_bit p = 0 then m p
                           else control_set (a_verb a) (bit64 (a_to a)) (m p));
            c' = c\<lparr>c_ctl := set_in (c_ctl c)\<rparr>
        in (NGX_OK,
            if a_apply a = APPLY_CONN then c'\<lparr>c_conn_ctl := map_option set_in (c_conn_ctl c)\<rparr>
            else c'))"

definition audit_ovr_set :: "action \<Rightarrow> audit_ovr \<Rightarrow> audit_ovr" where
  "audit_ovr_set a ovr =
     (let part = (a_spec a)\<lparr>o_set := a_set a\<rparr>
      in if a_verb a = DO_AUDIT then ovr\<lparr>ovr_audit := part\<rparr> else ovr\<lparr>ovr_archive := part\<rparr>)"

definition audit_ovr_apply :: "action \<Rightarrow> ctx \<Rightarrow> rc \<times> ctx" where
  "audit_ovr_apply a c =
     (if a_apply a = APPLY_RESPONSE \<and> phase_is_frame (c_phase c) then (NGX_DECLINED, c)
      else
        let k = (if a_apply a = APPLY_RESPONSE then OVR_RESPONSE else OVR_REQUEST)
        in (NGX_OK, c\<lparr>c_audit_ovr := (c_audit_ovr c)(k := audit_ovr_set a (c_audit_ovr c k))\<rparr>))"

subsection \<open>Actions\<close>

text \<open>The fields by which a later action replaces an earlier one.\<close>

definition same_action :: "action \<Rightarrow> action \<Rightarrow> bool" where
  "same_action live src \<longleftrightarrow>
     a_from live = a_from src \<and> a_to live = a_to src \<and> a_to_phases live = a_to_phases src
     \<and> a_verb live = a_verb src \<and> a_apply live = a_apply src \<and> a_code live = a_code src
     \<and> a_counter live = a_counter src \<and> a_group live = a_group src \<and> a_marker live = a_marker src"

text \<open>The effect of a verb the module itself carries out; \<open>False\<close> is the \<open>continue\<close> of a
  refused one.\<close>

definition action_effect :: "alloc \<Rightarrow> main_conf \<Rightarrow> loc_conf \<Rightarrow> action \<Rightarrow> ctx \<Rightarrow> bool \<times> ctx" where
  "action_effect alloc mc lc a c =
     (let (r, c) = (if do_control (a_verb a) then control_apply lc a c else (NGX_OK, c)) in
      if r \<noteq> NGX_OK then (False, c)
      else
        let (r, c) = (if do_audit (a_verb a) then audit_ovr_apply a c else (NGX_OK, c)) in
        if r \<noteq> NGX_OK then (False, c)
        else
          let c = (if do_mark (a_verb a) then snd (markers_add alloc a c) else c);
              (r, c) = (if do_score (a_verb a) then score_apply mc a c else (NGX_OK, c))
          in (r = NGX_OK, c))"

text \<open>One turn of the loop for a stamped action; the first component says whether the loop goes on
  (a failed \<open>ngx_array_push\<close> ends it).\<close>

definition action_merge :: "alloc \<Rightarrow> main_conf \<Rightarrow> loc_conf \<Rightarrow> action \<Rightarrow> ctx \<Rightarrow> bool \<times> ctx" where
  "action_merge alloc mc lc a c =
     (let found = find_idx (\<lambda>live. same_action live a) (c_actions c) in
      if found = None \<and> length (c_actions c) \<ge> lc_actions_max lc then (True, c)
      else
        let (ok, c) = action_effect alloc mc lc a c in
        if \<not> ok then (True, c)
        else case found of
          Some j \<Rightarrow> (True, c\<lparr>c_actions := (c_actions c)[j := a]\<rparr>)
        | None \<Rightarrow> if \<not> alloc ARR_ACTIONS (length (c_actions c)) then (False, c)
                  else (True, c\<lparr>c_actions := c_actions c @ [a]\<rparr>))"

definition action_stamp :: "nat \<Rightarrow> phase \<Rightarrow> nat \<Rightarrow> bool \<Rightarrow> action \<Rightarrow> action" where
  "action_stamp index p wave passive a =
     a\<lparr>a_from := index, a_phase := p, a_wave := wave, a_passive := passive\<rparr>"

text \<open>
  The loop over the actions of the stored answer \<open>ctx->ph->replies[index]\<close>: the i-th one is
  stamped in place and merged.
\<close>

fun actions_loop ::
  "alloc \<Rightarrow> main_conf \<Rightarrow> loc_conf \<Rightarrow> nat \<Rightarrow> nat \<Rightarrow> nat \<Rightarrow> action list \<Rightarrow> ctx \<Rightarrow> ctx" where
  "actions_loop alloc mc lc index wave i [] c = c"
| "actions_loop alloc mc lc index wave i (a # as) c =
     (let a = action_stamp index (c_phase c) wave (r_passive (reply_at c index)) a;
          c = upd_reply index (r_actions_update (\<lambda>xs. xs[i := a])) c;
          (go, c) = action_merge alloc mc lc a c
      in if go then actions_loop alloc mc lc index wave (Suc i) as c else c)"

definition actions_merge :: "alloc \<Rightarrow> main_conf \<Rightarrow> loc_conf \<Rightarrow> nat \<Rightarrow> nat \<Rightarrow> ctx \<Rightarrow> ctx" where
  "actions_merge alloc mc lc index wave c =
     (let r = reply_at c index in
      if r_actions r = [] then c
      else if lc_actions_max lc = 0 then c
      else if c_actions c = [] \<and> \<not> alloc ARR_ACTIONS 0 then c
      else actions_loop alloc mc lc index wave 0 (r_actions r) c)"

subsection \<open>Sessions\<close>

definition session_len :: "session \<Rightarrow> nat" where
  "session_len s =
     length (s_source s) + length (s_kind s) + length (s_user s) + length (s_id s)
     + length (s_groups s)"

abbreviation (input) SESSION_TEXT :: nat where "SESSION_TEXT \<equiv> 64 + 16 + 256 + 128 + 256"

text \<open>The copy, or \<open>None\<close> for \<open>NGX_ERROR\<close>; \<open>buf_ok\<close> says that the entry has a buffer or
  gets one.\<close>

definition session_copy :: "bool \<Rightarrow> session \<Rightarrow> session option" where
  "session_copy buf_ok src =
     (if session_len src > SESSION_TEXT \<or> \<not> buf_ok then None else Some src)"

definition same_session :: "session \<Rightarrow> session \<Rightarrow> bool" where
  "same_session live src \<longleftrightarrow>
     s_by live = s_by src \<and> s_source live = s_source src \<and> s_id live = s_id src"

text \<open>
  One turn of the loop; the first component says whether it goes on. \<open>alloc\<close> answers for the
  push, \<open>buf\<close> for the text buffer of a new entry.
\<close>

definition session_merge ::
  "alloc \<Rightarrow> bool \<Rightarrow> session \<Rightarrow> session list \<Rightarrow> bool \<times> session list" where
  "session_merge alloc buf src live =
     (case find_idx (\<lambda>s. same_session s src) live of
        Some j \<Rightarrow> (True, case session_copy True src of None \<Rightarrow> live | Some s \<Rightarrow> live[j := s])
      | None \<Rightarrow>
          if length live \<ge> SESSIONS_MAX then (True, live)
          else if \<not> alloc ARR_SESSIONS (length live) then (False, live)
          else (True, case session_copy buf src of None \<Rightarrow> live | Some s \<Rightarrow> live @ [s]))"

fun sessions_loop ::
  "alloc \<Rightarrow> bool \<Rightarrow> nat \<Rightarrow> nat \<Rightarrow> session list \<Rightarrow> ctx \<Rightarrow> ctx" where
  "sessions_loop alloc buf index i [] c = c"
| "sessions_loop alloc buf index i (s # ss) c =
     (let s = s\<lparr>s_by := index, s_passive := r_passive (reply_at c index)\<rparr>;
          c = upd_reply index (r_sessions_update (\<lambda>xs. xs[i := s])) c;
          (go, live) = session_merge alloc buf s (c_sessions c);
          c = c\<lparr>c_sessions := live\<rparr>
      in if go then sessions_loop alloc buf index (Suc i) ss c else c)"

definition sessions_merge :: "alloc \<Rightarrow> bool \<Rightarrow> nat \<Rightarrow> ctx \<Rightarrow> ctx" where
  "sessions_merge alloc buf index c =
     (let r = reply_at c index in
      if r_sessions r = [] then c
      else if c_sessions c = [] \<and> \<not> alloc ARR_SESSIONS 0 then c
      else sessions_loop alloc buf index 0 (r_sessions r) c)"

subsection \<open>The inspectors of a wave\<close>

definition wave_off :: "ctx \<Rightarrow> wave \<Rightarrow> mask" where
  "wave_off c w =
     (let ctl = c_ctl c (c_phase c)
      in (w_all w AND ctl_off ctl)
         OR (w_off w AND NOT (ctl_active ctl OR ctl_passive ctl OR ctl_vote ctl)))"

definition wave_passive :: "ctx \<Rightarrow> wave \<Rightarrow> mask" where
  "wave_passive c w =
     (let ctl = c_ctl c (c_phase c); live = w_all w AND NOT (wave_off c w)
      in (ctl_passive ctl OR (w_passive w AND NOT (ctl_active ctl OR ctl_vote ctl))) AND live)"

definition wave_vote :: "ctx \<Rightarrow> wave \<Rightarrow> mask" where
  "wave_vote c w =
     (let ctl = c_ctl c (c_phase c); live = w_all w AND NOT (wave_off c w)
      in (ctl_vote ctl OR (w_vote w AND NOT (ctl_active ctl OR ctl_passive ctl))) AND live)"

definition wave_mandatory :: "ctx \<Rightarrow> wave \<Rightarrow> mask" where
  "wave_mandatory c w =
     (let live = w_all w AND NOT (wave_off c w) in live AND NOT (wave_passive c w))"

definition wave_gating :: "ctx \<Rightarrow> wave \<Rightarrow> mask" where
  "wave_gating c w = wave_mandatory c w AND NOT (wave_vote c w)"

subsection \<open>The verdict\<close>

text \<open>The loop of \<open>pick\<close>: the best answer so far is its index and its order.\<close>

fun pick_loop ::
  "deny_mode \<Rightarrow> verdict \<Rightarrow> nat \<Rightarrow> (nat \<times> nat) option \<Rightarrow> reply list \<Rightarrow> (nat \<times> nat) option" where
  "pick_loop dm v i best [] = best"
| "pick_loop dm v i best (r # rs) =
     (if \<not> r_received r \<or> r_verdict r \<noteq> v then pick_loop dm v (Suc i) best rs
      else if r_passive r \<or> r_vote r then pick_loop dm v (Suc i) best rs
      else case best of
        None \<Rightarrow> pick_loop dm v (Suc i) (Some (i, r_order r)) rs
      | Some (_, best_order) \<Rightarrow>
          if dm = DENY_FAST \<and> r_order r < best_order
          then pick_loop dm v (Suc i) (Some (i, r_order r)) rs
          else pick_loop dm v (Suc i) best rs)"

definition pick :: "main_conf \<Rightarrow> loc_conf \<Rightarrow> verdict \<Rightarrow> ctx \<Rightarrow> nat option" where
  "pick mc lc v c =
     (case p_replies (ph c) of
        None \<Rightarrow> None
      | Some rs \<Rightarrow>
          map_option fst
            (pick_loop (lc_deny_mode lc (c_phase c)) v 0 None (take (length (mc_inspectors mc)) rs)))"

definition resolve_verdict :: "main_conf \<Rightarrow> loc_conf \<Rightarrow> ctx \<Rightarrow> ctx" where
  "resolve_verdict mc lc c =
     (let c = upd_ph (\<lambda>p. p\<lparr>p_decisive := None, p_decisive_index := 0, p_by_score := False,
                            p_code := CODE_NONE\<rparr>) c
      in case pick mc lc V_DENY c of
        Some i \<Rightarrow>
          (upd_ph (\<lambda>p. p\<lparr>p_verdict := V_DENY, p_decisive := Some i, p_decisive_index := i,
                         p_code := CODE_INSPECTOR\<rparr>) c)\<lparr>c_state := ST_DENY\<rparr>
      | None \<Rightarrow>
          let threshold = score_deny_at lc c in
          if threshold > 0 \<and> p_score (ph c) \<ge> threshold
          then (upd_ph (\<lambda>p. p\<lparr>p_verdict := V_DENY, p_by_score := True, p_code := CODE_SCORE\<rparr>) c)
                 \<lparr>c_state := ST_DENY\<rparr>
          else (case pick mc lc V_REDIRECT c of
              Some i \<Rightarrow>
                (upd_ph (\<lambda>p. p\<lparr>p_verdict := V_REDIRECT, p_decisive := Some i, p_decisive_index := i,
                               p_code := CODE_INSPECTOR\<rparr>) c)\<lparr>c_state := ST_REDIRECT\<rparr>
            | None \<Rightarrow>
                let c = upd_ph (p_verdict_update (\<lambda>_. V_ALLOW)) c
                in c\<lparr>c_state := (if p_fail (ph c) \<noteq> CODE_NONE then ST_FAILED else ST_ALLOW)\<rparr>))"

end
