(* ===== verification/Verdict_Laws.thy ===== *)
theory Verdict_Laws
  imports Verdict
begin

text \<open>
  What holds of the verdict: the effective mode of an inspector, the choice of the decisive answer,
  the decision table, and the invariant of a request that every answer keeps (control masks apart,
  arrays within their limits and without duplicates, the score being the sum of the answers).
\<close>

subsection \<open>Frame facts\<close>

lemma ph_upd_reply [simp]:
  "ph (upd_reply i f c) = (ph c)\<lparr>p_replies := map_option (\<lambda>rs. rs[i := f (rs ! i)]) (p_replies (ph c))\<rparr>"
  by (simp add: upd_reply_def)

lemma upd_reply_frame [simp]:
  "c_phase (upd_reply i f c) = c_phase c" "c_state (upd_reply i f c) = c_state c"
  "c_ctl (upd_reply i f c) = c_ctl c" "c_actions (upd_reply i f c) = c_actions c"
  "c_markers (upd_reply i f c) = c_markers c" "c_sessions (upd_reply i f c) = c_sessions c"
  "c_waiting (upd_reply i f c) = c_waiting c" "c_slot (upd_reply i f c) = c_slot c"
  "c_rid (upd_reply i f c) = c_rid c" "c_timer (upd_reply i f c) = c_timer c"
  "c_conn_ctl (upd_reply i f c) = c_conn_ctl c" "c_audit_ovr (upd_reply i f c) = c_audit_ovr c"
  by (simp_all add: upd_reply_def)

lemma ph_ctx_updates [simp]:
  "ph (c\<lparr>c_state := s\<rparr>) = ph c" "ph (c\<lparr>c_ctl := k\<rparr>) = ph c" "ph (c\<lparr>c_actions := as\<rparr>) = ph c"
  "ph (c\<lparr>c_markers := ms\<rparr>) = ph c" "ph (c\<lparr>c_sessions := ss\<rparr>) = ph c"
  "ph (c\<lparr>c_conn_ctl := cc\<rparr>) = ph c" "ph (c\<lparr>c_audit_ovr := ov\<rparr>) = ph c"
  "ph (c\<lparr>c_waiting := wt\<rparr>) = ph c" "ph (c\<lparr>c_timer := tm\<rparr>) = ph c" "ph (c\<lparr>c_slot := sl\<rparr>) = ph c"
  "ph (c\<lparr>c_finish_how := fh\<rparr>) = ph c" "ph (c\<lparr>c_rid := rd\<rparr>) = ph c" "ph (c\<lparr>c_rid_hex := rh\<rparr>) = ph c"
  "ph (c\<lparr>c_exception_response := er\<rparr>) = ph c"
  by (simp_all add: ph_def)

lemma reply_at_upd [simp]:
  assumes "p_replies (ph c) = Some rs" "i < length rs"
  shows "reply_at (upd_reply i f c) j = (if j = i then f (reply_at c i) else reply_at c j)"
  using assms by (simp add: reply_at_def)

subsection \<open>Modes\<close>

fun verb_mode :: "verb \<Rightarrow> imode" where
  "verb_mode DO_PASSIVE = MODE_PASSIVE"
| "verb_mode DO_OFF = MODE_OFF"
| "verb_mode DO_VOTE = MODE_VOTE"
| "verb_mode _ = MODE_ACTIVE"

text \<open>The mode a control action gave an inspector, and the one its line gives it.\<close>

definition override :: "control \<Rightarrow> nat \<Rightarrow> imode option" where
  "override ctl i =
     (if bit (ctl_active ctl) i then Some MODE_ACTIVE
      else if bit (ctl_passive ctl) i then Some MODE_PASSIVE
      else if bit (ctl_off ctl) i then Some MODE_OFF
      else if bit (ctl_vote ctl) i then Some MODE_VOTE else None)"

definition configured :: "wave \<Rightarrow> nat \<Rightarrow> imode" where
  "configured w i =
     (if bit (w_off w) i then MODE_OFF else if bit (w_passive w) i then MODE_PASSIVE
      else if bit (w_vote w) i then MODE_VOTE else MODE_ACTIVE)"

definition effective :: "ctx \<Rightarrow> wave \<Rightarrow> nat \<Rightarrow> imode" where
  "effective c w i =
     (case override (c_ctl c (c_phase c)) i of Some m \<Rightarrow> m | None \<Rightarrow> configured w i)"

definition ctl_ok :: "control \<Rightarrow> bool" where
  "ctl_ok ctl \<longleftrightarrow>
     ctl_active ctl AND ctl_passive ctl = 0 \<and> ctl_active ctl AND ctl_off ctl = 0
     \<and> ctl_active ctl AND ctl_vote ctl = 0 \<and> ctl_passive ctl AND ctl_off ctl = 0
     \<and> ctl_passive ctl AND ctl_vote ctl = 0 \<and> ctl_off ctl AND ctl_vote ctl = 0"

definition wave_ok :: "wave \<Rightarrow> bool" where
  "wave_ok w \<longleftrightarrow>
     w_off w AND NOT (w_all w) = 0 \<and> w_passive w AND NOT (w_all w) = 0 \<and> w_vote w AND NOT (w_all w) = 0
     \<and> w_off w AND w_passive w = 0 \<and> w_off w AND w_vote w = 0 \<and> w_passive w AND w_vote w = 0"

lemma bit_mask_64: "bit (m :: mask) n \<Longrightarrow> n < 64"
  using bit_imp_le_length [of m n] by simp

lemma bit_not_64: "bit (NOT (m :: mask)) n \<longleftrightarrow> n < 64 \<and> \<not> bit m n"
  by (simp add: bit_simps)

lemma and_zero_bits: "(a :: mask) AND b = 0 \<longleftrightarrow> (\<forall>n. \<not> (bit a n \<and> bit b n))"
  by (auto simp: mask_zero_iff bit_and_iff dest: bit_mask_64)

lemma ctl_ok_bits:
  "ctl_ok ctl \<longleftrightarrow> (\<forall>n. \<not> (bit (ctl_active ctl) n \<and> bit (ctl_passive ctl) n)
     \<and> \<not> (bit (ctl_active ctl) n \<and> bit (ctl_off ctl) n) \<and> \<not> (bit (ctl_active ctl) n \<and> bit (ctl_vote ctl) n)
     \<and> \<not> (bit (ctl_passive ctl) n \<and> bit (ctl_off ctl) n) \<and> \<not> (bit (ctl_passive ctl) n \<and> bit (ctl_vote ctl) n)
     \<and> \<not> (bit (ctl_off ctl) n \<and> bit (ctl_vote ctl) n))"
  unfolding ctl_ok_def and_zero_bits by blast

lemma wave_ok_bits:
  "wave_ok w \<longleftrightarrow> (\<forall>n. (bit (w_off w) n \<longrightarrow> bit (w_all w) n) \<and> (bit (w_passive w) n \<longrightarrow> bit (w_all w) n)
     \<and> (bit (w_vote w) n \<longrightarrow> bit (w_all w) n)
     \<and> \<not> (bit (w_off w) n \<and> bit (w_passive w) n) \<and> \<not> (bit (w_off w) n \<and> bit (w_vote w) n)
     \<and> \<not> (bit (w_passive w) n \<and> bit (w_vote w) n))"
  unfolding wave_ok_def and_zero_bits by (auto simp: bit_not_64 dest: bit_mask_64)

lemma effective_masks:
  assumes "ctl_ok (c_ctl c (c_phase c))" and "wave_ok w"
  shows "bit (wave_off c w) i \<longleftrightarrow> bit (w_all w) i \<and> effective c w i = MODE_OFF"
    and "bit (wave_passive c w) i \<longleftrightarrow> bit (w_all w) i \<and> effective c w i = MODE_PASSIVE"
    and "bit (wave_vote c w) i \<longleftrightarrow> bit (w_all w) i \<and> effective c w i = MODE_VOTE"
    and "bit (wave_mandatory c w) i \<longleftrightarrow> bit (w_all w) i \<and> effective c w i \<in> {MODE_ACTIVE, MODE_VOTE}"
    and "bit (wave_gating c w) i \<longleftrightarrow> bit (w_all w) i \<and> effective c w i = MODE_ACTIVE"
proof -
  note b = assms(1) [unfolded ctl_ok_bits, rule_format, of i]
    assms(2) [unfolded wave_ok_bits, rule_format, of i]
  note bits = bit_and_iff bit_or_iff bit_not_64
  have lt: "bit (w_all w) i \<Longrightarrow> i < 64" by (rule bit_mask_64)
  have off: "bit (wave_off c w) i \<longleftrightarrow> bit (w_all w) i \<and> effective c w i = MODE_OFF"
    unfolding wave_off_def Let_def bits effective_def override_def configured_def
    using b lt by (auto split: if_split)
  have pas: "bit (wave_passive c w) i \<longleftrightarrow> bit (w_all w) i \<and> effective c w i = MODE_PASSIVE"
    unfolding wave_passive_def Let_def bits off unfolding effective_def override_def configured_def
    using b lt by (auto split: if_split)
  have vot: "bit (wave_vote c w) i \<longleftrightarrow> bit (w_all w) i \<and> effective c w i = MODE_VOTE"
    unfolding wave_vote_def Let_def bits off unfolding effective_def override_def configured_def
    using b lt by (auto split: if_split)
  have man: "bit (wave_mandatory c w) i \<longleftrightarrow> bit (w_all w) i \<and> effective c w i \<in> {MODE_ACTIVE, MODE_VOTE}"
    unfolding wave_mandatory_def Let_def bits off pas
    using lt by (cases "effective c w i") auto
  have gat: "bit (wave_gating c w) i \<longleftrightarrow> bit (w_all w) i \<and> effective c w i = MODE_ACTIVE"
    unfolding wave_gating_def bits man vot
    using lt by (cases "effective c w i") auto
  show "bit (wave_off c w) i \<longleftrightarrow> bit (w_all w) i \<and> effective c w i = MODE_OFF"
    and "bit (wave_passive c w) i \<longleftrightarrow> bit (w_all w) i \<and> effective c w i = MODE_PASSIVE"
    and "bit (wave_vote c w) i \<longleftrightarrow> bit (w_all w) i \<and> effective c w i = MODE_VOTE"
    and "bit (wave_mandatory c w) i \<longleftrightarrow> bit (w_all w) i \<and> effective c w i \<in> {MODE_ACTIVE, MODE_VOTE}"
    and "bit (wave_gating c w) i \<longleftrightarrow> bit (w_all w) i \<and> effective c w i = MODE_ACTIVE"
    by (fact off pas vot man gat)+
qed

lemma control_set_masks:
  "bit (ctl_active (control_set v b ctl)) n \<longleftrightarrow>
     n < 64 \<and> (bit (ctl_active ctl) n \<and> \<not> bit b n \<or> v = DO_ACTIVE \<and> bit b n)"
  "bit (ctl_passive (control_set v b ctl)) n \<longleftrightarrow>
     n < 64 \<and> (bit (ctl_passive ctl) n \<and> \<not> bit b n \<or> v = DO_PASSIVE \<and> bit b n)"
  "bit (ctl_off (control_set v b ctl)) n \<longleftrightarrow>
     n < 64 \<and> (bit (ctl_off ctl) n \<and> \<not> bit b n \<or> v = DO_OFF \<and> bit b n)"
  "bit (ctl_vote (control_set v b ctl)) n \<longleftrightarrow>
     n < 64 \<and> (bit (ctl_vote ctl) n \<and> \<not> bit b n \<or> v = DO_VOTE \<and> bit b n)"
  using bit_mask_64 [of b n]
  by (cases v; auto simp: control_set_def Let_def bit_and_iff bit_or_iff bit_not_64)+

lemma control_set_override:
  assumes "i < 64" "do_control v"
  shows "override (control_set v (bit64 i) ctl) j = (if j = i then Some (verb_mode v) else override ctl j)"
proof (cases "j < 64")
  case True
  show ?thesis
    using assms True
    unfolding override_def control_set_masks bit_bit64 do_control_def
    by (cases "j = i") auto
next
  case False
  then have "\<not> bit (m :: mask) j" for m using bit_mask_64 [of m j] by blast
  then show ?thesis using assms False by (auto simp: override_def)
qed

lemma control_set_ok:
  assumes "ctl_ok ctl"
  shows "ctl_ok (control_set v b ctl)"
  unfolding ctl_ok_bits control_set_masks
  apply (rule allI)
  subgoal for n
    using assms [unfolded ctl_ok_bits, rule_format, of n] by (cases "bit b n") auto
  done

lemma ph_bit_15: "(15 :: u64) AND ph_bit p \<noteq> 0"
  by (cases p) (simp_all add: ph_bit_def)

text \<open>The waves that \<open>waves_build\<close> makes of lines with different inspectors are well formed.\<close>

lemma waves_build_ok:
  assumes "distinct (map b_index (lc_inspects lc phase))"
    and "fst (waves_build True (\<lambda>_. True) mc lc phase) = Some ws"
  shows "list_all wave_ok ws"
proof -
  let ?bs = "lc_inspects lc phase"
  have inj: "b_index b = b_index b' \<Longrightarrow> b = b'" if "b \<in> set ?bs" "b' \<in> set ?bs" for b b'
    using assms(1) that by (auto simp: distinct_map inj_on_def)
  have ok: "wave_ok (wave_of sh f (filter P ?bs))" for sh f P
    unfolding wave_ok_bits wave_of_masks by (auto, (metis imode.distinct inj)+)
  show ?thesis
  proof (cases "?bs = []")
    case True
    then show ?thesis using assms(2) by (simp add: waves_build_def Let_def)
  next
    case False
    then show ?thesis
      using assms(2) waves_loop_eq [of "lc_shoot lc phase" phase ?bs True "[]" "[0..<65]"]
      by (auto simp: waves_build_def Let_def list_all_iff ok simp del: upt_Suc)
  qed
qed

subsection \<open>The decisive answer\<close>

definition candidate :: "verdict \<Rightarrow> reply \<Rightarrow> bool" where
  "candidate v r \<longleftrightarrow> r_received r \<and> r_verdict r = v \<and> \<not> r_passive r \<and> \<not> r_vote r"

lemma pick_loop_append:
  "pick_loop dm v i best (xs @ ys) = pick_loop dm v (i + length xs) (pick_loop dm v i best xs) ys"
  by (induction xs arbitrary: i best) (auto split: option.splits)

text \<open>The order in which \<open>pick\<close> prefers the answers.\<close>

definition preferred :: "deny_mode \<Rightarrow> reply list \<Rightarrow> nat \<Rightarrow> nat \<Rightarrow> bool" where
  "preferred dm rs i j \<longleftrightarrow>
     (if dm = DENY_FAST then r_order (rs ! i) < r_order (rs ! j) \<or> r_order (rs ! i) = r_order (rs ! j) \<and> i \<le> j
      else i \<le> j)"

definition best_of :: "deny_mode \<Rightarrow> verdict \<Rightarrow> reply list \<Rightarrow> nat \<Rightarrow> bool" where
  "best_of dm v rs i \<longleftrightarrow>
     i < length rs \<and> candidate v (rs ! i)
     \<and> (\<forall>j<length rs. candidate v (rs ! j) \<longrightarrow> preferred dm rs i j)"

lemma pick_loop_best:
  "case pick_loop dm v 0 None rs of
     None \<Rightarrow> \<forall>r\<in>set rs. \<not> candidate v r
   | Some (i, n) \<Rightarrow> best_of dm v rs i \<and> n = r_order (rs ! i)"
proof (induction rs rule: rev_induct)
  case Nil
  then show ?case by simp
next
  case (snoc r rs)
  have step: "best_of dm v (rs @ [r]) i" if "best_of dm v rs i"
      "candidate v r \<Longrightarrow> \<not> (dm = DENY_FAST \<and> r_order r < r_order (rs ! i))" for i
    using that by (auto simp: best_of_def preferred_def nth_append less_Suc_eq)
  have new: "best_of dm v (rs @ [r]) (length rs)" if "best_of dm v rs i" "candidate v r"
      "dm = DENY_FAST" "r_order r < r_order (rs ! i)" for i
    using that by (auto simp: best_of_def preferred_def nth_append less_Suc_eq)
  have only: "best_of dm v (rs @ [r]) (length rs)" if "\<forall>r\<in>set rs. \<not> candidate v r" "candidate v r"
    using that by (auto simp: best_of_def preferred_def nth_append less_Suc_eq)
  show ?case
  proof (cases "pick_loop dm v 0 None rs")
    case None
    with snoc.IH only show ?thesis
      by (auto simp: pick_loop_append candidate_def split: if_splits)
  next
    case (Some x)
    then obtain i where x: "x = (i, r_order (rs ! i))" and b: "best_of dm v rs i"
      using snoc.IH by (auto split: option.splits)
    have lt: "i < length rs" using b by (simp add: best_of_def)
    show ?thesis
      using Some x b lt step [of i] new [of i]
      by (auto simp: pick_loop_append candidate_def nth_append split: if_splits)
  qed
qed

lemma pick_cases:
  assumes "p_replies (ph c) = Some rs" and "length rs = length (mc_inspectors mc)"
  shows "case pick mc lc v c of
      None \<Rightarrow> \<forall>r\<in>set rs. \<not> candidate v r
    | Some i \<Rightarrow> best_of (lc_deny_mode lc (c_phase c)) v rs i"
  using pick_loop_best [where dm = "lc_deny_mode lc (c_phase c)" and v = v and rs = rs] assms
  by (auto simp: pick_def split: option.splits)

lemma pick_upd_ph:
  "p_replies (f (ph c)) = p_replies (ph c) \<Longrightarrow> pick mc lc v (upd_ph f c) = pick mc lc v c"
  by (simp add: pick_def split: option.split)

text \<open>What the outcome of a phase depends on.\<close>

definition answered :: "main_conf \<Rightarrow> verdict \<Rightarrow> ctx \<Rightarrow> bool" where
  "answered mc v c \<longleftrightarrow>
     (case p_replies (ph c) of
        None \<Rightarrow> False
      | Some rs \<Rightarrow> list_ex (candidate v) (take (length (mc_inspectors mc)) rs))"

definition over_score :: "loc_conf \<Rightarrow> ctx \<Rightarrow> bool" where
  "over_score lc c \<longleftrightarrow> 0 < score_deny_at lc c \<and> score_deny_at lc c \<le> p_score (ph c)"

lemma best_of_candidate: "best_of dm v rs i \<Longrightarrow> \<exists>r\<in>set rs. candidate v r"
  unfolding best_of_def using nth_mem by blast

lemma pick_None_iff: "pick mc lc v c = None \<longleftrightarrow> \<not> answered mc v c"
proof (cases "p_replies (ph c)")
  case None
  then show ?thesis by (simp add: pick_def answered_def)
next
  case (Some rs)
  let ?xs = "take (length (mc_inspectors mc)) rs"
  show ?thesis
    using pick_loop_best [where dm = "lc_deny_mode lc (c_phase c)" and v = v and rs = ?xs] Some
    by (auto simp: pick_def answered_def list_ex_iff split: option.splits dest: best_of_candidate)
qed

lemma resolve_state:
  "c_state (resolve_verdict mc lc c) =
     (if answered mc V_DENY c \<or> over_score lc c then ST_DENY
      else if answered mc V_REDIRECT c then ST_REDIRECT
      else if p_fail (ph c) \<noteq> CODE_NONE then ST_FAILED else ST_ALLOW)"
  using pick_None_iff [of mc lc V_DENY c] pick_None_iff [of mc lc V_REDIRECT c]
  unfolding resolve_verdict_def Let_def
  by (auto simp: pick_upd_ph score_deny_at_def over_score_def split: option.split)

lemma resolve_verdict_value:
  "p_verdict (ph (resolve_verdict mc lc c)) =
     (if answered mc V_DENY c \<or> over_score lc c then V_DENY
      else if answered mc V_REDIRECT c then V_REDIRECT else V_ALLOW)"
  using pick_None_iff [of mc lc V_DENY c] pick_None_iff [of mc lc V_REDIRECT c]
  unfolding resolve_verdict_def Let_def
  by (auto simp: pick_upd_ph score_deny_at_def over_score_def split: option.split)

lemma resolve_decisive:
  "p_decisive (ph (resolve_verdict mc lc c)) =
     (if answered mc V_DENY c then pick mc lc V_DENY c
      else if over_score lc c then None else pick mc lc V_REDIRECT c)"
  using pick_None_iff [of mc lc V_DENY c] pick_None_iff [of mc lc V_REDIRECT c]
  unfolding resolve_verdict_def Let_def
  by (auto simp: pick_upd_ph score_deny_at_def over_score_def split: option.split)

lemma resolve_code:
  "p_code (ph (resolve_verdict mc lc c)) =
     (if answered mc V_DENY c then CODE_INSPECTOR else if over_score lc c then CODE_SCORE
      else if answered mc V_REDIRECT c then CODE_INSPECTOR else CODE_NONE)"
  using pick_None_iff [of mc lc V_DENY c] pick_None_iff [of mc lc V_REDIRECT c]
  unfolding resolve_verdict_def Let_def
  by (auto simp: pick_upd_ph score_deny_at_def over_score_def split: option.split)

lemma resolve_frame [simp]:
  "c_phase (resolve_verdict mc lc c) = c_phase c" "c_ctl (resolve_verdict mc lc c) = c_ctl c"
  "c_waiting (resolve_verdict mc lc c) = c_waiting c" "c_slot (resolve_verdict mc lc c) = c_slot c"
  "c_timer (resolve_verdict mc lc c) = c_timer c" "c_rid (resolve_verdict mc lc c) = c_rid c"
  "p_fail (ph (resolve_verdict mc lc c)) = p_fail (ph c)"
  "p_replies (ph (resolve_verdict mc lc c)) = p_replies (ph c)"
  "p_body_policy (ph (resolve_verdict mc lc c)) = p_body_policy (ph c)"
  "p_score (ph (resolve_verdict mc lc c)) = p_score (ph c)"
  "p_wave (ph (resolve_verdict mc lc c)) = p_wave (ph c)"
  by (simp_all add: resolve_verdict_def Let_def split: option.split)

subsection \<open>What the merging of an answer leaves alone\<close>

definition strip :: "reply \<Rightarrow> reply" where
  "strip r = r\<lparr>r_score := 0, r_actions := [], r_sessions := []\<rparr>"

lemma strip_eqD:
  assumes "strip r = strip r'"
  shows "r_verdict r = r_verdict r'" "r_received r = r_received r'" "r_passive r = r_passive r'"
    "r_vote r = r_vote r'" "r_order r = r_order r'" "r_state r = r_state r'" "r_overload r = r_overload r'"
    "r_rewrite_has r = r_rewrite_has r'" "r_rewrite_body r = r_rewrite_body r'"
  using assms by (cases r; cases r'; simp add: strip_def)+

lemma strip_simps [simp]:
  "strip (r\<lparr>r_score := s\<rparr>) = strip r" "strip (r\<lparr>r_actions := as\<rparr>) = strip r"
  "strip (r\<lparr>r_sessions := ss\<rparr>) = strip r" "strip (r_actions_update f r) = strip r"
  "strip (r_sessions_update g r) = strip r" "strip (r_score_update h r) = strip r"
  by (simp_all add: strip_def)

text \<open>The part of a phase that only the waves, not the merging of an answer, change.\<close>

definition wave_part :: "phase_ctx \<Rightarrow> phase_ctx" where
  "wave_part p = p\<lparr>p_replies := map_option (map strip) (p_replies p), p_score := 0, p_shadow := 0\<rparr>"

definition request_part :: "ctx \<Rightarrow> wstate \<times> phase \<times> nat \<times> u64 \<times> msec option \<times> bool" where
  "request_part c = (c_state c, c_phase c, c_slot c, c_rid c, c_timer c, c_waiting c)"

definition keeps :: "ctx \<Rightarrow> ctx \<Rightarrow> bool" where
  "keeps c c' \<longleftrightarrow> wave_part (ph c') = wave_part (ph c) \<and> request_part c' = request_part c"

lemma keeps_refl [simp, intro!]: "keeps c c"
  by (simp add: keeps_def)

lemma keeps_trans: "keeps a b \<Longrightarrow> keeps b c \<Longrightarrow> keeps a c"
  by (simp add: keeps_def)

lemma list_update_map_id: "f (xs ! i) = f y \<Longrightarrow> map f (xs[i := y]) = map f xs"
  by (metis list_update_id map_update)

lemma keeps_upd_reply:
  assumes "\<And>r. strip (f r) = strip r"
  shows "keeps c (upd_reply i f c)"
proof -
  have "map strip (rs[i := f (rs ! i)]) = map strip rs" for rs
    by (rule list_update_map_id) (simp add: assms)
  then show ?thesis
    by (cases "p_replies (ph c)") (simp_all add: keeps_def wave_part_def request_part_def)
qed

lemma keeps_score: "keeps c c' \<Longrightarrow> keeps c (upd_ph (p_score_update f) c')"
  by (simp add: keeps_def wave_part_def request_part_def)

lemma keeps_arrays:
  "keeps c c' \<Longrightarrow> keeps c (c'\<lparr>c_actions := as\<rparr>)" "keeps c c' \<Longrightarrow> keeps c (c'\<lparr>c_sessions := ss\<rparr>)"
  "keeps c c' \<Longrightarrow> keeps c (c'\<lparr>c_markers := ms\<rparr>)" "keeps c c' \<Longrightarrow> keeps c (c'\<lparr>c_ctl := ct\<rparr>)"
  "keeps c c' \<Longrightarrow> keeps c (c'\<lparr>c_conn_ctl := cn\<rparr>)" "keeps c c' \<Longrightarrow> keeps c (c'\<lparr>c_audit_ovr := ov\<rparr>)"
  by (simp_all add: keeps_def request_part_def)

lemmas keeps_intros = keeps_arrays keeps_score keeps_upd_reply

lemma keeps_effects:
  "keeps c (snd (score_apply mc a c))" "keeps c (snd (control_apply lc a c))"
  "keeps c (snd (markers_add al a c))" "keeps c (snd (audit_ovr_apply a c))"
  by (simp_all add: score_apply_def control_apply_def markers_add_def audit_ovr_apply_def Let_def
      keeps_intros)

text \<open>A verb is carried out by at most one of the four.\<close>

lemma action_effect_verb:
  "action_effect al mc lc a c =
     (if do_control (a_verb a) then map_prod (\<lambda>r. r = NGX_OK) id (control_apply lc a c)
      else if do_audit (a_verb a) then map_prod (\<lambda>r. r = NGX_OK) id (audit_ovr_apply a c)
      else if do_mark (a_verb a) then (True, snd (markers_add al a c))
      else if do_score (a_verb a) then map_prod (\<lambda>r. r = NGX_OK) id (score_apply mc a c)
      else (True, c))"
  by (cases "a_verb a") (simp_all add: action_effect_def do_defs map_prod_def Let_def split: prod.split)

lemma keeps_action_effect: "keeps c (snd (action_effect al mc lc a c))"
  by (simp add: action_effect_verb keeps_effects)

lemma action_effect_arrays [simp]:
  "c_actions (snd (action_effect al mc lc a c)) = c_actions c"
  "c_sessions (snd (action_effect al mc lc a c)) = c_sessions c"
  by (simp_all add: action_effect_verb control_apply_def audit_ovr_apply_def markers_add_def
      score_apply_def Let_def)

lemma keeps_action_merge: "keeps c (snd (action_merge al mc lc a c))"
proof -
  obtain ok d where e: "action_effect al mc lc a c = (ok, d)" by fastforce
  then have "keeps c d" using keeps_action_effect [of c al mc lc a] by simp
  then show ?thesis
    by (simp add: action_merge_def e Let_def keeps_arrays split: option.split)
qed

lemma keeps_actions_loop: "keeps c (actions_loop al mc lc index wave i as c)"
proof (induction as arbitrary: i c)
  case Nil
  then show ?case by simp
next
  case (Cons a as)
  let ?a = "action_stamp index (c_phase c) wave (r_passive (reply_at c index)) a"
  let ?c = "upd_reply index (r_actions_update (\<lambda>xs. xs[i := ?a])) c"
  obtain go d where e: "action_merge al mc lc ?a ?c = (go, d)" by fastforce
  have "keeps c ?c" by (rule keeps_upd_reply) simp
  also have "keeps ?c d" using keeps_action_merge [of ?c al mc lc ?a] e by simp
  finally (keeps_trans) have "keeps c d" .
  with Cons.IH [of d "Suc i"] show ?case by (auto simp: e Let_def intro: keeps_trans)
qed

lemma keeps_actions_merge: "keeps c (actions_merge al mc lc index wave c)"
  by (simp add: actions_merge_def Let_def keeps_actions_loop)

lemma keeps_sessions_loop: "keeps c (sessions_loop al buf index i ss c)"
proof (induction ss arbitrary: i c)
  case Nil
  then show ?case by simp
next
  case (Cons s ss)
  let ?s = "s\<lparr>s_by := index, s_passive := r_passive (reply_at c index)\<rparr>"
  let ?c = "upd_reply index (r_sessions_update (\<lambda>xs. xs[i := ?s])) c"
  obtain go live where e: "session_merge al buf ?s (c_sessions ?c) = (go, live)" by fastforce
  have "keeps c (?c\<lparr>c_sessions := live\<rparr>)" by (intro keeps_intros) simp
  with Cons.IH [of "?c\<lparr>c_sessions := live\<rparr>" "Suc i"] show ?case
    using e by (auto simp: Let_def intro: keeps_trans)
qed

lemma keeps_sessions_merge: "keeps c (sessions_merge al buf index c)"
  by (simp add: sessions_merge_def Let_def keeps_sessions_loop)

lemma keepsD:
  assumes "keeps c c'"
  shows "c_state c' = c_state c" "c_phase c' = c_phase c" "c_slot c' = c_slot c" "c_rid c' = c_rid c"
    "c_timer c' = c_timer c" "c_waiting c' = c_waiting c" "p_wave (ph c') = p_wave (ph c)"
    "p_due (ph c') = p_due (ph c)" "p_got (ph c') = p_got (ph c)" "p_fail (ph c') = p_fail (ph c)"
    "p_skipped (ph c') = p_skipped (ph c)" "p_order (ph c') = p_order (ph c)"
    "p_body_policy (ph c') = p_body_policy (ph c)" "p_rewrite_depth (ph c') = p_rewrite_depth (ph c)"
    "map_option (map strip) (p_replies (ph c')) = map_option (map strip) (p_replies (ph c))"
proof -
  have w: "wave_part (ph c') = wave_part (ph c)" and r: "request_part c' = request_part c"
    using assms by (simp_all add: keeps_def)
  show "c_state c' = c_state c" "c_phase c' = c_phase c" "c_slot c' = c_slot c" "c_rid c' = c_rid c"
    "c_timer c' = c_timer c" "c_waiting c' = c_waiting c"
    using r by (simp_all add: request_part_def)
  show "p_wave (ph c') = p_wave (ph c)"
    "p_due (ph c') = p_due (ph c)" "p_got (ph c') = p_got (ph c)" "p_fail (ph c') = p_fail (ph c)"
    "p_skipped (ph c') = p_skipped (ph c)" "p_order (ph c') = p_order (ph c)"
    "p_body_policy (ph c') = p_body_policy (ph c)" "p_rewrite_depth (ph c') = p_rewrite_depth (ph c)"
    "map_option (map strip) (p_replies (ph c')) = map_option (map strip) (p_replies (ph c))"
    using w by (cases "ph c"; cases "ph c'"; simp add: wave_part_def)+
qed

subsection \<open>The score is the sum of the answers\<close>

definition score_of :: "reply \<Rightarrow> int" where
  "score_of r = (if r_received r \<and> \<not> r_passive r then r_score r else 0)"

definition score_sum :: "reply list \<Rightarrow> int" where
  "score_sum rs = sum_list (map score_of rs)"

lemma sum_list_upd:
  "i < length xs \<Longrightarrow> sum_list (xs[i := y]) = sum_list xs - xs ! i + (y :: int)"
  by (induction xs arbitrary: i) (auto split: nat.split)

lemma score_sum_upd:
  "i < length rs \<Longrightarrow> score_sum (rs[i := r]) = score_sum rs - score_of (rs ! i) + score_of r"
  by (simp add: score_sum_def map_update sum_list_upd)

text \<open>
  The score of a phase over its stored answers: exact, never negative, every answer within the
  range of the protocol.
\<close>

definition score_ok :: "ctx \<Rightarrow> bool" where
  "score_ok c \<longleftrightarrow>
     (case p_replies (ph c) of
        None \<Rightarrow> True
      | Some rs \<Rightarrow> p_score (ph c) = score_sum rs \<and> 0 \<le> p_score (ph c)
                   \<and> list_all (\<lambda>r. \<bar>r_score r\<bar> \<le> SCORE_MAX) rs)"

lemma score_ok_bound:
  assumes "score_ok c" "p_replies (ph c) = Some rs"
  shows "0 \<le> p_score (ph c) \<and> p_score (ph c) \<le> 100 * int (length rs)"
proof -
  have "score_of r \<le> 100" if "r \<in> set rs" for r
    using assms that by (auto simp: score_ok_def list_all_iff score_of_def abs_le_iff)
  then have "sum_list (map score_of rs) \<le> 100 * int (length rs)"
    by (induction rs) (auto simp: algebra_simps, fastforce)
  then show ?thesis using assms by (simp add: score_ok_def score_sum_def)
qed

lemma score_ok_frame:
  assumes "map_option (map (\<lambda>r. (r_received r, r_passive r, r_score r))) (p_replies (ph c'))
         = map_option (map (\<lambda>r. (r_received r, r_passive r, r_score r))) (p_replies (ph c))"
    and "p_score (ph c') = p_score (ph c)"
  shows "score_ok c' = score_ok c"
proof -
  let ?k = "\<lambda>r. (r_received r, r_passive r, r_score r)"
  have eq: "score_sum rs = score_sum rs' \<and> list_all (\<lambda>r. \<bar>r_score r\<bar> \<le> 100) rs = list_all (\<lambda>r. \<bar>r_score r\<bar> \<le> 100) rs'"
    if "map ?k rs = map ?k rs'" for rs rs'
    using that
  proof (induction rs arbitrary: rs')
    case (Cons r rs)
    then obtain r' ys where "rs' = r' # ys" "?k r = ?k r'" "map ?k rs = map ?k ys" by auto
    then show ?case using Cons.IH [of ys] by (simp add: score_sum_def score_of_def)
  qed simp
  show ?thesis
  proof (cases "p_replies (ph c)")
    case None
    then have "p_replies (ph c') = None" using assms(1) by simp
    then show ?thesis using None by (simp add: score_ok_def)
  next
    case (Some rs)
    then obtain rs' where rs': "p_replies (ph c') = Some rs'" "map ?k rs' = map ?k rs" using assms(1) by auto
    show ?thesis using eq [OF rs'(2)] by (simp add: score_ok_def Some rs'(1) assms(2))
  qed
qed

lemma score_apply_ok:
  assumes "score_ok c" and "p_replies (ph c) = Some rs" and "a_from a < length rs"
    and "\<not> a_passive a \<Longrightarrow> r_received (rs ! a_from a) \<and> \<not> r_passive (rs ! a_from a)"
  shows "score_ok (snd (score_apply mc a c))"
proof (cases "a_passive a \<or> a_from a \<ge> length (mc_inspectors mc)")
  case True
  then show ?thesis using assms by (auto simp: score_apply_def)
next
  case False
  let ?r = "rs ! a_from a"
  define now where "now = (let n = r_score ?r + a_value a in if n > 100 then 100 else if n < - 100 then - 100 else n)"
  define d where "d = (if p_score (ph c) + (now - r_score ?r) < 0 then - p_score (ph c) else now - r_score ?r)"
  have act: "r_received ?r" "\<not> r_passive ?r" using assms(4) False by auto
  have res: "snd (score_apply mc a c) =
      upd_ph (p_score_update (\<lambda>s. s + d)) (upd_reply (a_from a) (r_score_update (\<lambda>_. r_score ?r + d)) c)"
    using False assms(2) by (simp add: score_apply_def Let_def reply_at_def d_def now_def)
  have inv: "p_score (ph c) = score_sum rs" "0 \<le> p_score (ph c)" "list_all (\<lambda>r. \<bar>r_score r\<bar> \<le> 100) rs"
    using assms(1,2) by (simp_all add: score_ok_def)
  have r100: "\<bar>r_score ?r\<bar> \<le> 100" using inv(3) assms(3) by (simp add: list_all_length)
  have n100: "\<bar>now\<bar> \<le> 100" by (auto simp: now_def Let_def abs_le_iff)
  have "\<bar>r_score ?r + d\<bar> \<le> 100" "0 \<le> p_score (ph c) + d"
    using r100 n100 inv(2) by (auto simp: d_def)
  moreover have "score_sum (rs[a_from a := ?r\<lparr>r_score := r_score ?r + d\<rparr>]) = score_sum rs + d"
    using assms(3) act by (simp add: score_sum_upd) (simp add: score_of_def)
  moreover have "list_all (\<lambda>r. \<bar>r_score r\<bar> \<le> 100) (rs[a_from a := ?r\<lparr>r_score := r_score ?r + d\<rparr>])"
    using inv(3) calculation(1) by (auto simp: list_all_iff dest!: subsetD [OF set_update_subset_insert])
  ultimately show ?thesis
    using inv assms(2) by (simp add: res score_ok_def)
qed

text \<open>
  What the decoder of the answers (\<open>ngx_http_waf_msg_reply\<close>) hands on: a score between 0 and
  \<open>SCORE_MAX\<close>, and 0 for every verdict but \<open>score\<close>; a redirect only on the request.
\<close>

definition reply_ok :: "phase \<Rightarrow> reply \<Rightarrow> bool" where
  "reply_ok p r \<longleftrightarrow>
     0 \<le> r_score r \<and> r_score r \<le> SCORE_MAX \<and> (r_verdict r \<noteq> V_SCORE \<longrightarrow> r_score r = 0)
     \<and> (r_verdict r = V_REDIRECT \<longrightarrow> p = PH_REQUEST)"

lemma account_score_eq:
  assumes "p_replies (ph c) = Some rs" "i < length rs" "r_received (rs ! i)"
    and "p_score (ph c) = score_sum rs - score_of (rs ! i)" "0 \<le> p_score (ph c)"
    and "0 \<le> r_score (rs ! i)" "list_all (\<lambda>r. \<bar>r_score r\<bar> \<le> 100) rs"
  shows "score_ok (account_score i c)"
  using assms by (auto simp: account_score_def Let_def reply_at_def score_ok_def score_of_def)

lemma account_score_ok:
  assumes rs: "p_replies (ph c) = Some rs" "i < length rs" and r: "r_received (rs ! i)"
    and ok: "reply_ok (c_phase c) (rs ! i)"
    and sc: "p_score (ph c) = score_sum rs - score_of (rs ! i)" "0 \<le> p_score (ph c)"
    and all: "list_all (\<lambda>r. \<bar>r_score r\<bar> \<le> 100) rs"
  shows "score_ok (account i c)"
proof -
  let ?r = "rs ! i"
  define r1 where "r1 = ?r\<lparr>r_order := Suc (p_order (ph c))\<rparr>"
  define c1 where "c1 = upd_reply i (r_order_update (\<lambda>_. Suc (p_order (ph c)))) (upd_ph (p_order_update Suc) c)"
  have c1: "p_replies (ph c1) = Some (rs[i := r1])" "p_score (ph c1) = p_score (ph c)" "c_phase c1 = c_phase c"
    using rs by (simp_all add: c1_def r1_def)
  have at: "reply_at c1 i = r1" using c1 rs(2) by (simp add: reply_at_def)
  have s1: "score_sum (rs[i := r1]) = score_sum rs"
    using rs(2) by (simp add: score_sum_upd r1_def score_of_def)
  have all1: "list_all (\<lambda>r. \<bar>r_score r\<bar> \<le> 100) (rs[i := r1])"
    using all rs(2) by (auto simp: list_all_length nth_list_update r1_def)
  have v1: "r_verdict r1 = r_verdict ?r" "r_vote r1 = r_vote ?r" "r_score r1 = r_score ?r"
    "r_received r1 = r_received ?r" "r_passive r1 = r_passive ?r" by (simp_all add: r1_def)
  have acc: "account i c = (if r_verdict ?r = V_REDIRECT \<and> c_phase c \<noteq> PH_REQUEST
       then upd_reply i (r_verdict_update (\<lambda>_. V_ALLOW)) c1
       else if r_vote ?r \<and> r_verdict ?r = V_DENY
       then account_score i (upd_reply i (r_score_update (\<lambda>_. 100)) c1)
       else if r_verdict ?r \<noteq> V_SCORE then c1 else account_score i c1)"
    unfolding account_def Let_def using at c1(3) by (simp add: c1_def v1)
  consider (vote) "r_vote ?r" "r_verdict ?r = V_DENY" | (score) "r_verdict ?r = V_SCORE"
    | (other) "\<not> (r_vote ?r \<and> r_verdict ?r = V_DENY)" "r_verdict ?r \<noteq> V_SCORE" by blast
  then show ?thesis
  proof cases
    case vote
    then have a: "account i c = account_score i (upd_reply i (r_score_update (\<lambda>_. 100)) c1)" by (simp add: acc)
    let ?rs = "rs[i := r1\<lparr>r_score := 100\<rparr>]"
    have "score_sum ?rs - score_of (?rs ! i) = p_score (ph c)"
      using rs(2) sc(1) by (simp add: score_sum_upd)
    moreover have "list_all (\<lambda>r. \<bar>r_score r\<bar> \<le> 100) ?rs"
      using all rs(2) by (auto simp: list_all_length nth_list_update)
    ultimately show ?thesis
      unfolding a using c1 rs sc(2) r
      by (intro account_score_eq [of _ ?rs]) (simp_all add: v1)
  next
    case score
    then have a: "account i c = account_score i c1" by (simp add: acc)
    show ?thesis
      unfolding a using c1 rs sc r ok s1 all1
      by (intro account_score_eq [of _ "rs[i := r1]"]) (simp_all add: v1 reply_ok_def score_of_def)
  next
    case other
    then have z: "r_score ?r = 0" and a: "account i c = c1" using ok by (auto simp: acc reply_ok_def)
    then show ?thesis
      using c1 sc s1 all1 by (simp add: score_ok_def score_of_def)
  qed
qed

subsection \<open>The arrays of the request\<close>

interpretation acts: keyed_array same_action
  by unfold_locales (auto simp: same_action_def intro!: equivpI reflpI sympI transpI)

interpretation sess: keyed_array same_session
  by unfold_locales (auto simp: same_session_def intro!: equivpI reflpI sympI transpI)

definition arrays_ok :: "loc_conf \<Rightarrow> ctx \<Rightarrow> bool" where
  "arrays_ok lc c \<longleftrightarrow>
     (\<forall>p. ctl_ok (c_ctl c p))
     \<and> length (c_actions c) \<le> lc_actions_max lc \<and> acts.unique (c_actions c)
     \<and> length (c_markers c) \<le> MARKERS_MAX \<and> distinct (c_markers c) \<and> [] \<notin> set (c_markers c)
     \<and> length (c_sessions c) \<le> SESSIONS_MAX \<and> sess.unique (c_sessions c)
     \<and> list_all (\<lambda>s. session_len s \<le> SESSION_TEXT) (c_sessions c)"

lemma arrays_ok_frame [simp]:
  "arrays_ok lc (upd_ph f c) = arrays_ok lc c" "arrays_ok lc (upd_reply i g c) = arrays_ok lc c"
  "arrays_ok lc (c\<lparr>c_state := st\<rparr>) = arrays_ok lc c"
  by (simp_all add: arrays_ok_def)

lemma arrays_ok_action_effect:
  assumes "arrays_ok lc c"
  shows "arrays_ok lc (snd (action_effect al mc lc a c))"
proof -
  have "arrays_ok lc (snd (control_apply lc a c))"
    using assms by (auto simp: arrays_ok_def control_apply_def Let_def control_set_ok)
  moreover have "arrays_ok lc (snd (audit_ovr_apply a c))"
    using assms by (simp add: arrays_ok_def audit_ovr_apply_def Let_def)
  moreover have "arrays_ok lc (snd (markers_add al a c))"
    using assms by (auto simp: arrays_ok_def markers_add_def)
  moreover have "arrays_ok lc (snd (score_apply mc a c))"
    using assms by (simp add: score_apply_def Let_def)
  ultimately show ?thesis using assms by (simp add: action_effect_verb)
qed

lemma arrays_ok_action_merge:
  assumes "arrays_ok lc c"
  shows "arrays_ok lc (snd (action_merge al mc lc a c))"
proof -
  obtain ok d where e: "action_effect al mc lc a c = (ok, d)" by fastforce
  have d: "arrays_ok lc d" "c_actions d = c_actions c"
    using arrays_ok_action_effect [OF assms, of al mc a] action_effect_arrays(1) [of al mc lc a c] e
    by simp_all
  have push: "arrays_ok lc (d\<lparr>c_actions := c_actions c @ [a]\<rparr>)"
    if "find_idx (\<lambda>live. same_action live a) (c_actions c) = None" "length (c_actions c) < lc_actions_max lc"
    using d that acts.unique_push [of "c_actions c" a] by (simp add: arrays_ok_def)
  have rep: "arrays_ok lc (d\<lparr>c_actions := (c_actions c)[j := a]\<rparr>)"
    if "find_idx (\<lambda>live. same_action live a) (c_actions c) = Some j" for j
    using d that acts.unique_replace [of "c_actions c" a j] by (simp add: arrays_ok_def)
  show ?thesis
    using assms d push rep
    by (auto simp: action_merge_def e Let_def split: option.split)
qed

lemma arrays_ok_actions_loop:
  "arrays_ok lc c \<Longrightarrow> arrays_ok lc (actions_loop al mc lc index wave i as c)"
proof (induction as arbitrary: i c)
  case Nil
  then show ?case by simp
next
  case (Cons a as)
  let ?a = "action_stamp index (c_phase c) wave (r_passive (reply_at c index)) a"
  let ?c = "upd_reply index (r_actions_update (\<lambda>xs. xs[i := ?a])) c"
  obtain go d where e: "action_merge al mc lc ?a ?c = (go, d)" by fastforce
  then have "arrays_ok lc d" using arrays_ok_action_merge [of lc ?c al mc ?a] Cons.prems by simp
  with Cons.IH show ?case by (simp add: e Let_def)
qed

lemma session_merge_ok:
  assumes "length ss \<le> SESSIONS_MAX" "sess.unique ss" "list_all (\<lambda>s. session_len s \<le> SESSION_TEXT) ss"
    and "session_merge al buf s ss = (go, ss')"
  shows "length ss' \<le> SESSIONS_MAX \<and> sess.unique ss' \<and> list_all (\<lambda>s. session_len s \<le> SESSION_TEXT) ss'"
  using assms sess.unique_push [of ss s] sess.unique_replace [of ss s] set_update_subset_insert
  by (fastforce simp: session_merge_def session_copy_def list_all_iff split: option.splits if_splits)

lemma arrays_ok_sessions_loop:
  "arrays_ok lc c \<Longrightarrow> arrays_ok lc (sessions_loop al buf index i ss c)"
proof (induction ss arbitrary: i c)
  case Nil
  then show ?case by simp
next
  case (Cons s ss)
  let ?s = "s\<lparr>s_by := index, s_passive := r_passive (reply_at c index)\<rparr>"
  let ?c = "upd_reply index (r_sessions_update (\<lambda>xs. xs[i := ?s])) c"
  obtain go live where e: "session_merge al buf ?s (c_sessions c) = (go, live)" by fastforce
  then have "arrays_ok lc (?c\<lparr>c_sessions := live\<rparr>)"
    using Cons.prems session_merge_ok [OF _ _ _ e] by (simp add: arrays_ok_def)
  with Cons.IH show ?case by (simp add: e Let_def)
qed

lemma arrays_ok_merges [waf_inv]:
  "arrays_ok lc c \<Longrightarrow> arrays_ok lc (actions_merge al mc lc index wave c)"
  "arrays_ok lc c \<Longrightarrow> arrays_ok lc (sessions_merge al buf index c)"
  "arrays_ok lc c \<Longrightarrow> arrays_ok lc (account index c)"
  by (simp_all add: actions_merge_def sessions_merge_def account_def account_score_def Let_def
      arrays_ok_actions_loop arrays_ok_sessions_loop)

lemma score_ok_arrays [simp]:
  "score_ok (c\<lparr>c_actions := as\<rparr>) = score_ok c" "score_ok (c\<lparr>c_sessions := ss\<rparr>) = score_ok c"
  "score_ok (c\<lparr>c_markers := ms\<rparr>) = score_ok c" "score_ok (c\<lparr>c_ctl := ct\<rparr>) = score_ok c"
  "score_ok (c\<lparr>c_conn_ctl := cn\<rparr>) = score_ok c" "score_ok (c\<lparr>c_audit_ovr := ov\<rparr>) = score_ok c"
  by (rule score_ok_frame; simp)+

lemma score_ok_upd_reply:
  assumes "\<And>r. (r_received (f r), r_passive (f r), r_score (f r)) = (r_received r, r_passive r, r_score r)"
  shows "score_ok (upd_reply i f c) = score_ok c"
proof (rule score_ok_frame)
  let ?k = "\<lambda>r. (r_received r, r_passive r, r_score r)"
  have "map ?k (rs[i := f (rs ! i)]) = map ?k rs" for rs
    by (rule list_update_map_id) (simp add: assms [unfolded prod.inject])
  then show "map_option (map ?k) (p_replies (ph (upd_reply i f c))) = map_option (map ?k) (p_replies (ph c))"
    by (cases "p_replies (ph c)") simp_all
qed simp

lemma strip_nth:
  assumes "map_option (map strip) (p_replies (ph c')) = map_option (map strip) (p_replies (ph c))"
    and "p_replies (ph c) = Some rs" and "i < length rs"
  obtains rs' where "p_replies (ph c') = Some rs'" "length rs' = length rs" "strip (rs' ! i) = strip (rs ! i)"
proof -
  obtain rs' where rs': "p_replies (ph c') = Some rs'" "map strip rs' = map strip rs"
    using assms(1,2) by auto
  then have "length rs' = length rs" using map_eq_imp_length_eq by blast
  moreover from this have "strip (rs' ! i) = strip (rs ! i)"
    using rs'(2) assms(3) by (metis nth_map)
  ultimately show thesis using rs'(1) that by blast
qed

lemma score_ok_action_effect:
  assumes "score_ok c" "p_replies (ph c) = Some rs" "a_from a < length rs"
    and "\<not> a_passive a \<Longrightarrow> r_received (rs ! a_from a) \<and> \<not> r_passive (rs ! a_from a)"
  shows "score_ok (snd (action_effect al mc lc a c))"
  using assms score_apply_ok [OF assms(1-3), of mc]
  by (simp add: action_effect_verb control_apply_def audit_ovr_apply_def markers_add_def Let_def)

lemma score_ok_actions_loop:
  assumes "score_ok c" "p_replies (ph c) = Some rs" "index < length rs" "r_received (rs ! index)"
  shows "score_ok (actions_loop al mc lc index wave i as c)"
  using assms
proof (induction as arbitrary: i c rs)
  case Nil
  then show ?case by simp
next
  case (Cons a as)
  let ?a = "action_stamp index (c_phase c) wave (r_passive (reply_at c index)) a"
  let ?c = "upd_reply index (r_actions_update (\<lambda>xs. xs[i := ?a])) c"
  obtain go d where e: "action_merge al mc lc ?a ?c = (go, d)" by fastforce
  have c: "score_ok ?c" using Cons.prems(1) by (simp add: score_ok_upd_reply)
  let ?rs = "rs[index := r_actions_update (\<lambda>xs. xs[i := ?a]) (rs ! index)]"
  have rs: "p_replies (ph ?c) = Some ?rs" using Cons.prems(2) by simp
  have "score_ok (snd (action_effect al mc lc ?a ?c))"
    using Cons.prems by (intro score_ok_action_effect [OF c rs]) (simp_all add: action_stamp_def reply_at_def)
  then have d: "score_ok d"
    using e c by (auto simp: action_merge_def Let_def split: prod.splits if_splits option.splits)
  have "keeps c d"
    using keeps_action_merge [of ?c al mc lc ?a] e keeps_upd_reply [of "r_actions_update (\<lambda>xs. xs[i := ?a])" c index]
    by (auto intro: keeps_trans)
  from strip_nth [OF keepsD(15) [OF this] Cons.prems(2,3)] obtain rs' where
    "p_replies (ph d) = Some rs'" "index < length rs'" "r_received (rs' ! index)"
    using Cons.prems(3,4) by (metis strip_eqD(2))
  with Cons.IH [of d rs'] d show ?case by (simp add: e Let_def)
qed

lemma score_ok_sessions_loop: "score_ok (sessions_loop al buf index i ss c) = score_ok c"
  by (induction ss arbitrary: i c) (auto simp: Let_def score_ok_upd_reply split: prod.split)

lemma score_ok_merges [waf_inv]:
  "score_ok c \<Longrightarrow> p_replies (ph c) = Some rs \<Longrightarrow> index < length rs \<Longrightarrow> r_received (rs ! index)
   \<Longrightarrow> score_ok (actions_merge al mc lc index wave c)"
  "score_ok (sessions_merge al buf index c) = score_ok c"
  by (simp_all add: actions_merge_def sessions_merge_def Let_def score_ok_actions_loop
      score_ok_sessions_loop)

subsection \<open>Passive senders\<close>

lemma passive_action_effect:
  assumes "a_passive a"
  shows "c_ctl (snd (action_effect al mc lc a c)) = c_ctl c"
    and "p_score (ph (snd (action_effect al mc lc a c))) = p_score (ph c)"
  using assms
  by (simp_all add: action_effect_verb control_apply_def control_refused_def audit_ovr_apply_def
      markers_add_def score_apply_def Let_def)

lemma passive_action_merge:
  assumes "a_passive a"
  shows "c_ctl (snd (action_merge al mc lc a c)) = c_ctl c"
    and "p_score (ph (snd (action_merge al mc lc a c))) = p_score (ph c)"
proof -
  obtain ok d where e: "action_effect al mc lc a c = (ok, d)" by fastforce
  then have "c_ctl d = c_ctl c" "p_score (ph d) = p_score (ph c)"
    using passive_action_effect [OF assms, of al mc lc c] by simp_all
  then show "c_ctl (snd (action_merge al mc lc a c)) = c_ctl c"
    and "p_score (ph (snd (action_merge al mc lc a c))) = p_score (ph c)"
    by (simp_all add: action_merge_def e Let_def split: option.split)
qed

lemma passive_actions_loop:
  assumes "p_replies (ph c) = Some rs" "index < length rs" "r_passive (rs ! index)"
  shows "c_ctl (actions_loop al mc lc index wave i as c) = c_ctl c
       \<and> p_score (ph (actions_loop al mc lc index wave i as c)) = p_score (ph c)"
  using assms
proof (induction as arbitrary: i c rs)
  case Nil
  then show ?case by simp
next
  case (Cons a as)
  let ?a = "action_stamp index (c_phase c) wave (r_passive (reply_at c index)) a"
  let ?c = "upd_reply index (r_actions_update (\<lambda>xs. xs[i := ?a])) c"
  obtain go d where e: "action_merge al mc lc ?a ?c = (go, d)" by fastforce
  have "a_passive ?a" using Cons.prems by (simp add: action_stamp_def reply_at_def)
  from passive_action_merge [OF this, of al mc lc ?c] e
  have d: "c_ctl d = c_ctl c" "p_score (ph d) = p_score (ph c)" by simp_all
  have "keeps c d"
    using keeps_action_merge [of ?c al mc lc ?a] e keeps_upd_reply [of "r_actions_update (\<lambda>xs. xs[i := ?a])" c index]
    by (auto intro: keeps_trans)
  from strip_nth [OF keepsD(15) [OF this] Cons.prems(1,2)] obtain rs' where
    "p_replies (ph d) = Some rs'" "index < length rs'" "r_passive (rs' ! index)"
    using Cons.prems(2,3) by (metis strip_eqD(3))
  with Cons.IH [of d rs' "Suc i"] d show ?case by (simp add: e Let_def)
qed

lemma sessions_loop_frame [simp]:
  "c_ctl (sessions_loop al buf index i ss c) = c_ctl c"
  "p_score (ph (sessions_loop al buf index i ss c)) = p_score (ph c)"
  by (induction ss arbitrary: i c) (auto simp: Let_def split: prod.split)

lemma sessions_merge_frame [simp]:
  "c_ctl (sessions_merge al buf index c) = c_ctl c"
  "p_score (ph (sessions_merge al buf index c)) = p_score (ph c)"
  by (simp_all add: sessions_merge_def Let_def)

lemma passive_actions_merge:
  assumes "p_replies (ph c) = Some rs" "index < length rs" "r_passive (rs ! index)"
  shows "c_ctl (actions_merge al mc lc index wave c) = c_ctl c
       \<and> p_score (ph (actions_merge al mc lc index wave c)) = p_score (ph c)"
  using passive_actions_loop [OF assms] by (simp add: actions_merge_def Let_def)

end
