(* ===== verification/Handler.thy ===== *)
theory Handler
  imports Slot_Table Breaker Verdict_Laws
begin

text \<open>
  The life of a request between the waves of its inspectors
  (\<open>src/module/src/runtime/ngx_http_waf_handler.c\<close>, and the publishing side
  \<open>src/module/src/bus/ngx_http_waf_bus.c\<close>): publishing a wave, taking the answers, giving
  inspectors up, the deadline, the verdict and the exception policies.

  A worker is the slot table with the contexts of its requests, the circuit breakers, the messages
  it published and the requests it handed back to nginx. \<open>ngx_http_waf_return_to_phases\<close> is the
  last thing every caller does, so the phase handlers it re-enters are a step of their own:
  the request is put into \<open>nd_ready\<close> and taken up again by \<open>phase_resume\<close> or by the
  access handler. What other parts of the module and nginx answer is in the record \<open>env\<close>.
\<close>

record node = worker +
  nd_breakers :: breakers
  nd_sent :: "(u64 \<times> nat \<times> bytes) list"
  nd_ready :: "nat list"

text \<open>What a handler returns to nginx: a code or a status of HTTP.\<close>

datatype ret = RET rc | STATUS nat

text \<open>
  The answers of the surroundings: nginx's CRC and allocations (\<open>e_crc\<close>, \<open>e_alloc\<close>,
  \<open>e_buf\<close>, \<open>e_live_ok\<close>, \<open>e_stale_ok\<close>, \<open>e_replies_ok\<close>, \<open>e_cln_slot\<close>,
  \<open>e_cln_resume\<close>), whether there is a bus and whether a message for a wave and an inspector is
  built and published (\<open>e_bus\<close>, \<open>e_msg\<close>, \<open>e_publish\<close>), the \<open>if\<close> conditions of a line
  (\<open>e_cond\<close>), the local checks with the rule and the response they name (\<open>e_shm\<close>,
  \<open>e_dataset_check\<close>, \<open>e_rate_check\<close>), the placing of a wave's objects in the store (\<open>e_meta_place\<close>,
  \<open>e_body_place\<close>), the reading of the body of a request (\<open>e_read_body\<close>) and of a response or
  a frame (\<open>e_get_body\<close>), and the
  application of the outcome (\<open>e_agent_needs_body\<close>, \<open>e_form_fetch\<close>, \<open>e_send_fetch\<close>,
  \<open>e_apply\<close>, \<open>e_overrides\<close>, \<open>e_fail_status\<close>, \<open>e_frame_finish\<close>).
\<close>

record env =
  e_crc :: "bytes \<Rightarrow> u32"
  e_alloc :: alloc
  e_buf :: bool
  e_live_ok :: bool
  e_stale_ok :: bool
  e_replies_ok :: bool
  e_cln_slot :: bool
  e_cln_resume :: bool
  e_bus :: bool
  e_msg :: "nat \<Rightarrow> nat \<Rightarrow> bool"
  e_publish :: "nat \<Rightarrow> nat \<Rightarrow> bool"
  e_cond :: "binding \<Rightarrow> bool"
  e_meta_place :: "nat \<Rightarrow> rc"
  e_body_place :: "nat \<Rightarrow> rc"
  e_get_body :: ret
  e_agent_needs_body :: bool
  e_form_fetch :: rc
  e_send_fetch :: rc
  e_apply :: ret
  e_overrides :: ret
  e_read_body :: ret
  e_shm :: bool
  e_dataset_check :: "rc \<times> bytes \<times> bytes"
  e_rate_check :: "rc \<times> bytes \<times> bytes"
  e_fail_status :: ret
  e_frame_finish :: "finish_how \<Rightarrow> ret"

subsection \<open>Masks\<close>

definition lowest_bit :: "mask \<Rightarrow> nat" where
  "lowest_bit m = hd (filter (bit m) [0..<64])"

text \<open>The order in which a \<open>while (mask)\<close> loop takes the bits.\<close>

lemma lowest_bit:
  assumes "m \<noteq> 0"
  shows "bit m (lowest_bit m)" "lowest_bit m < 64" "\<forall>n<lowest_bit m. \<not> bit m n"
proof -
  obtain n where "n < 64" "bit m n" using assms by (auto simp: mask_zero_iff)
  then have ne: "filter (bit m) [0..<64] \<noteq> []" by (auto simp: filter_empty_conv)
  then have "lowest_bit m \<in> set (filter (bit m) [0..<64])"
    unfolding lowest_bit_def by (rule hd_in_set)
  then show b: "bit m (lowest_bit m)" "lowest_bit m < 64" by auto
  have srt: "sorted (filter (bit m) [0..<64])" by (simp add: sorted_wrt_filter)
  show "\<forall>n<lowest_bit m. \<not> bit m n"
  proof (intro allI impI notI)
    fix k assume k: "k < lowest_bit m" "bit m k"
    then have "k \<in> set (filter (bit m) [0..<64])" using b(2) by simp
    then have "lowest_bit m \<le> k"
      using srt ne unfolding lowest_bit_def by (cases "filter (bit m) [0..<64]") auto
    then show False using k(1) by simp
  qed
qed

lemma clear_lowest_smaller:
  assumes "m \<noteq> 0"
  shows "card {n. bit (m AND NOT (bit64 (lowest_bit m))) n} < card {n. bit m n}"
proof (rule psubset_card_mono)
  show "finite {n. bit m n}"
    by (rule finite_subset [of _ "{..<64}"]) (auto dest: bit_mask_64)
  show "{n. bit (m AND NOT (bit64 (lowest_bit m))) n} \<subset> {n. bit m n}"
    using lowest_bit(1,2) [OF assms] by (auto simp: bit_and_iff bit_not_64)
qed

function bits_of :: "mask \<Rightarrow> nat list" where
  "bits_of m = (if m = 0 then [] else lowest_bit m # bits_of (m AND NOT (bit64 (lowest_bit m))))"
  by pat_completeness auto
termination
  by (relation "measure (\<lambda>m. card {n. bit m n})") (auto intro: clear_lowest_smaller)

declare bits_of.simps [simp del]

lemma set_bits_of: "set (bits_of m) = {n. bit m n}"
proof (induction m rule: bits_of.induct)
  case (1 m)
  show ?case
  proof (cases "m = 0")
    case True
    then show ?thesis by (simp add: bits_of.simps)
  next
    case False
    then show ?thesis
      using 1 [OF False] lowest_bit(1,2) [OF False]
      by (subst bits_of.simps) (auto simp: bit_and_iff bit_not_64 dest: bit_mask_64)
  qed
qed

subsection \<open>Waves of the route\<close>

definition current_wave :: "loc_conf \<Rightarrow> ctx \<Rightarrow> wave option" where
  "current_wave lc c =
     (let ws = lc_waves lc (c_phase c)
      in if p_wave (ph c) \<ge> length ws then None else Some (ws ! p_wave (ph c)))"

definition wave_count :: "loc_conf \<Rightarrow> ctx \<Rightarrow> nat" where
  "wave_count lc c = length (lc_waves lc (c_phase c))"

definition body_wave_need :: "loc_conf \<Rightarrow> nat \<Rightarrow> ctx \<Rightarrow> body_need" where
  "body_wave_need lc wave c =
     (let ws = lc_waves lc (c_phase c)
      in if wave \<ge> length ws then BODY_NONE else w_body_need (ws ! wave))"

definition meta_wave_need :: "loc_conf \<Rightarrow> nat \<Rightarrow> ctx \<Rightarrow> u64" where
  "meta_wave_need lc wave c =
     (let meta = obj_bit OBJ_HEADERS OR obj_bit OBJ_ARGS; ws = lc_waves lc (c_phase c)
      in if wave < length ws then w_obj_need (ws ! wave) AND meta else 0)"

definition wave_needs_body :: "loc_conf \<Rightarrow> nat \<Rightarrow> ctx \<Rightarrow> bool" where
  "wave_needs_body lc wave c \<longleftrightarrow> body_wave_need lc wave c \<noteq> BODY_NONE"

definition cond_off :: "env \<Rightarrow> loc_conf \<Rightarrow> ctx \<Rightarrow> mask \<times> ctx" where
  "cond_off e lc c =
     (if p_cond_settled (ph c) then (p_cond_off (ph c), c)
      else
        let off = fold (\<lambda>b m. if e_cond e b then m else m OR bit64 (b_index b))
                    (lc_inspects lc (c_phase c)) 0
        in (off, upd_ph (\<lambda>p. p\<lparr>p_cond_settled := True, p_cond_off := off\<rparr>) c))"

definition waves_pending :: "env \<Rightarrow> loc_conf \<Rightarrow> ctx \<Rightarrow> bool \<times> ctx" where
  "waves_pending e lc c =
     (let ws = lc_waves lc (c_phase c) in
      if ws = [] then (False, c)
      else
        let (off, c) = cond_off e lc c
        in (off = 0 \<or> list_ex (\<lambda>w. w_all w AND NOT off \<noteq> 0) ws, c))"

subsection \<open>Deadlines, slots and breakers\<close>

definition slot_ctx :: "'a worker_scheme \<Rightarrow> nat \<Rightarrow> nat" where
  "slot_ctx nd s = the (sl_ctx (slot_at nd s))"

definition deadline_stop :: "nat \<Rightarrow> 'a worker_scheme \<Rightarrow> 'a worker_scheme" where
  "deadline_stop p nd = upd_ctx p (c_timer_update (\<lambda>_. None)) nd"

text \<open>The moment the deadline is armed for: the phase's due time or the earliest timeout of a line
  still awaited.\<close>

fun deadline_scan :: "loc_conf \<Rightarrow> phase \<Rightarrow> msec \<Rightarrow> nat list \<Rightarrow> msec \<Rightarrow> msec" where
  "deadline_scan lc phase published [] at = at"
| "deadline_scan lc phase published (index # rest) at =
     (case binding_find lc index phase of
        None \<Rightarrow> deadline_scan lc phase published rest at
      | Some b \<Rightarrow>
          if b_timeout b = 0 then deadline_scan lc phase published rest at
          else
            let until = published + b_timeout b
            in deadline_scan lc phase published rest (if msec_diff until at < 0 then until else at))"

definition deadline_arm :: "loc_conf \<Rightarrow> nat \<Rightarrow> nat \<Rightarrow> 'a worker_scheme \<Rightarrow> 'a worker_scheme" where
  "deadline_arm lc p s nd =
     (let c = wk_ctx nd p; slot = slot_at nd s;
          at = deadline_scan lc (c_phase c) (sl_published slot)
                 (bits_of (sl_awaited slot AND NOT (sl_got slot))) (p_due (ph c));
          left = msec_diff at (wk_now nd)
      in upd_ctx p (c_timer_update (\<lambda>_. Some (if left > 0 then at else wk_now nd))) nd)"

definition ensure_slot :: "env \<Rightarrow> nat \<Rightarrow> 'a worker_scheme \<Rightarrow> nat option \<times> 'a worker_scheme" where
  "ensure_slot e p nd =
     (if c_slot (wk_ctx nd p) \<noteq> SLOT_NIL then (slot_lookup (c_rid (wk_ctx nd p)) nd, nd)
      else slot_acquire (e_cln_slot e) p nd)"

definition slot_drop :: "nat \<Rightarrow> 'a worker_scheme \<Rightarrow> 'a worker_scheme" where
  "slot_drop p nd =
     (if c_slot (wk_ctx nd p) = SLOT_NIL then nd
      else
        let nd = (case slot_lookup (c_rid (wk_ctx nd p)) nd of
                    None \<Rightarrow> nd | Some s \<Rightarrow> slot_release s nd)
        in upd_ctx p (c_slot_update (\<lambda>_. SLOT_NIL)) nd)"

definition breaker_account :: "env \<Rightarrow> main_conf \<Rightarrow> mask \<Rightarrow> bool \<Rightarrow> 'a node_scheme \<Rightarrow> 'a node_scheme" where
  "breaker_account e mc m timed_out nd =
     fold (\<lambda>index nd.
         if index \<ge> length (mc_inspectors mc) then nd
         else nd\<lparr>nd_breakers := breaker_result (e_crc e) (wk_now nd) index (mc_inspectors mc ! index)
                                 timed_out (nd_breakers nd)\<rparr>)
       (bits_of m) nd"

subsection \<open>Exception policies\<close>

definition exception_policy :: "loc_conf \<Rightarrow> ctx \<Rightarrow> policy \<times> exc" where
  "exception_policy lc c =
     (let exc = exc_of (p_fail (ph c));
          policy = lc_exception lc (c_phase c) exc
      in (case p_body_policy (ph c) of
            Some bp \<Rightarrow> if exc = EXC_BODY then bp else policy
          | None \<Rightarrow> policy, exc))"

definition fail_pass :: "loc_conf \<Rightarrow> ctx \<Rightarrow> ctx" where
  "fail_pass lc c =
     (if c_state c \<noteq> ST_FAILED \<or> fst (exception_policy lc c) \<noteq> POLICY_PASS then c
      else c\<lparr>c_state := ST_ALLOW\<rparr>)"

subsection \<open>Rewrites\<close>

definition is_rewrite :: "reply \<Rightarrow> bool" where
  "is_rewrite r \<longleftrightarrow>
     r_received r \<and> \<not> r_passive r \<and> \<not> r_vote r \<and> r_rewrite_has r \<and> r_rewrite_body r
     \<and> r_verdict r \<noteq> V_DENY"

definition locator_live :: "ctx \<Rightarrow> locator option" where
  "locator_live c = (case p_live (ph c) of Some l \<Rightarrow> Some l | None \<Rightarrow> p_locator (ph c))"

definition rewrite_fail :: "ctx \<Rightarrow> ctx" where
  "rewrite_fail c = upd_ph (p_fail_update (\<lambda>_. CODE_FAIL_BODY)) c"

definition rewrite_publish :: "env \<Rightarrow> nat \<Rightarrow> ctx \<Rightarrow> ctx" where
  "rewrite_publish e found c =
     (if p_rewrite_depth (ph c) \<ge> REWRITE_MAX_DEPTH then rewrite_fail c
      else case locator_live c of
        None \<Rightarrow> c
      | Some from \<Rightarrow>
          if \<not> e_live_ok e then rewrite_fail c
          else
            let r = reply_at c found;
                live = from\<lparr>l_key := r_rewrite_key r, l_size := r_rewrite_size r, l_truncated := False,
                            l_inline := [],
                            l_sha256 := (if r_rewrite_sha256_set r then r_rewrite_sha256 r
                                         else replicate 32 0)\<rparr>
            in if p_live (ph c) \<noteq> None \<and> \<not> e_stale_ok e then rewrite_fail c
               else upd_ph (\<lambda>p. p\<lparr>
                      p_stale := (case p_live p of None \<Rightarrow> p_stale p | Some l \<Rightarrow> p_stale p @ [l_key l]),
                      p_live := Some live, p_rewrite_last := found,
                      p_rewrite_depth := p_rewrite_depth p + 1,
                      p_rewrite_applied := p_rewrite_applied p OR bit64 found\<rparr>) c)"

definition rewriters :: "main_conf \<Rightarrow> mask \<Rightarrow> reply list \<Rightarrow> nat list" where
  "rewriters mc got rs =
     filter (\<lambda>i. got AND bit64 i \<noteq> 0 \<and> is_rewrite (rs ! i)) [0..<length (mc_inspectors mc)]"

definition rewrite_settle :: "env \<Rightarrow> main_conf \<Rightarrow> mask \<Rightarrow> ctx \<Rightarrow> ctx" where
  "rewrite_settle e mc got c =
     (case p_replies (ph c) of
        None \<Rightarrow> c
      | Some rs \<Rightarrow>
          (case rewriters mc got rs of
             [] \<Rightarrow> c
           | [found] \<Rightarrow> rewrite_publish e found c
           | _ \<Rightarrow> rewrite_fail c))"

subsection \<open>The end of a wave\<close>

definition wave_closed :: "slot \<Rightarrow> bool" where
  "wave_closed slot \<longleftrightarrow> sl_got slot AND sl_awaited slot = sl_awaited slot"

definition wave_advances :: "loc_conf \<Rightarrow> ctx \<Rightarrow> slot \<Rightarrow> bool" where
  "wave_advances lc c slot \<longleftrightarrow>
     (if p_wave (ph c) + 1 \<ge> wave_count lc c then False
      else if p_fail (ph c) \<noteq> CODE_NONE then False
      else if score_deny_at lc c > 0 \<and> p_score (ph c) \<ge> score_deny_at lc c then False
      else case current_wave lc c of
        None \<Rightarrow> True
      | Some w \<Rightarrow> sl_denied slot AND wave_gating c w = 0)"

definition return_to_phases :: "nat \<Rightarrow> 'a node_scheme \<Rightarrow> 'a node_scheme" where
  "return_to_phases p nd =
     (let nd = upd_ctx p (c_waiting_update (\<lambda>_. False)) nd in nd\<lparr>nd_ready := nd_ready nd @ [p]\<rparr>)"

definition conclude :: "main_conf \<Rightarrow> loc_conf \<Rightarrow> nat \<Rightarrow> 'a node_scheme \<Rightarrow> 'a node_scheme" where
  "conclude mc lc s nd =
     (let p = slot_ctx nd s;
          nd = deadline_stop p nd;
          nd = slot_release s nd;
          nd = upd_ctx p (resolve_verdict mc lc) nd;
          nd = upd_ctx p (fail_pass lc) nd
      in return_to_phases p nd)"

definition settle :: "env \<Rightarrow> main_conf \<Rightarrow> loc_conf \<Rightarrow> nat \<Rightarrow> 'a node_scheme \<Rightarrow> 'a node_scheme" where
  "settle e mc lc s nd =
     (let p = slot_ctx nd s in
      if \<not> c_waiting (wk_ctx nd p) then nd
      else if \<not> wave_closed (slot_at nd s) then nd
      else
        let nd = upd_ctx p (rewrite_settle e mc (sl_got (slot_at nd s))) nd in
        if wave_advances lc (wk_ctx nd p) (slot_at nd s)
        then
          let nd = slot_release s nd;
              nd = upd_ctx p (\<lambda>c. (upd_ph (p_wave_update Suc) c)\<lparr>c_state := ST_NEXT_WAVE\<rparr>) nd
          in return_to_phases p nd
        else conclude mc lc s nd)"

definition resume :: "env \<Rightarrow> main_conf \<Rightarrow> loc_conf \<Rightarrow> nat \<Rightarrow> 'a node_scheme \<Rightarrow> 'a node_scheme" where
  "resume e mc lc s nd =
     (case sl_ctx (slot_at nd s) of
        None \<Rightarrow> nd
      | Some p \<Rightarrow> conclude mc lc s (upd_ctx p (rewrite_settle e mc (sl_got (slot_at nd s))) nd))"

subsection \<open>Answers\<close>

text \<open>The answer as it is stored, and what it leaves on the request.\<close>

definition absorb ::
  "env \<Rightarrow> main_conf \<Rightarrow> loc_conf \<Rightarrow> nat \<Rightarrow> reply \<Rightarrow> wave \<Rightarrow> msec \<Rightarrow> nat \<Rightarrow> ctx \<Rightarrow> ctx" where
  "absorb e mc lc index reply w latency slot_wave c =
     (if p_replies (ph c) = None then c
      else
        let stored = reply\<lparr>r_received := True, r_state := ENTRY_ANSWERED,
                           r_passive := (wave_passive c w AND bit64 index \<noteq> 0),
                           r_vote := (wave_vote c w AND bit64 index \<noteq> 0),
                           r_latency := latency, r_wave := slot_wave\<rparr>;
            c = upd_reply index (\<lambda>_. stored) c;
            c = account index c;
            c = actions_merge (e_alloc e) mc lc index slot_wave c
        in sessions_merge (e_alloc e) (e_buf e) index c)"

definition on_reply ::
  "env \<Rightarrow> main_conf \<Rightarrow> loc_conf \<Rightarrow> nat \<Rightarrow> nat \<Rightarrow> reply \<Rightarrow> 'a node_scheme \<Rightarrow> 'a node_scheme" where
  "on_reply e mc lc s index reply nd =
     (let p = slot_ctx nd s in
      case current_wave lc (wk_ctx nd p) of
        None \<Rightarrow> nd
      | Some w \<Rightarrow>
          let b = bit64 index in
          if b AND w_all w = 0 then nd
          else if sl_got (slot_at nd s) AND b \<noteq> 0 then nd
          else
            let nd = upd_slot s (sl_got_update (\<lambda>g. g OR b)) nd;
                nd = upd_ctx p (upd_ph (p_got_update (\<lambda>g. g OR b))) nd;
                nd = breaker_account e mc b (r_verdict reply = V_ERROR) nd;
                nd = upd_ctx p (absorb e mc lc index reply w
                                  (wk_now nd - sl_published (slot_at nd s)) (sl_wave (slot_at nd s))) nd;
                gating = (b AND wave_gating (wk_ctx nd p) w \<noteq> 0)
            in if r_verdict reply = V_ERROR
               then (if gating
                     then resume e mc lc s
                            (upd_ctx p (upd_ph (p_fail_update (\<lambda>_.
                               if r_overload reply then CODE_FAIL_OVERLOAD else CODE_FAIL_INSPECTOR))) nd)
                     else settle e mc lc s nd)
               else if r_verdict reply = V_DENY \<or> r_verdict reply = V_REDIRECT
               then
                 let nd = upd_slot s (sl_denied_update (\<lambda>d. d OR b)) nd
                 in if lc_deny_mode lc (c_phase (wk_ctx nd p)) = DENY_FAST \<and> gating
                    then resume e mc lc s nd
                    else settle e mc lc s nd
               else settle e mc lc s nd)"

definition omit :: "nat \<Rightarrow> mask \<Rightarrow> entry_state \<Rightarrow> 'a worker_scheme \<Rightarrow> 'a worker_scheme" where
  "omit s m state nd =
     (let p = slot_ctx nd s;
          nd = upd_ctx p (upd_ph (\<lambda>q.
                 if state = ENTRY_SKIPPED then q\<lparr>p_skipped := p_skipped q OR m\<rparr>
                 else q\<lparr>p_controlled := p_controlled q OR m\<rparr>)) nd;
          nd = upd_slot s (sl_got_update (\<lambda>g. g OR m)) nd
      in upd_ctx p (\<lambda>c. fold (\<lambda>index. upd_reply index (r_state_update (\<lambda>_. state))) (bits_of m) c) nd)"

definition skip :: "env \<Rightarrow> main_conf \<Rightarrow> loc_conf \<Rightarrow> nat \<Rightarrow> nat \<Rightarrow> code \<Rightarrow> 'a node_scheme \<Rightarrow> 'a node_scheme" where
  "skip e mc lc s index cd nd =
     (let p = slot_ctx nd s in
      case current_wave lc (wk_ctx nd p) of
        None \<Rightarrow> nd
      | Some w \<Rightarrow>
          let b = bit64 index in
          if b AND w_all w = 0 \<or> sl_got (slot_at nd s) AND b \<noteq> 0 then nd
          else
            let nd = upd_slot s (sl_got_update (\<lambda>g. g OR b)) nd;
                nd = upd_ctx p (upd_ph (p_skipped_update (\<lambda>k. k OR b))) nd;
                nd = upd_ctx p (upd_reply index (r_state_update (\<lambda>_.
                       if cd = CODE_FAIL_ABSENT then ENTRY_ABSENT else ENTRY_SKIPPED))) nd;
                nd = (if b AND wave_mandatory (wk_ctx nd p) w \<noteq> 0
                      then upd_ctx p (upd_ph (p_fail_update (\<lambda>_. cd))) nd else nd)
            in settle e mc lc s nd)"

subsection \<open>The deadline\<close>

definition fail :: "env \<Rightarrow> main_conf \<Rightarrow> loc_conf \<Rightarrow> nat \<Rightarrow> 'a node_scheme \<Rightarrow> 'a node_scheme" where
  "fail e mc lc s nd =
     (let p = slot_ctx nd s; slot = slot_at nd s;
          nd = breaker_account e mc (sl_awaited slot AND NOT (sl_got slot)) True nd;
          all_in = (case current_wave lc (wk_ctx nd p) of
                      None \<Rightarrow> False
                    | Some w \<Rightarrow> sl_got slot AND wave_mandatory (wk_ctx nd p) w
                                = wave_mandatory (wk_ctx nd p) w);
          nd = (if all_in then nd
                else upd_ctx p (upd_ph (p_fail_update (\<lambda>_. CODE_FAIL_TIMEOUT))) nd)
      in resume e mc lc s nd)"

definition line_expired :: "loc_conf \<Rightarrow> phase \<Rightarrow> msec \<Rightarrow> msec \<Rightarrow> nat \<Rightarrow> bool" where
  "line_expired lc phase published now index \<longleftrightarrow>
     (case binding_find lc index phase of
        None \<Rightarrow> False
      | Some b \<Rightarrow> b_timeout b \<noteq> 0 \<and> msec_diff (published + b_timeout b) now \<le> 0)"

definition expire :: "env \<Rightarrow> main_conf \<Rightarrow> loc_conf \<Rightarrow> nat \<Rightarrow> 'a node_scheme \<Rightarrow> 'a node_scheme" where
  "expire e mc lc s nd =
     (let p = slot_ctx nd s; slot = slot_at nd s in
      case current_wave lc (wk_ctx nd p) of
        None \<Rightarrow> fail e mc lc s nd
      | Some w \<Rightarrow>
          let out = filter (line_expired lc (c_phase (wk_ctx nd p)) (sl_published slot) (wk_now nd))
                      (bits_of (sl_awaited slot AND NOT (sl_got slot)));
              expired = fold (\<lambda>i m. m OR bit64 i) out 0;
              nd = upd_ctx p (fold (\<lambda>i. upd_reply i (r_state_update (\<lambda>_. ENTRY_TIMEOUT))) out) nd
          in if expired = 0 then deadline_arm lc p s nd
             else
               let nd = breaker_account e mc expired True nd;
                   nd = upd_slot s (sl_got_update (\<lambda>g. g OR expired)) nd;
                   nd = (if expired AND wave_mandatory (wk_ctx nd p) w \<noteq> 0
                         then upd_ctx p (upd_ph (p_fail_update (\<lambda>_. CODE_FAIL_TIMEOUT))) nd else nd)
               in if wave_closed (slot_at nd s) then settle e mc lc s nd
                  else deadline_arm lc p s nd)"

definition on_deadline :: "env \<Rightarrow> main_conf \<Rightarrow> loc_conf \<Rightarrow> nat \<Rightarrow> 'a node_scheme \<Rightarrow> 'a node_scheme" where
  "on_deadline e mc lc p nd =
     (if \<not> c_waiting (wk_ctx nd p) then nd
      else case slot_lookup (c_rid (wk_ctx nd p)) nd of
        None \<Rightarrow> nd
      | Some s \<Rightarrow>
          if msec_diff (p_due (ph (wk_ctx nd p))) (wk_now nd) > 0 then expire e mc lc s nd
          else fail e mc lc s nd)"

subsection \<open>Publishing a wave\<close>

text \<open>
  The message for one inspector: \<open>NGX_ERROR\<close> ends the publishing of the wave. A continuation
  kept for the inspector is asked at its own subject, once.
\<close>

definition resume_asked_for :: "env \<Rightarrow> loc_conf \<Rightarrow> nat \<Rightarrow> ctx \<Rightarrow> rc \<times> ctx" where
  "resume_asked_for e lc index c =
     (if c_phase c = PH_REQUEST \<and> resume_wanted lc index (c_phase c)
      then resume_ask (e_cln_resume e) index c else (NGX_OK, c))"

definition publish_msg ::
  "env \<Rightarrow> main_conf \<Rightarrow> loc_conf \<Rightarrow> nat \<Rightarrow> nat \<Rightarrow> 'a node_scheme \<Rightarrow> rc \<times> 'a node_scheme" where
  "publish_msg e mc lc p index nd =
     (let c = wk_ctx nd p; wave = p_wave (ph c);
          personal = resume_subject lc (wk_now nd) c index;
          subject = (case personal of
                       None \<Rightarrow> i_subject (mc_inspectors mc ! index) | Some subj \<Rightarrow> subj);
          r = fst (resume_asked_for e lc index c);
          nd = upd_ctx p (\<lambda>c. snd (resume_asked_for e lc index c)) nd
      in if r \<noteq> NGX_OK \<or> \<not> e_msg e wave index then (NGX_ERROR, nd)
         else
           let nd = (if personal \<noteq> None then upd_ctx p (resume_forget index) nd else nd) in
           if \<not> e_publish e wave index then (NGX_ERROR, nd)
           else
             let nd = nd\<lparr>nd_sent := nd_sent nd @ [(c_rid (wk_ctx nd p), index, subject)]\<rparr>
             in (NGX_OK, if personal \<noteq> None
                         then upd_ctx p (upd_ph (p_personal_update (\<lambda>m. m OR bit64 index))) nd
                         else nd))"

text \<open>One turn of the loop: \<open>None\<close> when it goes on without a message.\<close>

definition publish_one ::
  "env \<Rightarrow> main_conf \<Rightarrow> loc_conf \<Rightarrow> nat \<Rightarrow> nat \<Rightarrow> nat \<Rightarrow> 'a node_scheme \<Rightarrow> rc option \<times> 'a node_scheme" where
  "publish_one e mc lc p s index nd =
     (if index \<ge> length (mc_inspectors mc) then (None, nd)
      else
        let nd = upd_ctx p (upd_ph (p_published_update (\<lambda>m. m OR bit64 index))) nd;
            rb = breaker_allow (e_crc e) (wk_now nd) index (mc_inspectors mc ! index) (nd_breakers nd);
            nd = nd\<lparr>nd_breakers := snd rb\<rparr>
        in if fst rb \<noteq> NGX_OK then (None, skip e mc lc s index CODE_FAIL_TIMEOUT nd)
           else map_prod Some id (publish_msg e mc lc p index nd))"

fun publish_loop ::
  "env \<Rightarrow> main_conf \<Rightarrow> loc_conf \<Rightarrow> nat \<Rightarrow> nat \<Rightarrow> nat list \<Rightarrow> nat \<Rightarrow> 'a node_scheme
   \<Rightarrow> rc \<times> nat \<times> 'a node_scheme" where
  "publish_loop e mc lc p s [] published nd = (NGX_OK, published, nd)"
| "publish_loop e mc lc p s (index # rest) published nd =
     (case publish_one e mc lc p s index nd of
        (None, nd) \<Rightarrow> publish_loop e mc lc p s rest published nd
      | (Some r, nd) \<Rightarrow>
          if r = NGX_OK then publish_loop e mc lc p s rest (published + 1) nd
          else (r, published, nd))"

definition wave_omit :: "env \<Rightarrow> loc_conf \<Rightarrow> nat \<Rightarrow> nat \<Rightarrow> wave \<Rightarrow> 'a node_scheme \<Rightarrow> 'a node_scheme" where
  "wave_omit e lc p s w nd =
     (let (off, c) = cond_off e lc (wk_ctx nd p);
          nd = upd_ctx p (\<lambda>_. c) nd;
          off = off AND w_all w AND NOT (sl_got (slot_at nd s));
          nd = (if off \<noteq> 0 then omit s off ENTRY_SKIPPED nd else nd);
          off = wave_off (wk_ctx nd p) w AND NOT (sl_got (slot_at nd s))
      in if off \<noteq> 0 then omit s off ENTRY_OFF nd else nd)"

definition bus_publish_wave ::
  "env \<Rightarrow> main_conf \<Rightarrow> loc_conf \<Rightarrow> nat \<Rightarrow> nat \<Rightarrow> 'a node_scheme \<Rightarrow> rc \<times> 'a node_scheme" where
  "bus_publish_wave e mc lc p s nd =
     (if \<not> e_bus e then (NGX_ERROR, nd)
      else case current_wave lc (wk_ctx nd p) of
        None \<Rightarrow> (NGX_ERROR, nd)
      | Some w \<Rightarrow>
          let nd = wave_omit e lc p s w nd;
              pending = w_all w AND NOT (sl_got (slot_at nd s));
              c = wk_ctx nd p;
              nd = upd_slot s (\<lambda>sl. sl\<lparr>sl_awaited :=
                     (wave_mandatory c w OR wave_passive c w) AND NOT (sl_got sl)\<rparr>) nd;
              nd = upd_ctx p (upd_ph (p_wave_published_update (\<lambda>_. sl_published (slot_at nd s)))) nd;
              (r, published, nd) = publish_loop e mc lc p s (bits_of pending) 0 nd
          in if r \<noteq> NGX_OK then (r, nd)
             else if published = 0
                  \<and> wave_mandatory (wk_ctx nd p) w AND NOT (sl_got (slot_at nd s)) \<noteq> 0
             then (NGX_ERROR, nd)
             else (NGX_OK, nd))"

definition bus_absent ::
  "env \<Rightarrow> main_conf \<Rightarrow> loc_conf \<Rightarrow> u64 \<Rightarrow> nat \<Rightarrow> 'a node_scheme \<Rightarrow> 'a node_scheme" where
  "bus_absent e mc lc rid index nd =
     (case slot_lookup rid nd of
        None \<Rightarrow> nd
      | Some s \<Rightarrow>
          let p = slot_ctx nd s; c = wk_ctx nd p; b = bit64 index in
          if index \<ge> length (mc_inspectors mc) then nd
          else if p_personal (ph c) AND b = 0 \<or> p_got (ph c) AND b \<noteq> 0
          then skip e mc lc s index CODE_FAIL_ABSENT nd
          else
            let nd = upd_ctx p (upd_ph (p_personal_update (\<lambda>m. m AND NOT b))) nd in
            if (case binding_find lc index (c_phase c) of
                  None \<Rightarrow> True | Some bd \<Rightarrow> b_resume bd \<noteq> RESUME_PREFER)
            then skip e mc lc s index CODE_FAIL_ABSENT nd
            else if \<not> e_msg e (p_wave (ph c)) index then skip e mc lc s index CODE_FAIL_BUS nd
            else if \<not> e_publish e (p_wave (ph c)) index then skip e mc lc s index CODE_FAIL_BUS nd
            else nd\<lparr>nd_sent := nd_sent nd @ [(c_rid c, index, i_subject (mc_inspectors mc ! index))]\<rparr>)"

text \<open>
  \<open>decode\<close> is the decoder of the answers: \<open>None\<close> when it rejects the payload, and the continuations
  of the request as it leaves them. It is the only part of the context the decoder writes (theory
  \<^verbatim>\<open>Reply_Props\<close>).
\<close>

type_synonym decoder = "ctx \<Rightarrow> nat \<Rightarrow> bytes \<Rightarrow> reply option \<times> cont list option"

definition bus_dispatch ::
  "env \<Rightarrow> main_conf \<Rightarrow> loc_conf \<Rightarrow> decoder \<Rightarrow> u64 \<Rightarrow> nat \<Rightarrow> bytes \<Rightarrow> 'a node_scheme \<Rightarrow> 'a node_scheme" where
  "bus_dispatch e mc lc decode rid index payload nd =
     (case slot_lookup rid nd of
        None \<Rightarrow> nd
      | Some s \<Rightarrow>
          if index \<ge> length (mc_inspectors mc) then nd
          else
            let answer = decode (wk_ctx nd (slot_ctx nd s)) index payload;
                nd = upd_ctx (slot_ctx nd s) (c_cont_update (\<lambda>_. snd answer)) nd
            in case fst answer of
                 None \<Rightarrow> nd
               | Some reply \<Rightarrow> on_reply e mc lc s index reply nd)"

subsection \<open>The end of a phase\<close>

definition finish_done :: "env \<Rightarrow> nat \<Rightarrow> 'a worker_scheme \<Rightarrow> ret \<times> 'a worker_scheme" where
  "finish_done e p nd =
     (let nd = upd_ctx p (c_state_update (\<lambda>_. ST_DONE)) nd;
          discard = upd_ctx p (\<lambda>c. if p_body_ready (ph c) \<or> p_body_discarded (ph c) then c
                                  else upd_ph (p_body_discarded_update (\<lambda>_. True)) c)
      in if phase_is_frame (c_phase (wk_ctx nd p))
         then (e_frame_finish e (c_finish_how (wk_ctx nd p)), nd)
         else case c_finish_how (wk_ctx nd p) of
           FINISH_APPLY \<Rightarrow>
             if e_form_fetch e = NGX_AGAIN \<or> e_send_fetch e = NGX_AGAIN
             then (RET NGX_DONE, upd_ctx p (c_state_update (\<lambda>_. ST_FETCHING_FORM)) nd)
             else if e_apply e \<noteq> RET NGX_DECLINED \<and> e_apply e \<noteq> RET NGX_DONE
             then (e_apply e, discard nd)
             else (e_apply e, nd)
         | FINISH_OVERRIDES \<Rightarrow> (e_overrides e, nd)
         | FINISH_FAIL \<Rightarrow> (e_fail_status e, discard nd))"

text \<open>The branch of the access handler that starts reading the body of the request.\<close>

definition read_body :: "env \<Rightarrow> nat \<Rightarrow> 'a worker_scheme \<Rightarrow> ret \<times> 'a worker_scheme" where
  "read_body e p nd =
     (let nd = upd_ctx p (c_state_update (\<lambda>_. ST_READING_BODY)) nd
      in (case e_read_body e of STATUS n \<Rightarrow> STATUS n | RET _ \<Rightarrow> RET NGX_DONE, nd))"

definition finish :: "env \<Rightarrow> finish_how \<Rightarrow> nat \<Rightarrow> 'a worker_scheme \<Rightarrow> ret \<times> 'a worker_scheme" where
  "finish e how p nd =
     (let nd = deadline_stop p nd;
          nd = slot_drop p nd;
          nd = upd_ctx p (c_finish_how_update (\<lambda>_. how)) nd
      in if \<not> p_agent_settled (ph (wk_ctx nd p))
         then (if c_phase (wk_ctx nd p) = PH_REQUEST \<and> e_agent_needs_body e
               then read_body e p
                      (upd_ctx p (\<lambda>c. (upd_ph (p_agent_after_body_update (\<lambda>_. True)) c)
                                        \<lparr>c_state := ST_NEED_BODY\<rparr>) nd)
               else finish_done e p (upd_ctx p (upd_ph (p_agent_settled_update (\<lambda>_. True))) nd))
         else finish_done e p nd)"

definition fail_policy :: "env \<Rightarrow> loc_conf \<Rightarrow> nat \<Rightarrow> 'a worker_scheme \<Rightarrow> ret \<times> 'a worker_scheme" where
  "fail_policy e lc p nd =
     (let nd = upd_ctx p (c_state_update (\<lambda>_. ST_DONE)) nd;
          (policy, exc) = exception_policy lc (wk_ctx nd p)
      in if policy = POLICY_PASS then finish e FINISH_APPLY p nd
         else
           let nd = upd_ctx p (\<lambda>c. (upd_ph (\<lambda>q. q\<lparr>p_code := p_fail q, p_fail_blocked := True\<rparr>) c)
                      \<lparr>c_exception_response := lc_exception_response lc (c_phase c) exc\<rparr>) nd
           in finish e FINISH_FAIL p nd)"

definition phase_apply :: "env \<Rightarrow> loc_conf \<Rightarrow> nat \<Rightarrow> 'a worker_scheme \<Rightarrow> ret \<times> 'a worker_scheme" where
  "phase_apply e lc p nd =
     (if c_state (wk_ctx nd p) \<in> {ST_ALLOW, ST_DENY, ST_REDIRECT}
      then finish e FINISH_APPLY p (upd_ctx p (c_state_update (\<lambda>_. ST_DONE)) nd)
      else fail_policy e lc p nd)"

end
