(* ===== verification/Handler_Laws.thy ===== *)
theory Handler_Laws
  imports Handler
begin

text \<open>
  What the handlers do to one request. Every handler is a composition of a few kinds of steps on a
  context; the locale \<open>ctx_law\<close> takes a relation between contexts that these steps respect and
  lifts it to the handlers, and its interpretations are the facts the properties rest on.
\<close>

subsection \<open>Frame facts of the worker\<close>

lemma node_upd_ctx [simp]:
  "nd_breakers (upd_ctx p f nd) = nd_breakers nd" "nd_sent (upd_ctx p f nd) = nd_sent nd"
  "nd_ready (upd_ctx p f nd) = nd_ready nd"
  by (simp_all add: upd_ctx_def)

lemma upd_slot_frame [simp]:
  "wk_ctx (upd_slot s f nd) = wk_ctx nd" "wk_now (upd_slot s f nd) = wk_now nd"
  "nd_breakers (upd_slot s f nd') = nd_breakers nd'" "nd_ready (upd_slot s f nd') = nd_ready nd'"
  "t_nslots (wk_tab (upd_slot s f nd)) = t_nslots (wk_tab nd)"
  by (simp_all add: upd_slot_def)

lemma slot_at_upd_slot:
  "s < length (t_slots (wk_tab nd)) \<Longrightarrow>
   slot_at (upd_slot s f nd) k = (if k = s then f (slot_at nd s) else slot_at nd k)"
  by (simp add: slot_at_def upd_slot_def nth_list_update)

lemma node_updates [simp]:
  "wk_ctx (nd\<lparr>nd_breakers := bs\<rparr>) = wk_ctx nd" "wk_tab (nd\<lparr>nd_breakers := bs\<rparr>) = wk_tab nd"
  "wk_ctx (nd\<lparr>nd_sent := ms\<rparr>) = wk_ctx nd" "wk_ctx (nd\<lparr>nd_ready := rs\<rparr>) = wk_ctx nd"
  "slot_at (nd\<lparr>nd_breakers := bs\<rparr>) s = slot_at nd s" "slot_at (nd\<lparr>nd_sent := ms\<rparr>) s = slot_at nd s"
  "slot_at (nd\<lparr>nd_ready := rs\<rparr>) s = slot_at nd s"
  by (simp_all add: slot_at_def)

lemma slot_release_ctx:
  "wk_ctx (slot_release s nd) q = wk_ctx nd q
   \<or> wk_ctx (slot_release s nd) q = (wk_ctx nd q)\<lparr>c_slot := SLOT_NIL\<rparr>"
  by (auto simp: slot_release_def Let_def split: option.split)

lemma slot_release_now [simp]:
  "wk_now (slot_release s nd) = wk_now nd" "nd_ready (slot_release s nd') = nd_ready nd'"
  by (auto simp: slot_release_def Let_def upd_slot_def upd_ctx_def split: option.split)

lemma breaker_account_frame [simp]:
  "wk_ctx (breaker_account e mc m t nd) = wk_ctx nd" "wk_tab (breaker_account e mc m t nd) = wk_tab nd"
  "wk_now (breaker_account e mc m t nd) = wk_now nd" "nd_ready (breaker_account e mc m t nd) = nd_ready nd"
  "slot_at (breaker_account e mc m t nd) s = slot_at nd s"
proof -
  have "wk_ctx (fold (\<lambda>index nd. if index \<ge> n then nd else nd\<lparr>nd_breakers := f index nd\<rparr>) is' nd) = wk_ctx nd
      \<and> wk_tab (fold (\<lambda>index nd. if index \<ge> n then nd else nd\<lparr>nd_breakers := f index nd\<rparr>) is' nd) = wk_tab nd
      \<and> wk_now (fold (\<lambda>index nd. if index \<ge> n then nd else nd\<lparr>nd_breakers := f index nd\<rparr>) is' nd) = wk_now nd
      \<and> nd_ready (fold (\<lambda>index nd. if index \<ge> n then nd else nd\<lparr>nd_breakers := f index nd\<rparr>) is' nd) = nd_ready nd"
    for is' n f and nd :: "'a node_scheme"
    by (induction is' arbitrary: nd) auto
  from this [of "length (mc_inspectors mc)" "\<lambda>index nd. breaker_result (e_crc e) (wk_now nd) index
      (mc_inspectors mc ! index) t (nd_breakers nd)" "bits_of m" nd]
  show "wk_ctx (breaker_account e mc m t nd) = wk_ctx nd" "wk_tab (breaker_account e mc m t nd) = wk_tab nd"
    "wk_now (breaker_account e mc m t nd) = wk_now nd" "nd_ready (breaker_account e mc m t nd) = nd_ready nd"
    "slot_at (breaker_account e mc m t nd) s = slot_at nd s"
    by (simp_all add: breaker_account_def slot_at_def)
qed

lemma slot_ctx_frame [simp]:
  "slot_ctx (upd_ctx p f nd) s = slot_ctx nd s" "slot_ctx (breaker_account e mc m t nd') s = slot_ctx nd' s"
  by (simp_all add: slot_ctx_def)

subsection \<open>Steps on a context\<close>

text \<open>
  The part of a phase that decides about it. A step that leaves it alone, together with the control
  masks and the arrays of the request, is inert.
\<close>

definition unstate :: "reply \<Rightarrow> reply" where
  "unstate r = r\<lparr>r_state := ENTRY_ANSWERED\<rparr>"

definition kern where
  "kern p = (p_wave p, p_fail p, p_score p, p_due p, p_body_policy p,
             map_option (map unstate) (p_replies p))"

definition inert :: "ctx \<Rightarrow> ctx \<Rightarrow> bool" where
  "inert c c' \<longleftrightarrow>
     c_phase c' = c_phase c \<and> c_ctl c' = c_ctl c \<and> c_actions c' = c_actions c
     \<and> c_markers c' = c_markers c \<and> c_sessions c' = c_sessions c
     \<and> kern (ph c') = kern (ph c)"

lemma inert_refl [simp]: "inert c c"
  by (simp add: inert_def)

lemma inert_trans: "inert a b \<Longrightarrow> inert b c \<Longrightarrow> inert a c"
  by (simp add: inert_def)

lemma inert_fields [simp]:
  "inert c (c\<lparr>c_slot := sl\<rparr>)" "inert c (c_slot_update fsl c)" "inert c (c_timer_update ft c)"
  "inert c (c_waiting_update fw c)" "inert c (c_state_update fs c)" "inert c (c\<lparr>c_state := st\<rparr>)"
  "inert c (c_finish_how_update fh c)"
  "inert c (c\<lparr>c_slot := sl, c_rid := rid, c_rid_hex := hex\<rparr>)"
  "inert c (c_cont_update fc c)" "inert c (c\<lparr>c_resume_asked := ra\<rparr>)" "inert c (c\<lparr>c_resume_asked := ra, c_cont := ct\<rparr>)"
  by (simp_all add: inert_def ph_def)

lemma inert_upd_ph: "kern (f (ph c)) = kern (ph c) \<Longrightarrow> inert c (upd_ph f c)"
  by (simp add: inert_def)

lemma inert_ph_fields [simp]:
  "inert c (upd_ph (p_got_update f1) c)" "inert c (upd_ph (p_skipped_update f1) c)"
  "inert c (upd_ph (p_published_update f1) c)" "inert c (upd_ph (p_personal_update f1) c)"
  "inert c (upd_ph (p_wave_published_update f2) c)" "inert c (upd_ph (p_agent_settled_update f3) c)"
  "inert c (upd_ph (p_agent_after_body_update f3) c)" "inert c (upd_ph (p_body_discarded_update f3) c)"
  by (rule inert_upd_ph, simp add: kern_def)+

lemma inert_reply_state [simp]: "inert c (upd_reply i (r_state_update f) c)"
proof -
  have "map unstate (rs[i := r_state_update f (rs ! i)]) = map unstate rs" for rs
    by (rule list_update_map_id) (simp add: unstate_def)
  then show ?thesis
    by (cases "p_replies (ph c)") (simp_all add: inert_def kern_def)
qed

lemma inert_fold_reply_state [simp]:
  "inert c (fold (\<lambda>i. upd_reply i (r_state_update f)) is' c)"
  by (induction is' arbitrary: c) (auto intro: inert_trans [OF inert_reply_state])

lemma inert_resolve [simp]: "inert c (resolve_verdict mc lc c)"
proof -
  have "c_actions (resolve_verdict mc lc c) = c_actions c \<and> c_markers (resolve_verdict mc lc c) = c_markers c
    \<and> c_sessions (resolve_verdict mc lc c) = c_sessions c \<and> p_due (ph (resolve_verdict mc lc c)) = p_due (ph c)"
    by (simp add: resolve_verdict_def Let_def split: option.split)
  then show ?thesis by (simp add: inert_def kern_def)
qed

lemma inert_fail_pass [simp]: "inert c (fail_pass lc c)"
  by (simp add: fail_pass_def)

lemma inert_cond_off [simp]: "inert c (snd (cond_off e lc c))"
  by (auto simp: cond_off_def Let_def kern_def intro!: inert_upd_ph)

lemma inert_resume [simp]:
  "inert c (snd (resume_ask ok index c))" "inert c (resume_forget index c)"
  by (auto simp: resume_ask_def resume_forget_def Let_def inert_def ph_def split: option.split)

lemma rewrite_settle_cases:
  "inert c (rewrite_settle e mc got c) \<or> rewrite_settle e mc got c = rewrite_fail c"
proof -
  have "inert c (rewrite_publish e found c) \<or> rewrite_publish e found c = rewrite_fail c" for found
    by (auto simp: rewrite_publish_def Let_def kern_def split: option.split intro!: inert_upd_ph)
  then show ?thesis
    by (auto simp: rewrite_settle_def split: option.split list.split)
qed

subsection \<open>Lifting a relation to the handlers\<close>

locale ctx_law =
  fixes R :: "ctx \<Rightarrow> ctx \<Rightarrow> bool" and A :: "nat set" and L :: loc_conf
  assumes R_refl: "R c c"
    and R_trans: "R c d \<Longrightarrow> R d f \<Longrightarrow> R c f"
    and R_inert: "inert c c' \<Longrightarrow> R c c'"
    and R_fail: "cd \<noteq> CODE_NONE \<Longrightarrow> R c (upd_ph (p_fail_update (\<lambda>_. cd)) c)"
    and R_wave: "R c (upd_ph (p_wave_update Suc) c)"
    and R_absorb: "index \<in> A \<Longrightarrow> R c (absorb e mc L index reply w latency slot_wave c)"
begin

definition lifted :: "'a worker_scheme \<Rightarrow> 'a worker_scheme \<Rightarrow> bool" where
  "lifted nd nd' \<longleftrightarrow> (\<forall>q. R (wk_ctx nd q) (wk_ctx nd' q))"

lemma lifted_refl: "lifted nd nd"
  by (simp add: lifted_def R_refl)

lemma lifted_trans: "lifted a b \<Longrightarrow> lifted b c \<Longrightarrow> lifted a c"
  unfolding lifted_def by (blast intro: R_trans)

lemma lifted_upd_ctx: "lifted a b \<Longrightarrow> (\<And>c. R c (f c)) \<Longrightarrow> lifted a (upd_ctx p f b)"
  unfolding lifted_def by (auto intro: R_trans)

lemma lifted_inert: "lifted a b \<Longrightarrow> (\<And>c. inert c (f c)) \<Longrightarrow> lifted a (upd_ctx p f b)"
  by (rule lifted_upd_ctx) (auto intro: R_inert)

lemma lifted_same: "lifted a b \<Longrightarrow> wk_ctx b' = wk_ctx b \<Longrightarrow> lifted a b'"
  by (simp add: lifted_def)

lemma lifted_release: "lifted a b \<Longrightarrow> lifted a (slot_release s b)"
  unfolding lifted_def using slot_release_ctx [of s b] R_trans R_inert [OF inert_fields(1)] by metis

lemma lifted_rewrite: "lifted a b \<Longrightarrow> lifted a (upd_ctx p (rewrite_settle e mc got) b)"
proof (erule lifted_upd_ctx)
  fix c show "R c (rewrite_settle e mc got c)"
    using rewrite_settle_cases [of c e mc got] R_inert [of c "rewrite_settle e mc got c"] R_fail [of CODE_FAIL_BODY c]
    by (auto simp: rewrite_fail_def)
qed

lemma lifted_const:
  "lifted a b \<Longrightarrow> inert (wk_ctx b p) c \<Longrightarrow> lifted a (upd_ctx p (\<lambda>_. c) b)"
  unfolding lifted_def by (auto intro: R_trans R_inert)

lemma lifted_set_fail:
  assumes "lifted a b" "cd \<noteq> CODE_NONE"
  shows "lifted a (upd_ctx p (upd_ph (p_fail_update (\<lambda>_. cd))) b)"
  using assms(1) by (rule lifted_upd_ctx) (rule R_fail [OF assms(2)])

lemma lifted_upd_slot: "lifted a b \<Longrightarrow> lifted a (upd_slot s f b)"
  by (erule lifted_same, simp)

lemma lifted_slot_breaker:
  "lifted a b' \<Longrightarrow> lifted a (upd_slot s f b')"
  "lifted a b' \<Longrightarrow> lifted a (breaker_account e mc m t b')"
  "lifted a b' \<Longrightarrow> lifted a (b'\<lparr>nd_breakers := bs\<rparr>)"
  "lifted a b' \<Longrightarrow> lifted a (b'\<lparr>nd_sent := ms\<rparr>)" "lifted a b' \<Longrightarrow> lifted a (b'\<lparr>nd_ready := rs\<rparr>)"
  by (erule lifted_same, simp)+

lemma lifted_if: "(P \<Longrightarrow> lifted a x) \<Longrightarrow> (\<not> P \<Longrightarrow> lifted a y) \<Longrightarrow> lifted a (if P then x else y)"
  by simp

lemma lifted_option:
  "lifted a n \<Longrightarrow> (\<And>w. x = Some w \<Longrightarrow> lifted a (f w)) \<Longrightarrow> lifted a (case x of None \<Rightarrow> n | Some w \<Rightarrow> f w)"
  by (cases x) simp_all

lemma lifted_return: "lifted a b \<Longrightarrow> lifted a (return_to_phases p b)"
  unfolding return_to_phases_def Let_def by (intro lifted_slot_breaker lifted_inert) simp_all

lemma lifted_conclude: "lifted a b \<Longrightarrow> lifted a (conclude mc lc s b)"
  unfolding conclude_def Let_def deadline_stop_def
  by (intro lifted_return lifted_inert lifted_release) simp_all

lemma lifted_next_wave:
  "lifted a b \<Longrightarrow> lifted a (upd_ctx p (\<lambda>c. (upd_ph (p_wave_update Suc) c)\<lparr>c_state := ST_NEXT_WAVE\<rparr>) b)"
  by (erule lifted_upd_ctx) (rule R_trans [OF R_wave R_inert [OF inert_fields(6)]])

lemma lifted_settle:
  assumes "lifted a b" shows "lifted a (settle e mc lc s b)"
  unfolding settle_def Let_def
  by (intro lifted_if lifted_return lifted_conclude lifted_next_wave lifted_release lifted_rewrite assms)

lemma lifted_resume:
  assumes "lifted a b" shows "lifted a (resume e mc lc s b)"
  unfolding resume_def by (intro lifted_option lifted_conclude lifted_rewrite assms)

lemma lifted_skip:
  assumes "lifted a b" "cd \<noteq> CODE_NONE" shows "lifted a (skip e mc lc s index cd b)"
  unfolding skip_def Let_def
  by (intro lifted_option lifted_if lifted_settle lifted_set_fail lifted_inert lifted_slot_breaker assms)
     simp_all

lemma lifted_absorb:
  "lifted a b \<Longrightarrow> index \<in> A \<Longrightarrow> lifted a (upd_ctx p (absorb e mc L index reply w lat sw) b)"
  by (erule lifted_upd_ctx) (rule R_absorb)

lemma lifted_on_reply:
  assumes "lifted a b" "index \<in> A" shows "lifted a (on_reply e mc L s index reply b)"
proof -
  have base: "lifted a (upd_ctx p (absorb e mc L index reply w lat sw) (breaker_account e mc (bit64 index) t
      (upd_ctx p (upd_ph (p_got_update f)) (upd_slot s g b))))" for p w lat sw t f g
    by (intro lifted_absorb lifted_slot_breaker lifted_inert assms) simp
  show ?thesis
    unfolding on_reply_def Let_def
    by (intro lifted_option lifted_if lifted_settle lifted_resume lifted_set_fail lifted_slot_breaker(1) base
        assms) simp_all
qed

lemma lifted_fail:
  assumes "lifted a b" shows "lifted a (fail e mc lc s b)"
  unfolding fail_def Let_def
  by (intro lifted_resume lifted_if lifted_set_fail lifted_slot_breaker assms) simp_all

lemma lifted_arm:
  assumes "lifted a b" shows "lifted a (deadline_arm lc p s b)"
  unfolding deadline_arm_def Let_def by (intro lifted_inert assms) simp_all

lemma lifted_expire:
  assumes "lifted a b" shows "lifted a (expire e mc lc s b)"
proof -
  have base: "lifted a (upd_ctx p (fold (\<lambda>i. upd_reply i (r_state_update (\<lambda>_. st))) js) b)" for p st js
    by (intro lifted_inert assms) simp
  show ?thesis
    unfolding expire_def Let_def
    by (intro lifted_option lifted_if lifted_fail lifted_arm lifted_settle lifted_set_fail
        lifted_slot_breaker base assms) simp_all
qed

lemma lifted_on_deadline:
  assumes "lifted a b" shows "lifted a (on_deadline e mc lc p b)"
  unfolding on_deadline_def by (intro lifted_if lifted_option lifted_expire lifted_fail assms)

lemma lifted_omit:
  assumes "lifted a b" shows "lifted a (omit s m st b)"
proof -
  have i: "inert c (upd_ph (\<lambda>q. if st = ENTRY_SKIPPED then q\<lparr>p_skipped := p_skipped q OR m\<rparr>
        else q\<lparr>p_controlled := p_controlled q OR m\<rparr>) c)" for c
    by (rule inert_upd_ph) (simp add: kern_def)
  show ?thesis
    unfolding omit_def Let_def by (intro lifted_inert lifted_upd_slot assms i) simp_all
qed

lemma lifted_publish_msg:
  assumes "lifted a b" shows "lifted a (snd (publish_msg e mc lc p index b))"
proof -
  have i: "inert c (snd (resume_asked_for e lc index c))" for c
    by (simp add: resume_asked_for_def)
  show ?thesis
    unfolding publish_msg_def Let_def if_distrib [of snd] snd_conv
    by (intro lifted_if lifted_slot_breaker lifted_inert assms i) simp_all
qed

lemma lifted_publish_one:
  assumes "lifted a b" shows "lifted a (snd (publish_one e mc lc p s index b))"
  unfolding publish_one_def Let_def if_distrib [of snd] snd_conv snd_map_prod id_apply
  by (intro lifted_if lifted_skip lifted_publish_msg lifted_slot_breaker lifted_inert assms) simp_all

lemma lifted_publish_loop:
  "lifted a b \<Longrightarrow> lifted a (snd (snd (publish_loop e mc lc p s js n b)))"
proof (induction js arbitrary: n b)
  case Nil
  then show ?case by simp
next
  case (Cons j js)
  obtain r b' where e: "publish_one e mc lc p s j b = (r, b')" by fastforce
  then have "lifted a b'" using lifted_publish_one [OF Cons.prems, of e mc lc p s j] by simp
  then show ?case using Cons.IH by (auto simp: e split: option.split)
qed

lemma lifted_wave_omit:
  assumes "lifted a b" shows "lifted a (wave_omit e lc p s w b)"
proof -
  have "lifted a (upd_ctx p (\<lambda>_. snd (cond_off e lc (wk_ctx b p))) b)"
    by (rule lifted_const [OF assms]) simp
  then show ?thesis
    unfolding wave_omit_def Let_def case_prod_unfold by (intro lifted_if lifted_omit)
qed

lemma lifted_publish_wave:
  assumes "lifted a b" shows "lifted a (snd (bus_publish_wave e mc lc p s b))"
proof -
  have i: "lifted a (upd_ctx p (upd_ph (p_wave_published_update f)) (upd_slot s g (wave_omit e lc p s w b)))" for f g w
    by (intro lifted_inert lifted_slot_breaker lifted_wave_omit assms) simp
  show ?thesis
    unfolding bus_publish_wave_def Let_def case_prod_unfold
    by (auto simp: assms split: option.split intro!: lifted_publish_loop i)
qed

lemma lifted_bus_absent:
  assumes "lifted a b" shows "lifted a (bus_absent e mc lc rid index b)"
  unfolding bus_absent_def Let_def
  by (intro lifted_option lifted_if lifted_skip lifted_slot_breaker lifted_inert assms) simp_all

lemma lifted_dispatch:
  assumes "lifted a b" "index \<in> A" shows "lifted a (bus_dispatch e mc L decode rid index payload b)"
  unfolding bus_dispatch_def Let_def by (intro lifted_option lifted_if lifted_on_reply lifted_inert assms) simp_all

lemmas lifted_ops = lifted_refl lifted_dispatch lifted_bus_absent lifted_on_deadline lifted_publish_wave
  lifted_on_reply lifted_skip lifted_fail lifted_expire lifted_settle lifted_resume lifted_conclude

end

subsection \<open>The laws of the model\<close>

lemma keeps_absorb_rest:
  "keeps (account index c) (sessions_merge al buf index (actions_merge al mc lc index wave (account index c)))"
  using keeps_actions_merge keeps_sessions_merge keeps_trans by blast

lemma account_frame [simp]:
  "c_phase (account i c) = c_phase c" "p_wave (ph (account i c)) = p_wave (ph c)"
  "p_fail (ph (account i c)) = p_fail (ph c)" "p_body_policy (ph (account i c)) = p_body_policy (ph c)"
  "c_state (account i c) = c_state c" "c_waiting (account i c) = c_waiting c" "p_due (ph (account i c)) = p_due (ph c)"
  "c_rid (account i c) = c_rid c" "c_slot (account i c) = c_slot c" "c_timer (account i c) = c_timer c"
  by (simp_all add: account_def account_score_def Let_def)

lemma absorb_frame [simp]:
  "c_phase (absorb e mc lc index reply w l sw c) = c_phase c"
  "p_wave (ph (absorb e mc lc index reply w l sw c)) = p_wave (ph c)"
  "p_fail (ph (absorb e mc lc index reply w l sw c)) = p_fail (ph c)"
  "p_body_policy (ph (absorb e mc lc index reply w l sw c)) = p_body_policy (ph c)"
  "c_state (absorb e mc lc index reply w l sw c) = c_state c"
  "c_waiting (absorb e mc lc index reply w l sw c) = c_waiting c"
  "p_due (ph (absorb e mc lc index reply w l sw c)) = p_due (ph c)"
  "c_rid (absorb e mc lc index reply w l sw c) = c_rid c" "c_slot (absorb e mc lc index reply w l sw c) = c_slot c"
  using keepsD [OF keeps_absorb_rest]
  by (simp_all add: absorb_def Let_def)

text \<open>The phase stays, the wave only goes up, a recorded failure is never forgotten.\<close>

interpretation grows: ctx_law
  "\<lambda>c c'. c_phase c' = c_phase c \<and> p_wave (ph c) \<le> p_wave (ph c')
        \<and> p_body_policy (ph c') = p_body_policy (ph c) \<and> p_due (ph c') = p_due (ph c)
        \<and> (p_fail (ph c) \<noteq> CODE_NONE \<longrightarrow> p_fail (ph c') \<noteq> CODE_NONE)" UNIV lc for lc
  by unfold_locales (auto simp: inert_def kern_def)

text \<open>The arrays of the request keep their bounds.\<close>

lemma arrays_ok_inert: "inert c c' \<Longrightarrow> arrays_ok lc c' = arrays_ok lc c"
  by (simp add: inert_def arrays_ok_def)

lemma absorb_arrays_ok: "arrays_ok lc c \<Longrightarrow> arrays_ok lc (absorb e mc lc index reply w l sw c)"
  by (simp add: absorb_def Let_def waf_inv)

interpretation arrays: ctx_law "\<lambda>c c'. arrays_ok lc c \<longrightarrow> arrays_ok lc c'" UNIV lc for lc
  by unfold_locales (auto simp: absorb_arrays_ok arrays_ok_inert)

end
