(* ===== verification/Wave_Start.thy ===== *)
theory Wave_Start
  imports Handler_Laws
begin

text \<open>
  Starting the waves of a phase and the access handler
  (\<open>ngx_http_waf_wave_start\<close>, \<open>ngx_http_waf_access\<close>, \<open>ngx_http_waf_phase_resume\<close>,
  \<open>ngx_http_waf_body_resumed\<close> and the local checks in
  \<open>src/module/src/runtime/ngx_http_waf_handler.c\<close>). A wave that nobody has to answer is closed
  at once, so \<open>wave_start\<close> goes on to the next one by recursion. The counters
  \<open>rate_charge_wave\<close> adds to live in shared memory and do not touch the request.
\<close>

subsection \<open>One wave\<close>

text \<open>The phase fails with a code: the slot goes back and the exception policy decides.\<close>

definition wave_failed ::
  "env \<Rightarrow> loc_conf \<Rightarrow> nat \<Rightarrow> nat option \<Rightarrow> code \<Rightarrow> 'a worker_scheme \<Rightarrow> ret \<times> 'a worker_scheme" where
  "wave_failed e lc p so cd nd =
     (let nd = (case so of None \<Rightarrow> nd | Some s \<Rightarrow> slot_release s nd);
          nd = upd_ctx p (\<lambda>c. (upd_ph (p_fail_update (\<lambda>_. cd)) c)\<lparr>c_state := ST_FAILED\<rparr>) nd
      in fail_policy e lc p nd)"

text \<open>
  The wave once its objects are in place: \<open>Inl\<close> is what \<open>wave_start\<close> returns, \<open>Inr\<close> the
  worker with which it goes on to the next wave.
\<close>

definition wave_prepare ::
  "main_conf \<Rightarrow> loc_conf \<Rightarrow> nat \<Rightarrow> nat \<Rightarrow> 'a node_scheme \<Rightarrow> 'a node_scheme" where
  "wave_prepare mc lc p s nd =
     (let nd = upd_ctx p (\<lambda>c. if p_replies (ph c) = None \<and> mc_inspectors mc \<noteq> []
                 then upd_ph (p_replies_update (\<lambda>_. Some (replicate (length (mc_inspectors mc)) reply0))) c
                 else c) nd;
          nd = upd_ctx p (\<lambda>c. if p_due (ph c) = 0
                 then upd_ph (p_due_update (\<lambda>_. wk_now nd + lc_deadline lc (c_phase c))) c else c) nd
      in upd_slot s (sl_published_update (\<lambda>_. wk_now nd)) nd)"

definition wave_publish ::
  "env \<Rightarrow> main_conf \<Rightarrow> loc_conf \<Rightarrow> nat \<Rightarrow> nat \<Rightarrow> 'a node_scheme
   \<Rightarrow> (ret \<times> 'a node_scheme) + 'a node_scheme" where
  "wave_publish e mc lc p s nd =
     (if p_replies (ph (wk_ctx nd p)) = None \<and> mc_inspectors mc \<noteq> [] \<and> \<not> e_replies_ok e
      then Inl (STATUS 500, slot_release s nd)
      else
        let (r, nd) = bus_publish_wave e mc lc p s (wave_prepare mc lc p s nd)
        in if r \<noteq> NGX_OK then Inl (wave_failed e lc p (Some s) CODE_FAIL_BUS nd)
           else if wave_closed (slot_at nd s)
           then
             let nd = upd_ctx p (rewrite_settle e mc (sl_got (slot_at nd s))) nd in
             if wave_advances lc (wk_ctx nd p) (slot_at nd s) then Inr (slot_release s nd)
             else
               let nd = deadline_stop p nd;
                   nd = slot_release s nd;
                   nd = upd_ctx p (resolve_verdict mc lc) nd;
                   nd = upd_ctx p (fail_pass lc) nd
               in Inl (phase_apply e lc p nd)
           else
             let nd = deadline_arm lc p s nd
             in Inl (RET NGX_DONE,
                     upd_ctx p (\<lambda>c. c\<lparr>c_state := ST_WAITING, c_waiting := True\<rparr>) nd))"

text \<open>The body of the wave, if it needs one.\<close>

definition wave_body ::
  "env \<Rightarrow> main_conf \<Rightarrow> loc_conf \<Rightarrow> nat \<Rightarrow> nat \<Rightarrow> nat \<Rightarrow> 'a node_scheme
   \<Rightarrow> (ret \<times> 'a node_scheme) + 'a node_scheme" where
  "wave_body e mc lc p wave s nd =
     (let c = wk_ctx nd p in
      if wave_needs_body lc wave c \<and> \<not> p_body_ready (ph c)
      then Inl (e_get_body e, upd_ctx p (c_state_update (\<lambda>_. ST_NEED_BODY)) nd)
      else if wave_needs_body lc wave c \<and> c_phase c = PH_REQUEST
      then (if e_body_place e wave = NGX_AGAIN
            then Inl (RET NGX_DONE, upd_ctx p (c_state_update (\<lambda>_. ST_PLACING_META)) nd)
            else if e_body_place e wave \<noteq> NGX_OK
            then Inl (wave_failed e lc p (Some s) CODE_FAIL_BODY nd)
            else wave_publish e mc lc p s nd)
      else wave_publish e mc lc p s nd)"

definition wave_once ::
  "env \<Rightarrow> main_conf \<Rightarrow> loc_conf \<Rightarrow> nat \<Rightarrow> nat \<Rightarrow> 'a node_scheme
   \<Rightarrow> (ret \<times> 'a node_scheme) + 'a node_scheme" where
  "wave_once e mc lc p wave nd =
     (let nd = upd_ctx p (upd_ph (p_wave_update (\<lambda>_. wave))) nd; c = wk_ctx nd p in
      if c_phase c = PH_REQUEST \<and> \<not> p_body_ready (ph c) \<and> wave_needs_body lc wave c
      then Inl (read_body e p (upd_ctx p (c_state_update (\<lambda>_. ST_NEED_BODY)) nd))
      else
        case ensure_slot e p nd of
          (None, nd) \<Rightarrow> Inl (wave_failed e lc p None CODE_FAIL_BUS nd)
        | (Some s, nd) \<Rightarrow>
            if \<not> p_meta_settled (ph (wk_ctx nd p)) \<and> meta_wave_need lc wave (wk_ctx nd p) \<noteq> 0
            then
              let nd = upd_ctx p (upd_ph (p_meta_settled_update (\<lambda>_. True))) nd in
              if e_meta_place e wave = NGX_AGAIN
              then Inl (RET NGX_DONE, upd_ctx p (c_state_update (\<lambda>_. ST_PLACING_META)) nd)
              else if e_meta_place e wave \<noteq> NGX_OK
              then Inl (wave_failed e lc p (Some s) CODE_FAIL_BODY nd)
              else wave_body e mc lc p wave s nd
            else wave_body e mc lc p wave s nd)"

subsection \<open>The recursion ends\<close>

lemma ensure_slot_ctx:
  "ensure_slot e p nd = (so, nd') \<Longrightarrow>
   c_phase (wk_ctx nd' q) = c_phase (wk_ctx nd q) \<and> ph (wk_ctx nd' q) = ph (wk_ctx nd q)"
proof -
  have rel: "c_phase (wk_ctx (slot_release s w) q) = c_phase (wk_ctx w q)
      \<and> ph (wk_ctx (slot_release s w) q) = ph (wk_ctx w q)" for s and w :: "'b worker_scheme"
    using slot_release_ctx [of s w q] by auto
  have ids: "ph (c\<lparr>c_slot := i, c_rid := r, c_rid_hex := h\<rparr>) = ph c" for c i r h
    by (simp add: ph_def)
  show "ensure_slot e p nd = (so, nd') \<Longrightarrow> ?thesis"
    by (auto simp: ensure_slot_def slot_acquire_def Let_def rel ids split: if_splits)
qed

lemma publish_wave_grows:
  assumes "bus_publish_wave e mc lc p s nd = (r, nd')"
  shows "c_phase (wk_ctx nd' q) = c_phase (wk_ctx nd q)
       \<and> p_wave (ph (wk_ctx nd q)) \<le> p_wave (ph (wk_ctx nd' q))"
proof -
  have "grows.lifted nd (snd (bus_publish_wave e mc lc p s nd))"
    by (intro grows.lifted_ops)
  then show ?thesis using assms by (simp add: grows.lifted_def)
qed

lemma wave_publish_next:
  assumes "wave_publish e mc lc p s nd = Inr nd'"
  shows "c_phase (wk_ctx nd' p) = c_phase (wk_ctx nd p)
       \<and> Suc (p_wave (ph (wk_ctx nd p))) < length (lc_waves lc (c_phase (wk_ctx nd p)))"
proof -
  define nd1 where "nd1 = wave_prepare mc lc p s nd"
  have 1: "c_phase (wk_ctx nd1 p) = c_phase (wk_ctx nd p)" "p_wave (ph (wk_ctx nd1 p)) = p_wave (ph (wk_ctx nd p))"
    by (simp_all add: nd1_def wave_prepare_def Let_def)
  obtain r nd2 where 2: "bus_publish_wave e mc lc p s nd1 = (r, nd2)" by fastforce
  define nd3 where "nd3 = upd_ctx p (rewrite_settle e mc (sl_got (slot_at nd2 s))) nd2"
  have "nd' = slot_release s nd3" and adv: "wave_advances lc (wk_ctx nd3 p) (slot_at nd3 s)"
    using assms 2 unfolding wave_publish_def Let_def nd1_def [symmetric] nd3_def
    by (auto split: if_splits)
  moreover have "c_phase (rewrite_settle e mc g c) = c_phase c \<and> p_wave (ph (rewrite_settle e mc g c)) = p_wave (ph c)" for g c
    using rewrite_settle_cases [of c e mc g] by (auto simp: inert_def kern_def rewrite_fail_def)
  moreover have "c_phase (wk_ctx nd2 p) = c_phase (wk_ctx nd1 p)" "p_wave (ph (wk_ctx nd1 p)) \<le> p_wave (ph (wk_ctx nd2 p))"
    using publish_wave_grows [OF 2] by auto
  moreover have "Suc (p_wave (ph (wk_ctx nd3 p))) < wave_count lc (wk_ctx nd3 p)"
    using adv by (auto simp: wave_advances_def split: if_splits)
  ultimately show ?thesis
    using 1 slot_release_ctx [of s nd3 p] by (auto simp: nd3_def wave_count_def)
qed

lemma wave_once_next:
  assumes "wave_once e mc lc p wave nd = Inr nd'"
  shows "c_phase (wk_ctx nd' p) = c_phase (wk_ctx nd p)"
    and "Suc wave < length (lc_waves lc (c_phase (wk_ctx nd p)))"
proof -
  obtain so nd1 where en: "ensure_slot e p (upd_ctx p (upd_ph (p_wave_update (\<lambda>_. wave))) nd) = (so, nd1)"
    by fastforce
  have 1: "c_phase (wk_ctx nd1 p) = c_phase (wk_ctx nd p)" "p_wave (ph (wk_ctx nd1 p)) = wave"
    using ensure_slot_ctx [OF en, of p] by simp_all
  obtain s nd2 where pub: "wave_publish e mc lc p s nd2 = Inr nd'"
      and 2: "c_phase (wk_ctx nd2 p) = c_phase (wk_ctx nd p)" "p_wave (ph (wk_ctx nd2 p)) = wave"
  proof -
    have "\<exists>s nd2. wave_publish e mc lc p s nd2 = Inr nd'
        \<and> (nd2 = nd1 \<or> nd2 = upd_ctx p (upd_ph (p_meta_settled_update (\<lambda>_. True))) nd1)"
      using assms en unfolding wave_once_def wave_body_def Let_def
      by (auto split: if_splits option.splits)
    then show thesis using 1 that by auto
  qed
  show "c_phase (wk_ctx nd' p) = c_phase (wk_ctx nd p)"
    and "Suc wave < length (lc_waves lc (c_phase (wk_ctx nd p)))"
    using wave_publish_next [OF pub] 2 by auto
qed

function wave_start ::
  "env \<Rightarrow> main_conf \<Rightarrow> loc_conf \<Rightarrow> nat \<Rightarrow> nat \<Rightarrow> 'a node_scheme \<Rightarrow> ret \<times> 'a node_scheme" where
  "wave_start e mc lc p wave nd =
     (case wave_once e mc lc p wave nd of
        Inl r \<Rightarrow> r
      | Inr nd \<Rightarrow> wave_start e mc lc p (Suc wave) nd)"
  by pat_completeness auto
termination
  by (relation "measure (\<lambda>(e, mc, lc, p, wave, nd). length (lc_waves lc (c_phase (wk_ctx nd p))) - wave)")
     (auto simp: wave_once_next(1) dest: wave_once_next(2))

declare wave_start.simps [simp del]

subsection \<open>The access handler\<close>

text \<open>An HTTP header as nginx keeps it: its hash (0 for a removed one) and its value.\<close>

definition lower :: "byte \<Rightarrow> byte" where
  "lower b = (if 0x41 \<le> b \<and> b \<le> 0x5a then b OR 0x20 else b)"

definition local_deny ::
  "env \<Rightarrow> bytes \<Rightarrow> bytes \<Rightarrow> code \<Rightarrow> nat \<Rightarrow> 'a worker_scheme \<Rightarrow> ret \<times> 'a worker_scheme" where
  "local_deny e rule response cd p nd =
     finish e FINISH_APPLY p
       (upd_ctx p (\<lambda>c. (upd_ph (\<lambda>q. q\<lparr>p_code := cd, p_verdict := V_DENY\<rparr>) c)
          \<lparr>c_by_local := True, c_local_rule := rule, c_local_response := response,
           c_state := ST_DONE\<rparr>) nd)"

definition is_upgrade :: "(u64 \<times> bytes) option \<Rightarrow> bool" where
  "is_upgrade h \<longleftrightarrow>
     (case h of None \<Rightarrow> False
      | Some (hash, value) \<Rightarrow> hash \<noteq> 0 \<and> map lower value = ascii ''websocket'')"

definition handshake_guard ::
  "env \<Rightarrow> loc_conf \<Rightarrow> (u64 \<times> bytes) option \<Rightarrow> nat \<Rightarrow> 'a worker_scheme \<Rightarrow> ret \<times> 'a worker_scheme" where
  "handshake_guard e lc upgrade p nd =
     (if \<not> lc_require_upgrade lc then (RET NGX_DECLINED, nd)
      else if is_upgrade upgrade then (RET NGX_DECLINED, nd)
      else local_deny e (ascii ''require_upgrade'') (lc_require_upgrade_response lc)
             CODE_LOCAL_UPGRADE p nd)"

definition local_checks :: "env \<Rightarrow> nat \<Rightarrow> 'a worker_scheme \<Rightarrow> ret \<times> 'a worker_scheme" where
  "local_checks e p nd =
     (if \<not> e_shm e then (RET NGX_DECLINED, nd)
      else
        let (r, rule, response) = e_dataset_check e in
        if r = NGX_ERROR then local_deny e rule response CODE_LOCAL_LIST p nd
        else if r = NGX_DONE then (RET NGX_DECLINED, nd)
        else if r = NGX_OK
        then finish e FINISH_OVERRIDES p
               (upd_ctx p (\<lambda>c. (upd_ph (p_verdict_update (\<lambda>_. V_ALLOW)) c)\<lparr>c_state := ST_DONE\<rparr>) nd)
        else
          let (r, rule, response) = e_rate_check e in
          if r = NGX_DECLINED then local_deny e rule response CODE_LOCAL_RATE p nd
          else (RET NGX_DECLINED, nd))"

text \<open>
  A new request. The context is number \<open>p\<close>; \<open>main\<close> says that it is not a subrequest,
  \<open>ray\<close> is its event id. A guard or local check that answers ends it.
\<close>

definition access_new ::
  "env \<Rightarrow> main_conf \<Rightarrow> loc_conf \<Rightarrow> bool \<Rightarrow> bytes \<Rightarrow> (u64 \<times> bytes) option \<Rightarrow> nat \<Rightarrow> 'a node_scheme
   \<Rightarrow> ret \<times> 'a node_scheme" where
  "access_new e mc lc main ray upgrade p nd =
     (if \<not> main \<or> \<not> lc_enable lc then (RET NGX_DECLINED, nd)
      else
        let nd = upd_ctx p (\<lambda>_. ctx_create ray) nd;
            (r, nd) = handshake_guard e lc upgrade p nd
        in if r \<noteq> RET NGX_DECLINED then (r, nd)
        else
          let (r, nd) = local_checks e p nd in
          if r \<noteq> RET NGX_DECLINED then (r, nd)
          else
            let (pending, c) = waves_pending e lc (wk_ctx nd p) in
            if wave_count lc (wk_ctx nd p) = 0 \<or> \<not> pending
            then finish e FINISH_OVERRIDES p (upd_ctx p (\<lambda>_. c\<lparr>c_state := ST_DONE\<rparr>) nd)
            else wave_start e mc lc p 0 (upd_ctx p (\<lambda>_. c) nd))"

text \<open>The same handler for a request it has seen before.\<close>

definition access_again ::
  "env \<Rightarrow> main_conf \<Rightarrow> loc_conf \<Rightarrow> bool \<Rightarrow> nat \<Rightarrow> 'a node_scheme \<Rightarrow> ret \<times> 'a node_scheme" where
  "access_again e mc lc main p nd =
     (if \<not> main \<or> \<not> lc_enable lc then (RET NGX_DECLINED, nd)
      else case c_state (wk_ctx nd p) of
        ST_WAITING \<Rightarrow> (RET NGX_DONE, nd)
      | ST_NEED_BODY \<Rightarrow> read_body e p nd
      | ST_READING_BODY \<Rightarrow> (RET NGX_DECLINED, upd_ctx p (c_state_update (\<lambda>_. ST_DONE)) nd)
      | ST_PLACING_META \<Rightarrow> (RET NGX_DONE, nd)
      | ST_FETCHING_FORM \<Rightarrow> (RET NGX_DONE, nd)
      | ST_FINISH \<Rightarrow> finish_done e p nd
      | ST_NEXT_WAVE \<Rightarrow> wave_start e mc lc p (p_wave (ph (wk_ctx nd p))) nd
      | ST_DONE \<Rightarrow> (RET NGX_DECLINED, nd)
      | _ \<Rightarrow> phase_apply e lc p nd)"

definition phase_resume ::
  "env \<Rightarrow> main_conf \<Rightarrow> loc_conf \<Rightarrow> nat \<Rightarrow> 'a node_scheme \<Rightarrow> ret \<times> 'a node_scheme" where
  "phase_resume e mc lc p nd =
     (case c_state (wk_ctx nd p) of
        ST_NEXT_WAVE \<Rightarrow> wave_start e mc lc p (p_wave (ph (wk_ctx nd p))) nd
      | ST_FINISH \<Rightarrow> finish_done e p nd
      | _ \<Rightarrow> phase_apply e lc p nd)"

text \<open>The access handler ends the request itself when its answer is an error or a status: the
  third component.\<close>

definition access_handler :: "ret \<times> 'a worker_scheme \<Rightarrow> ret \<times> 'a worker_scheme \<times> ret option" where
  "access_handler rn =
     (let (r, nd) = rn in
      case r of
        STATUS n \<Rightarrow> if n \<ge> 300 then (RET NGX_DONE, nd, Some r) else (r, nd, None)
      | RET NGX_ERROR \<Rightarrow> (RET NGX_DONE, nd, Some r)
      | _ \<Rightarrow> (r, nd, None))"

subsection \<open>Resuming from the store\<close>

definition form_resumed :: "nat \<Rightarrow> 'a node_scheme \<Rightarrow> 'a node_scheme" where
  "form_resumed p nd =
     (if c_state (wk_ctx nd p) \<noteq> ST_FETCHING_FORM then nd
      else return_to_phases p (upd_ctx p (c_state_update (\<lambda>_. ST_FINISH)) nd))"

definition body_resumed :: "nat \<Rightarrow> rc \<Rightarrow> 'a node_scheme \<Rightarrow> 'a node_scheme" where
  "body_resumed p r nd =
     (if c_state (wk_ctx nd p) \<notin> {ST_NEED_BODY, ST_READING_BODY, ST_PLACING_META} then nd
      else if p_agent_after_body (ph (wk_ctx nd p))
      then return_to_phases p
             (upd_ctx p (\<lambda>c. (upd_ph (\<lambda>q. q\<lparr>p_agent_after_body := False, p_agent_settled := True\<rparr>) c)
                \<lparr>c_state := ST_FINISH\<rparr>) nd)
      else if r \<noteq> NGX_OK
      then return_to_phases p
             (upd_ctx p (\<lambda>c. (upd_ph (p_fail_update (\<lambda>_. CODE_FAIL_BODY)) c)\<lparr>c_state := ST_FAILED\<rparr>)
                (slot_drop p nd))
      else return_to_phases p (upd_ctx p (c_state_update (\<lambda>_. ST_NEXT_WAVE)) nd))"

definition body_ready :: "nat \<Rightarrow> 'a node_scheme \<Rightarrow> 'a node_scheme" where
  "body_ready p nd = body_resumed p NGX_OK (upd_ctx p (upd_ph (p_body_ready_update (\<lambda>_. True))) nd)"

end
