(* ===== verification/Request_Life.thy ===== *)
theory Request_Life
  imports Wave_Start
begin

text \<open>
  No request is lost: in every state a worker reaches, a waiting request holds a live slot that its
  id finds, its deadline is armed, and slots and requests point at each other. The invariant is
  \<open>calm\<close>; the lemmas follow the handlers, and \<open>worker_run\<close> is every interleaving of them.
\<close>

subsection \<open>The invariant\<close>

definition owner :: "nat \<Rightarrow> nat \<Rightarrow> 'a worker_scheme \<Rightarrow> bool" where
  "owner p s nd \<longleftrightarrow> s < t_nslots (wk_tab nd) \<and> sl_ctx (slot_at nd s) = Some p"

definition linked :: "nat \<Rightarrow> 'a worker_scheme \<Rightarrow> bool" where
  "linked p nd \<longleftrightarrow>
     (c_slot (wk_ctx nd p) \<noteq> SLOT_NIL \<longrightarrow>
        slot_lookup (c_rid (wk_ctx nd p)) nd = Some (c_slot (wk_ctx nd p))
        \<and> owner p (c_slot (wk_ctx nd p)) nd)
     \<and> (\<forall>s. owner p s nd \<longrightarrow> c_slot (wk_ctx nd p) = s)"

lemma linkedI:
  assumes "c_slot (wk_ctx nd p) \<noteq> SLOT_NIL \<Longrightarrow> slot_lookup (c_rid (wk_ctx nd p)) nd = Some (c_slot (wk_ctx nd p))"
    and "c_slot (wk_ctx nd p) \<noteq> SLOT_NIL \<Longrightarrow> owner p (c_slot (wk_ctx nd p)) nd"
    and "\<And>s. owner p s nd \<Longrightarrow> c_slot (wk_ctx nd p) = s"
  shows "linked p nd"
  using assms unfolding linked_def by blast

lemma linkedD:
  assumes "linked p nd"
  shows "c_slot (wk_ctx nd p) \<noteq> SLOT_NIL \<Longrightarrow> slot_lookup (c_rid (wk_ctx nd p)) nd = Some (c_slot (wk_ctx nd p))"
    and "c_slot (wk_ctx nd p) \<noteq> SLOT_NIL \<Longrightarrow> owner p (c_slot (wk_ctx nd p)) nd"
    and "owner p s nd \<Longrightarrow> c_slot (wk_ctx nd p) = s"
  using assms unfolding linked_def by blast+

definition timed :: "nat \<Rightarrow> 'a worker_scheme \<Rightarrow> bool" where
  "timed p nd \<longleftrightarrow>
     (c_waiting (wk_ctx nd p) \<longrightarrow>
        c_timer (wk_ctx nd p) \<noteq> None \<and> c_slot (wk_ctx nd p) \<noteq> SLOT_NIL \<and> c_state (wk_ctx nd p) = ST_WAITING)"

definition linkedall :: "'a worker_scheme \<Rightarrow> bool" where
  "linkedall nd \<longleftrightarrow> table_inv nd \<and> (\<forall>p. linked p nd)"

definition calm :: "'a worker_scheme \<Rightarrow> bool" where
  "calm nd \<longleftrightarrow> linkedall nd \<and> (\<forall>p. timed p nd)"

text \<open>The invariant but for the deadline of one request.\<close>

definition others :: "nat \<Rightarrow> 'a worker_scheme \<Rightarrow> bool" where
  "others p nd \<longleftrightarrow> linkedall nd \<and> (\<forall>q. q \<noteq> p \<longrightarrow> timed q nd)"

lemma calm_iff: "calm nd \<longleftrightarrow> others p nd \<and> timed p nd"
  by (auto simp: calm_def others_def)

lemma owner_slot_ctx: "owner p s nd \<Longrightarrow> slot_ctx nd s = p"
  by (simp add: owner_def slot_ctx_def)

lemma lookup_owner: "slot_lookup rid nd = Some s \<Longrightarrow> owner (slot_ctx nd s) s nd"
  by (auto simp: owner_def slot_ctx_def slot_lookup_Some_iff)

lemma owner_not_nil: "table_inv nd \<Longrightarrow> owner p s nd \<Longrightarrow> s \<noteq> SLOT_NIL"
  by (auto simp: owner_def table_inv_def table_wf_def)

subsection \<open>Steps that keep slots and ids\<close>

definition same_table :: "'a worker_scheme \<Rightarrow> 'b worker_scheme \<Rightarrow> bool" where
  "same_table nd nd' \<longleftrightarrow>
     t_nslots (wk_tab nd') = t_nslots (wk_tab nd)
     \<and> (\<forall>k. sl_gen (slot_at nd' k) = sl_gen (slot_at nd k) \<and> sl_ctx (slot_at nd' k) = sl_ctx (slot_at nd k))
     \<and> (table_inv nd \<longrightarrow> table_inv nd')"

lemma same_table_lookup: "same_table nd nd' \<Longrightarrow> slot_lookup rid nd' = slot_lookup rid nd"
  by (simp add: same_table_def slot_lookup_def Let_def)

lemma same_table_owner: "same_table nd nd' \<Longrightarrow> owner p s nd' = owner p s nd"
  by (simp add: same_table_def owner_def)

lemma same_table_tab:
  assumes "wk_tab nd' = wk_tab nd" shows "same_table nd nd'"
  using assms table_inv_cong [OF assms] by (simp add: same_table_def slot_at_def)

lemma linkedall_cong:
  assumes "linkedall nd" "same_table nd nd'"
    and "\<And>q. c_slot (wk_ctx nd' q) = c_slot (wk_ctx nd q) \<and> c_rid (wk_ctx nd' q) = c_rid (wk_ctx nd q)"
  shows "linkedall nd'"
proof -
  have "linked q nd' = linked q nd" for q
    unfolding linked_def same_table_lookup [OF assms(2)] same_table_owner [OF assms(2)] using assms(3) by simp
  then show ?thesis using assms(1,2) by (simp add: linkedall_def same_table_def)
qed

text \<open>Updates of a context that keep its slot and id, and updates of the wave fields of a slot.\<close>

definition id_kept :: "(ctx \<Rightarrow> ctx) \<Rightarrow> bool" where
  "id_kept f \<longleftrightarrow> (\<forall>c. c_slot (f c) = c_slot c \<and> c_rid (f c) = c_rid c)"

definition time_kept :: "(ctx \<Rightarrow> ctx) \<Rightarrow> bool" where
  "time_kept f \<longleftrightarrow> (\<forall>c. c_waiting (f c) = c_waiting c \<and> c_timer (f c) = c_timer c \<and> c_state (f c) = c_state c)"

definition ids_kept :: "(slot \<Rightarrow> slot) \<Rightarrow> bool" where
  "ids_kept f \<longleftrightarrow> (\<forall>s. sl_gen (f s) = sl_gen s \<and> sl_next_free (f s) = sl_next_free s \<and> sl_ctx (f s) = sl_ctx s)"

lemma ids_kept_fields [simp]:
  "ids_kept (sl_got_update f)" "ids_kept (sl_denied_update f)" "ids_kept (sl_awaited_update f)"
  "ids_kept (sl_published_update g)" "ids_kept (\<lambda>sl. sl\<lparr>sl_awaited := h sl\<rparr>)"
  by (simp_all add: ids_kept_def)

lemma absorb_timer [simp]: "c_timer (absorb e mc lc index reply w l sw c) = c_timer c"
  using keepsD [OF keeps_absorb_rest] by (simp add: absorb_def Let_def)

lemma rewrite_settle_frame [simp]:
  "c_slot (rewrite_settle e mc g c) = c_slot c" "c_rid (rewrite_settle e mc g c) = c_rid c"
  "c_waiting (rewrite_settle e mc g c) = c_waiting c" "c_timer (rewrite_settle e mc g c) = c_timer c"
  "c_state (rewrite_settle e mc g c) = c_state c"
  by (auto simp: rewrite_settle_def rewrite_publish_def rewrite_fail_def Let_def split: option.split list.split)

lemma fold_reply_frame [simp]:
  "c_slot (fold (\<lambda>i. upd_reply i f) js c) = c_slot c" "c_rid (fold (\<lambda>i. upd_reply i f) js c) = c_rid c"
  "c_waiting (fold (\<lambda>i. upd_reply i f) js c) = c_waiting c" "c_timer (fold (\<lambda>i. upd_reply i f) js c) = c_timer c"
  "c_state (fold (\<lambda>i. upd_reply i f) js c) = c_state c"
  by (induction js arbitrary: c) auto

lemma id_kept_steps [simp]:
  "id_kept (upd_ph g)" "id_kept (c_state_update fs)" "id_kept (c_timer_update ft)"
  "id_kept (c_waiting_update fw)" "id_kept (c_cont_update fc)" "id_kept (c_finish_how_update fh)" "id_kept (upd_reply i h)"
  "id_kept (rewrite_settle e mc got)" "id_kept (resolve_verdict mc lc)" "id_kept (fail_pass lc)"
  "id_kept (absorb e mc lc index reply w l sw)" "id_kept (fold (\<lambda>i. upd_reply i h) js)"
  "id_kept (resume_forget index)" "id_kept (\<lambda>c. snd (resume_asked_for e lc index c))"
  "id_kept (\<lambda>c. (upd_ph g c)\<lparr>c_state := st\<rparr>)"
  "id_kept (\<lambda>c. c\<lparr>c_state := st, c_waiting := wt\<rparr>)"
  by (auto simp: id_kept_def fail_pass_def resume_forget_def resume_asked_for_def resume_ask_def Let_def
      split: option.split)

lemma time_kept_steps [simp]:
  "time_kept (upd_ph g)" "time_kept (c_finish_how_update fh)" "time_kept (c_cont_update fc)"
  "time_kept (upd_reply i h)" "time_kept (rewrite_settle e mc got)"
  "time_kept (absorb e mc lc index reply w l sw)" "time_kept (fold (\<lambda>i. upd_reply i h) js)"
  "time_kept (resume_forget index)" "time_kept (\<lambda>c. snd (resume_asked_for e lc index c))"
  by (auto simp: time_kept_def resume_forget_def resume_asked_for_def resume_ask_def Let_def
      split: option.split)

lemma same_table_upd_slot:
  assumes "ids_kept f" "s < t_nslots (wk_tab nd)"
  shows "same_table nd (upd_slot s f nd)"
proof -
  have "sl_gen (slot_at (upd_slot s f nd) k) = sl_gen (slot_at nd k)
      \<and> sl_ctx (slot_at (upd_slot s f nd) k) = sl_ctx (slot_at nd k)" for k
    using assms(1)
    by (cases "s < length (t_slots (wk_tab nd))")
       (auto simp: slot_at_upd_slot ids_kept_def, auto simp: upd_slot_def slot_at_def list_update_beyond)
  then show ?thesis
    using upd_slot_inv [of nd s f] assms by (auto simp: same_table_def ids_kept_def)
qed

subsection \<open>Steps of the handlers\<close>

lemma others_upd_ctx:
  assumes "others p nd" "id_kept f" shows "others p (upd_ctx p f nd)"
proof -
  have "linkedall (upd_ctx p f nd)"
  proof (rule linkedall_cong)
    show "linkedall nd" using assms(1) by (simp add: others_def)
    show "same_table nd (upd_ctx p f nd)" by (rule same_table_tab) simp
  qed (use assms(2) in \<open>simp add: id_kept_def\<close>)
  moreover have "timed q (upd_ctx p f nd) = timed q nd" if "q \<noteq> p" for q
    using that by (simp add: timed_def)
  ultimately show ?thesis using assms(1) by (simp add: others_def)
qed

lemma others_const:
  assumes "others p nd" "c_slot c = c_slot (wk_ctx nd p)" "c_rid c = c_rid (wk_ctx nd p)"
  shows "others p (upd_ctx p (\<lambda>_. c) nd)"
proof -
  have "linkedall (upd_ctx p (\<lambda>_. c) nd)"
  proof (rule linkedall_cong)
    show "linkedall nd" using assms(1) by (simp add: others_def)
    show "same_table nd (upd_ctx p (\<lambda>_. c) nd)" by (rule same_table_tab) simp
  qed (use assms(2,3) in simp)
  then show ?thesis using assms(1) by (simp add: others_def timed_def)
qed

lemma others_upd_slot:
  assumes "others p nd" "ids_kept f" "s < t_nslots (wk_tab nd)" shows "others p (upd_slot s f nd)"
  using assms linkedall_cong [OF _ same_table_upd_slot [OF assms(2,3)]] by (auto simp: others_def timed_def)

lemma others_same:
  assumes "others p nd" "wk_tab nd' = wk_tab nd" "wk_ctx nd' = wk_ctx nd" shows "others p nd'"
  using assms linkedall_cong [OF _ same_table_tab [OF assms(2)]] by (auto simp: others_def timed_def)

lemma others_node:
  "others p nd \<Longrightarrow> others p (breaker_account e mc m t nd)" "others p nd \<Longrightarrow> others p (nd\<lparr>nd_breakers := bs\<rparr>)"
  "others p nd \<Longrightarrow> others p (nd\<lparr>nd_sent := ms\<rparr>)" "others p nd \<Longrightarrow> others p (nd\<lparr>nd_ready := rs\<rparr>)"
  by (erule others_same, simp_all)+

lemma slot_release_self:
  assumes "owner p s nd" "table_inv nd" "c_slot (wk_ctx nd p) = s"
  shows "wk_ctx (slot_release s nd) = (wk_ctx nd)(p := (wk_ctx nd p)\<lparr>c_slot := SLOT_NIL\<rparr>)"
  using assms by (auto simp: owner_def slot_release_def Let_def upd_ctx_def upd_slot_def table_inv_def table_wf_def)

lemma others_release:
  assumes "others p nd" and "owner p s nd"
  shows "others p (slot_release s nd)" and "c_slot (wk_ctx (slot_release s nd) p) = SLOT_NIL"
proof -
  have inv: "table_inv nd" and lk: "\<And>q. linked q nd" and s: "s < t_nslots (wk_tab nd)"
    using assms by (auto simp: others_def linkedall_def owner_def)
  have c: "c_slot (wk_ctx nd p) = s" using linkedD(3) [OF lk assms(2)] .
  note ctx = slot_release_self [OF assms(2) inv c]
  have wf: "table_wf nd" and gen: "sl_gen (slot_at nd s) \<noteq> 0"
    using inv assms(2) by (auto simp: table_inv_def table_wf_def owner_def)
  note at = slot_at_slot_release [OF wf s gen]
  have own: "owner q k (slot_release s nd) \<longleftrightarrow> owner q k nd \<and> k \<noteq> s" for q k
    by (auto simp: owner_def at)
  show "c_slot (wk_ctx (slot_release s nd) p) = SLOT_NIL" by (simp add: ctx)
  have "linked q (slot_release s nd)" for q
  proof (cases "q = p")
    case True
    show ?thesis
      unfolding True
    proof (rule linkedI)
      fix k assume "owner p k (slot_release s nd)"
      then show "c_slot (wk_ctx (slot_release s nd) p) = k" using own linkedD(3) [OF lk] c by metis
    qed (simp_all add: ctx)
  next
    case False
    have ns: "c_slot (wk_ctx nd q) \<noteq> s" if "c_slot (wk_ctx nd q) \<noteq> SLOT_NIL"
      using linkedD(2) [OF lk that] assms(2) False by (auto simp: owner_def)
    show ?thesis
    proof (rule linkedI)
      show "c_slot (wk_ctx (slot_release s nd) q) \<noteq> SLOT_NIL \<Longrightarrow> slot_lookup (c_rid (wk_ctx (slot_release s nd) q))
          (slot_release s nd) = Some (c_slot (wk_ctx (slot_release s nd) q))"
        using False ns linkedD(1) [OF lk [of q]] by (simp add: ctx slot_lookup_release [OF inv s])
      show "c_slot (wk_ctx (slot_release s nd) q) \<noteq> SLOT_NIL \<Longrightarrow>
          owner q (c_slot (wk_ctx (slot_release s nd) q)) (slot_release s nd)"
        using False ns linkedD(2) [OF lk [of q]] by (simp add: ctx own)
      show "c_slot (wk_ctx (slot_release s nd) q) = k" if "owner q k (slot_release s nd)" for k
        using False that linkedD(3) [OF lk [of q]] by (simp add: ctx own)
    qed
  qed
  moreover have "timed q (slot_release s nd) = timed q nd" if "q \<noteq> p" for q
    using that by (simp add: timed_def ctx)
  ultimately show "others p (slot_release s nd)"
    using assms(1) slot_release_inv [OF inv s] by (simp add: others_def linkedall_def)
qed

lemma return_to_phases_calm:
  assumes "others p nd" shows "calm (return_to_phases p nd)"
proof -
  have "others p (upd_ctx p (c_waiting_update (\<lambda>_. False)) nd)" by (rule others_upd_ctx [OF assms]) simp
  then have "others p (return_to_phases p nd)" unfolding return_to_phases_def Let_def by (rule others_node)
  moreover have "timed p (return_to_phases p nd)" by (simp add: timed_def return_to_phases_def Let_def)
  ultimately show ?thesis by (simp add: calm_iff [of _ p])
qed

lemma owner_upd_ctx [simp]: "owner p s (upd_ctx q f nd) = owner p s nd"
  by (simp add: owner_def)

lemma conclude_calm:
  assumes "others p nd" "owner p s nd"
  shows "calm (conclude mc lc s nd)"
  unfolding conclude_def Let_def deadline_stop_def owner_slot_ctx [OF assms(2)]
  by (intro return_to_phases_calm others_upd_ctx others_release) (simp_all add: assms)

lemma resume_calm:
  assumes "others p nd" "owner p s nd"
  shows "calm (resume e mc lc s nd)"
proof -
  have "sl_ctx (slot_at nd s) = Some p" using assms(2) by (simp add: owner_def)
  then show ?thesis
    using conclude_calm [of p "upd_ctx p (rewrite_settle e mc (sl_got (slot_at nd s))) nd" s mc lc]
      others_upd_ctx [OF assms(1)] assms(2) by (simp add: resume_def)
qed

lemma calm_if: "(P \<Longrightarrow> calm x) \<Longrightarrow> (\<not> P \<Longrightarrow> calm y) \<Longrightarrow> calm (if P then x else y)"
  by simp

lemma calm_option:
  "calm n \<Longrightarrow> (\<And>w. x = Some w \<Longrightarrow> calm (f w)) \<Longrightarrow> calm (case x of None \<Rightarrow> n | Some w \<Rightarrow> f w)"
  by (cases x) simp_all

lemma settle_calm:
  assumes "others p nd" "owner p s nd" "timed p nd \<or> wave_closed (slot_at nd s)"
  shows "calm (settle e mc lc s nd)"
proof -
  have idle: "calm nd" if "\<not> c_waiting (wk_ctx nd p)"
    using assms(1) that by (simp add: calm_iff [of nd p] timed_def)
  have opn: "calm nd" if "\<not> wave_closed (slot_at nd s)"
    using assms that by (simp add: calm_iff [of nd p])
  show ?thesis
    unfolding settle_def Let_def owner_slot_ctx [OF assms(2)]
    by (intro calm_if idle opn return_to_phases_calm conclude_calm [of p] others_upd_ctx others_release(1))
       (simp_all add: assms)
qed

text \<open>A worker in which the request \<open>p\<close> holds the slot \<open>s\<close>.\<close>

definition tended :: "nat \<Rightarrow> nat \<Rightarrow> 'a worker_scheme \<Rightarrow> bool" where
  "tended p s nd \<longleftrightarrow> others p nd \<and> owner p s nd \<and> timed p nd"

lemma tended_calm: "tended p s nd \<Longrightarrow> calm nd"
  by (simp add: tended_def calm_iff [of nd p])

lemma calm_tended: "calm nd \<Longrightarrow> owner p s nd \<Longrightarrow> tended p s nd"
  by (simp add: tended_def calm_iff [of nd p])

lemma tended_upd_ctx:
  "tended p s nd \<Longrightarrow> id_kept f \<Longrightarrow> time_kept f \<Longrightarrow> tended p s (upd_ctx p f nd)"
  by (auto simp: tended_def others_upd_ctx timed_def id_kept_def time_kept_def)

lemma tended_upd_slot: "tended p s nd \<Longrightarrow> ids_kept f \<Longrightarrow> tended p s (upd_slot s f nd)"
  using same_table_owner [OF same_table_upd_slot, of f s nd p s]
  by (auto simp: tended_def timed_def others_upd_slot owner_def)

lemma tended_same:
  assumes "tended p s nd" "wk_tab nd' = wk_tab nd" "wk_ctx nd' = wk_ctx nd"
  shows "tended p s nd'"
  using assms(1) same_table_owner [OF same_table_tab [OF assms(2)]] others_same [OF _ assms(2,3)] assms(3)
  by (simp add: tended_def timed_def)

lemma tended_node:
  "tended p s nd \<Longrightarrow> tended p s (breaker_account e mc m t nd)" "tended p s nd \<Longrightarrow> tended p s (nd\<lparr>nd_breakers := bs\<rparr>)"
  "tended p s nd \<Longrightarrow> tended p s (nd\<lparr>nd_sent := ms\<rparr>)"
  by (erule tended_same, simp_all)+

lemma tended_if: "(P \<Longrightarrow> tended p s x) \<Longrightarrow> (\<not> P \<Longrightarrow> tended p s y) \<Longrightarrow> tended p s (if P then x else y)"
  by simp

lemma tended_settle: "tended p s nd \<Longrightarrow> calm (settle e mc lc s nd)"
  by (rule settle_calm [of p]) (simp_all add: tended_def)

lemma tended_resume: "tended p s nd \<Longrightarrow> calm (resume e mc lc s nd)"
  by (rule resume_calm [of p]) (simp_all add: tended_def)

lemma skip_calm:
  assumes "tended p s nd"
  shows "calm (skip e mc lc s index cd nd)"
proof -
  have sc: "slot_ctx nd s = p" using assms by (auto simp: tended_def owner_slot_ctx)
  show ?thesis
    unfolding skip_def Let_def sc
    by (intro calm_option calm_if tended_settle [of p] tended_if tended_upd_ctx tended_upd_slot
        tended_calm [OF assms] assms) simp_all
qed

lemma on_reply_calm:
  assumes "tended p s nd"
  shows "calm (on_reply e mc lc s index reply nd)"
proof -
  have sc: "slot_ctx nd s = p" using assms by (auto simp: tended_def owner_slot_ctx)
  show ?thesis
    unfolding on_reply_def Let_def sc
    by (intro calm_option calm_if tended_settle [of p] tended_resume [of p] tended_upd_ctx tended_upd_slot
        tended_node tended_calm [OF assms] assms) simp_all
qed

lemma dispatch_calm:
  assumes "calm nd" shows "calm (bus_dispatch e mc lc decode rid index payload nd)"
proof (cases "slot_lookup rid nd")
  case None
  then show ?thesis using assms by (simp add: bus_dispatch_def)
next
  case (Some s)
  let ?p = "slot_ctx nd s"
  let ?n = "upd_ctx ?p (c_cont_update (\<lambda>_. snd (decode (wk_ctx nd ?p) index payload))) nd"
  have "owner ?p s nd" using lookup_owner [OF Some] by simp
  then have "tended ?p s ?n" by (intro tended_upd_ctx calm_tended assms) simp_all
  from tended_calm [OF this] on_reply_calm [OF this] show ?thesis
    using assms Some by (simp add: bus_dispatch_def Let_def split: option.split)
qed

lemma absent_calm:
  assumes "calm nd" shows "calm (bus_absent e mc lc rid index nd)"
proof -
  have t: "tended (slot_ctx nd s) s nd" if "slot_lookup rid nd = Some s" for s
    using assms that by (intro calm_tended lookup_owner)
  show ?thesis
    unfolding bus_absent_def Let_def
    by (intro calm_option calm_if assms)
       (auto intro!: skip_calm [OF tended_upd_ctx] skip_calm [OF t] tended_calm [OF tended_node(3)] tended_upd_ctx t)
qed

lemma fail_calm:
  assumes "others p nd" "owner p s nd"
  shows "calm (fail e mc lc s nd)"
proof -
  let ?b = "\<lambda>m. breaker_account e mc m True nd"
  have o: "owner p s (?b m)" for m using assms(2) by (simp add: owner_def)
  have x: "others p (if b then ?b m else upd_ctx p (upd_ph f) (?b m))"
    "owner p s (if b then ?b m else upd_ctx p (upd_ph f) (?b m))" for b m f
    using others_upd_ctx [OF others_node(1) [OF assms(1)]] others_node(1) [OF assms(1)] o by simp_all
  show ?thesis
    unfolding fail_def Let_def owner_slot_ctx [OF assms(2)] by (intro resume_calm [of p] x)
qed

definition alert :: "nat \<Rightarrow> 'a worker_scheme \<Rightarrow> bool" where
  "alert p nd \<longleftrightarrow> (c_waiting (wk_ctx nd p) \<longrightarrow> c_state (wk_ctx nd p) = ST_WAITING)"

lemma arm_calm:
  assumes "others p nd" "owner p s nd" "alert p nd"
  shows "calm (deadline_arm lc p s' nd)"
proof -
  have "others p (deadline_arm lc p s' nd)"
    unfolding deadline_arm_def Let_def by (rule others_upd_ctx [OF assms(1)]) simp
  moreover have "c_slot (wk_ctx nd p) = s" "s \<noteq> SLOT_NIL"
    using assms owner_not_nil [of nd p s] linkedD(3) [of p nd s] by (auto simp: others_def linkedall_def)
  then have "timed p (deadline_arm lc p s' nd)"
    using assms(3) by (auto simp: timed_def alert_def deadline_arm_def Let_def)
  ultimately show ?thesis by (simp add: calm_iff [of _ p])
qed

lemma owner_upd_slot: "ids_kept f \<Longrightarrow> s < t_nslots (wk_tab nd) \<Longrightarrow> owner p k (upd_slot s f nd) = owner p k nd"
  by (rule same_table_owner [OF same_table_upd_slot])

lemma expire_calm:
  assumes "others p nd" "owner p s nd" "alert p nd"
  shows "calm (expire e mc lc s nd)"
proof -
  let ?h = "\<lambda>p s nd. others p nd \<and> owner p s nd \<and> alert p nd"
  have upd: "?h p s nd \<Longrightarrow> id_kept f \<Longrightarrow> time_kept f \<Longrightarrow> ?h p s (upd_ctx p f nd)" for nd :: "'a node_scheme" and f
    by (simp add: others_upd_ctx alert_def time_kept_def)
  have slot: "?h p s nd \<Longrightarrow> ids_kept f \<Longrightarrow> ?h p s (upd_slot s f nd)" for nd :: "'a node_scheme" and f
    using owner_upd_slot [of f s nd p s] by (auto simp: others_upd_slot owner_def alert_def)
  have brk: "?h p s nd \<Longrightarrow> ?h p s (breaker_account e mc m t nd)" for nd :: "'a node_scheme" and m t
    by (simp add: others_node owner_def alert_def)
  have cnd: "?h p s x \<Longrightarrow> ?h p s y \<Longrightarrow> ?h p s (if P then x else y)" for P and x y :: "'a node_scheme" by simp
  have fl: "?h p s nd \<Longrightarrow> calm (fail e mc lc s nd)" for nd :: "'a node_scheme" using fail_calm by blast
  have ar: "?h p s nd \<Longrightarrow> calm (deadline_arm lc p s nd)" for nd :: "'a node_scheme" using arm_calm by blast
  have st: "?h p s nd \<Longrightarrow> wave_closed (slot_at nd s) \<Longrightarrow> calm (settle e mc lc s nd)" for nd :: "'a node_scheme"
    using settle_calm by blast
  have h: "?h p s nd" using assms by simp
  show ?thesis
    unfolding expire_def Let_def owner_slot_ctx [OF assms(2)]
    by (intro calm_option calm_if fl ar st cnd upd slot brk h) simp_all
qed

lemma on_deadline_calm:
  assumes "others p nd" "alert p nd" and "c_waiting (wk_ctx nd p) \<Longrightarrow> c_slot (wk_ctx nd p) \<noteq> SLOT_NIL"
  shows "calm (on_deadline e mc lc p nd)"
proof (cases "c_waiting (wk_ctx nd p)")
  case False
  then show ?thesis using assms(1) by (simp add: on_deadline_def calm_iff [of _ p] timed_def)
next
  case True
  then have "linked p nd" "c_slot (wk_ctx nd p) \<noteq> SLOT_NIL" using assms by (auto simp: others_def linkedall_def)
  then obtain s where "slot_lookup (c_rid (wk_ctx nd p)) nd = Some s" "owner p s nd"
    using linkedD(1,2) by blast
  then show ?thesis
    using True expire_calm [OF assms(1) _ assms(2)] fail_calm [OF assms(1)] by (simp add: on_deadline_def)
qed

subsection \<open>A request that is not waiting\<close>

definition free :: "nat \<Rightarrow> 'a worker_scheme \<Rightarrow> bool" where
  "free p nd \<longleftrightarrow> others p nd \<and> \<not> c_waiting (wk_ctx nd p)"

definition idle :: "nat \<Rightarrow> nat \<Rightarrow> 'a worker_scheme \<Rightarrow> bool" where
  "idle p s nd \<longleftrightarrow> free p nd \<and> owner p s nd"

definition wait_kept :: "(ctx \<Rightarrow> ctx) \<Rightarrow> bool" where
  "wait_kept f \<longleftrightarrow> (\<forall>c. c_waiting (f c) = c_waiting c)"

lemma free_calm: "free p nd \<Longrightarrow> calm nd"
  by (simp add: free_def calm_iff [of nd p] timed_def)

lemma calm_free: "calm nd \<Longrightarrow> \<not> c_waiting (wk_ctx nd p) \<Longrightarrow> free p nd"
  by (simp add: free_def calm_iff [of nd p])

lemma idle_free: "idle p s nd \<Longrightarrow> free p nd"
  by (simp add: idle_def)

lemma wait_kept_steps [simp]:
  "wait_kept (upd_ph g)" "wait_kept (c_state_update fs)" "wait_kept (c_timer_update ft)"
  "wait_kept (c_finish_how_update fh)" "wait_kept (upd_reply i h)" "wait_kept (rewrite_settle e mc got)"
  "wait_kept (resolve_verdict mc lc)" "wait_kept (fail_pass lc)"
  "wait_kept (resume_forget index)" "wait_kept (\<lambda>c. snd (resume_asked_for e lc index c))"
  "wait_kept (\<lambda>c. (upd_ph g c)\<lparr>c_state := st\<rparr>)" "wait_kept (c_slot_update fl)"
  "wait_kept (\<lambda>c. fold (\<lambda>i. upd_reply i h) js c)"
  by (auto simp: wait_kept_def fail_pass_def resume_forget_def resume_asked_for_def resume_ask_def Let_def
      split: option.split)

lemma free_upd_ctx: "free p nd \<Longrightarrow> id_kept f \<Longrightarrow> wait_kept f \<Longrightarrow> free p (upd_ctx p f nd)"
  by (simp add: free_def others_upd_ctx wait_kept_def)

lemma free_const:
  "free p nd \<Longrightarrow> c_slot c = c_slot (wk_ctx nd p) \<Longrightarrow> c_rid c = c_rid (wk_ctx nd p) \<Longrightarrow> \<not> c_waiting c
   \<Longrightarrow> free p (upd_ctx p (\<lambda>_. c) nd)"
  by (simp add: free_def others_const)

lemma idle_upd_ctx: "idle p s nd \<Longrightarrow> id_kept f \<Longrightarrow> wait_kept f \<Longrightarrow> idle p s (upd_ctx p f nd)"
  by (simp add: idle_def free_upd_ctx)

lemma idle_upd_slot: "idle p s nd \<Longrightarrow> ids_kept f \<Longrightarrow> idle p s (upd_slot s f nd)"
  using owner_upd_slot [of f s nd p s] by (auto simp: idle_def free_def others_upd_slot owner_def)

lemma idle_same:
  assumes "idle p s nd" "wk_tab nd' = wk_tab nd" "wk_ctx nd' = wk_ctx nd" shows "idle p s nd'"
  using assms(1) same_table_owner [OF same_table_tab [OF assms(2)]] others_same [OF _ assms(2,3)] assms(3)
  by (simp add: idle_def free_def)

lemma idle_node:
  "idle p s nd \<Longrightarrow> idle p s (nd\<lparr>nd_breakers := bs\<rparr>)" "idle p s nd \<Longrightarrow> idle p s (nd\<lparr>nd_sent := ms\<rparr>)"
  by (erule idle_same, simp_all)+

lemma idle_if: "(P \<Longrightarrow> idle p s x) \<Longrightarrow> (\<not> P \<Longrightarrow> idle p s y) \<Longrightarrow> idle p s (if P then x else y)"
  by simp

lemma free_if: "(P \<Longrightarrow> free p x) \<Longrightarrow> (\<not> P \<Longrightarrow> free p y) \<Longrightarrow> free p (if P then x else y)"
  by simp

lemma free_release: "idle p s nd \<Longrightarrow> free p (slot_release s nd)"
  using slot_release_ctx [of s nd p] others_release(1) [of p nd s] by (auto simp: idle_def free_def)

lemma settle_idle: "idle p s nd \<Longrightarrow> settle e mc lc s nd = nd"
  using owner_slot_ctx [of p s nd] by (simp add: idle_def free_def settle_def Let_def)

lemma skip_idle:
  assumes "idle p s nd" shows "idle p s (skip e mc lc s index cd nd)"
proof -
  have sc: "slot_ctx nd s = p" using assms by (auto simp: idle_def owner_slot_ctx)
  have st: "idle p s x \<Longrightarrow> idle p s (settle e mc lc s x)" for x :: "'a node_scheme"
    by (simp add: settle_idle)
  have opt: "idle p s n \<Longrightarrow> (\<And>w. idle p s (f w)) \<Longrightarrow> idle p s (case x of None \<Rightarrow> n | Some w \<Rightarrow> f w)"
    for n :: "'a node_scheme" and f :: "wave \<Rightarrow> 'a node_scheme" and x by (cases x) simp_all
  show ?thesis
    unfolding skip_def Let_def sc
    by (intro opt idle_if st idle_upd_ctx idle_upd_slot assms) simp_all
qed

lemma omit_idle:
  assumes "idle p s nd" shows "idle p s (omit s m st nd)"
proof -
  have sc: "slot_ctx nd s = p" using assms by (auto simp: idle_def owner_slot_ctx)
  have k: "id_kept (\<lambda>c. fold (\<lambda>i. upd_reply i h) js c)" for h js by (simp add: id_kept_def)
  show ?thesis
    unfolding omit_def Let_def sc by (intro idle_upd_ctx idle_upd_slot assms k) simp_all
qed

lemma publish_one_idle:
  assumes "idle p s nd" shows "idle p s (snd (publish_one e mc lc p s index nd))"
proof -
  have msg: "idle p s x \<Longrightarrow> idle p s (snd (publish_msg e mc lc p index x))" for x :: "'a node_scheme"
    unfolding publish_msg_def Let_def if_distrib [of snd] snd_conv
    by (intro idle_if idle_node idle_upd_ctx) simp_all
  show ?thesis
    unfolding publish_one_def Let_def if_distrib [of snd] snd_conv snd_map_prod id_apply
    by (intro idle_if skip_idle msg idle_node idle_upd_ctx assms) simp_all
qed

lemma publish_loop_idle:
  "idle p s nd \<Longrightarrow> idle p s (snd (snd (publish_loop e mc lc p s js n nd)))"
proof (induction js arbitrary: n nd)
  case (Cons j js)
  obtain r nd' where e: "publish_one e mc lc p s j nd = (r, nd')" by fastforce
  then have "idle p s nd'" using publish_one_idle [OF Cons.prems, of e mc lc j] by simp
  then show ?case using Cons.IH by (auto simp: e split: option.split)
qed simp

lemma cond_off_frame [simp]:
  "c_slot (snd (cond_off e lc c)) = c_slot c" "c_rid (snd (cond_off e lc c)) = c_rid c"
  "c_waiting (snd (cond_off e lc c)) = c_waiting c"
  by (simp_all add: cond_off_def Let_def)

lemma wave_omit_idle:
  assumes "idle p s nd" shows "idle p s (wave_omit e lc p s w nd)"
proof -
  have "idle p s (upd_ctx p (\<lambda>_. snd (cond_off e lc (wk_ctx nd p))) nd)"
    using assms free_const [of p nd "snd (cond_off e lc (wk_ctx nd p))"] by (simp add: idle_def free_def)
  then show ?thesis
    unfolding wave_omit_def Let_def case_prod_unfold by (intro idle_if omit_idle)
qed

lemma publish_wave_idle:
  assumes "idle p s nd" shows "idle p s (snd (bus_publish_wave e mc lc p s nd))"
proof -
  have i: "idle p s (upd_ctx p (upd_ph (p_wave_published_update f)) (upd_slot s (\<lambda>sl. sl\<lparr>sl_awaited := g sl\<rparr>) (wave_omit e lc p s w nd)))"
    for f g w
    by (intro idle_upd_ctx idle_upd_slot wave_omit_idle assms) simp_all
  show ?thesis
    unfolding bus_publish_wave_def Let_def case_prod_unfold
    by (auto simp: assms split: option.split intro!: publish_loop_idle i)
qed

subsection \<open>The end of a phase\<close>

lemma finish_done_free: "free p nd \<Longrightarrow> free p (snd (finish_done e p nd))"
proof -
  have k: "id_kept (\<lambda>c. if P c then c else upd_ph g c)" "wait_kept (\<lambda>c. if P c then c else upd_ph g c)" for P g
    by (simp_all add: id_kept_def wait_kept_def)
  assume "free p nd"
  then show ?thesis
    unfolding finish_done_def Let_def
    by (auto split: finish_how.split intro!: free_upd_ctx simp: k)
qed

lemma read_body_free: "free p nd \<Longrightarrow> free p (snd (read_body e p nd))"
  by (simp add: read_body_def Let_def free_upd_ctx)

lemma slot_drop_free:
  assumes "free p nd" shows "free p (slot_drop p nd)"
proof (cases "c_slot (wk_ctx nd p) = SLOT_NIL")
  case True
  then show ?thesis using assms by (simp add: slot_drop_def)
next
  case False
  have lk: "linked p nd" using assms by (simp add: free_def others_def linkedall_def)
  let ?s = "c_slot (wk_ctx nd p)"
  have own: "owner p ?s nd" using linkedD(2) [OF lk False] .
  have look: "slot_lookup (c_rid (wk_ctx nd p)) nd = Some ?s" using linkedD(1) [OF lk False] .
  have fr: "free p (slot_release ?s nd)" using assms own by (intro free_release) (simp add: idle_def)
  have nil: "c_slot (wk_ctx (slot_release ?s nd) p) = SLOT_NIL"
    using others_release(2) [OF _ own] assms by (simp add: free_def)
  have "slot_drop p nd = upd_ctx p (c_slot_update (\<lambda>_. SLOT_NIL)) (slot_release ?s nd)"
    using False look by (simp add: slot_drop_def)
  also have "\<dots> = upd_ctx p (\<lambda>_. (wk_ctx (slot_release ?s nd) p)\<lparr>c_slot := SLOT_NIL\<rparr>) (slot_release ?s nd)"
    by (simp add: upd_ctx_def)
  finally show ?thesis using free_const [OF fr] fr nil by (simp add: free_def)
qed

lemma finish_free: "free p nd \<Longrightarrow> free p (snd (finish e how p nd))"
  unfolding finish_def Let_def if_distrib [of snd] deadline_stop_def
  by (intro free_if read_body_free finish_done_free free_upd_ctx slot_drop_free) simp_all

lemma fail_policy_free: "free p nd \<Longrightarrow> free p (snd (fail_policy e lc p nd))"
proof -
  have k: "id_kept (\<lambda>c. (upd_ph g c)\<lparr>c_exception_response := h c\<rparr>)"
    "wait_kept (\<lambda>c. (upd_ph g c)\<lparr>c_exception_response := h c\<rparr>)" for g h
    by (simp_all add: id_kept_def wait_kept_def)
  assume "free p nd"
  then show ?thesis
    unfolding fail_policy_def Let_def case_prod_unfold if_distrib [of snd]
    by (intro free_if finish_free free_upd_ctx k) simp_all
qed

lemma phase_apply_free: "free p nd \<Longrightarrow> free p (snd (phase_apply e lc p nd))"
  unfolding phase_apply_def if_distrib [of snd]
  by (intro free_if finish_free fail_policy_free free_upd_ctx) simp_all

subsection \<open>Taking a slot\<close>

lemma acquired_free:
  assumes fr: "free p nd" and nil: "c_slot (wk_ctx nd p) = SLOT_NIL"
    and head: "t_free_head (wk_tab nd) \<noteq> SLOT_NIL"
  shows "idle p (t_free_head (wk_tab nd)) (acquired p nd)"
proof -
  let ?i = "t_free_head (wk_tab nd)" and ?w = "acquired p nd"
  have inv: "table_inv nd" and lk: "\<And>q. linked q nd"
    using fr by (auto simp: free_def others_def linkedall_def)
  have acq: "slot_acquire True p nd = (Some ?i, ?w)" using head by (simp add: slot_acquire_eq)
  note at = slot_at_acquired [OF inv head, of p]
  note head_lt = free_head_free [OF inv head]
  have gone: "sl_ctx (slot_at nd ?i) = None"
    using inv head_lt by (auto simp: table_inv_def table_wf_def)
  have oth: "wk_ctx ?w q = wk_ctx nd q" if "q \<noteq> p" for q
    using that by (simp add: acquired_def Let_def)
  have own: "owner q k ?w \<longleftrightarrow> (if k = ?i then q = p else owner q k nd)" for q k
    using head_lt(1) by (auto simp: owner_def at)
  have none: "\<not> owner p k nd" for k
    using linkedD(3) [OF lk, of p k] nil owner_not_nil [OF inv, of p k] by auto
  have "linked q ?w" for q
  proof (cases "q = p")
    case True
    show ?thesis
      unfolding True using slot_lookup_acquired [OF inv acq]
      by (intro linkedI) (auto simp: own none split: if_splits)
  next
    case False
    show ?thesis
    proof (rule linkedI)
      assume n: "c_slot (wk_ctx ?w q) \<noteq> SLOT_NIL"
      then have n': "c_slot (wk_ctx nd q) \<noteq> SLOT_NIL" by (simp add: oth [OF False])
      note l = slot_lookup_acquire_other [OF inv acq linkedD(1) [OF lk n']]
      show "slot_lookup (c_rid (wk_ctx ?w q)) ?w = Some (c_slot (wk_ctx ?w q))"
        using l by (simp add: oth [OF False])
      show "owner q (c_slot (wk_ctx ?w q)) ?w"
        using l linkedD(2) [OF lk n'] by (simp add: oth [OF False] own)
    next
      fix k assume "owner q k ?w"
      then show "c_slot (wk_ctx ?w q) = k"
        using linkedD(3) [OF lk, of q k] False by (auto simp: own oth [OF False] split: if_splits)
    qed
  qed
  moreover have "timed q ?w = timed q nd" if "q \<noteq> p" for q by (simp add: timed_def oth [OF that])
  moreover have "c_waiting (wk_ctx ?w p) = c_waiting (wk_ctx nd p)" by (simp add: acquired_def Let_def)
  ultimately show ?thesis
    using fr acquired_inv [OF inv head] by (simp add: idle_def free_def others_def linkedall_def own)
qed

lemma ensure_slot_idle:
  assumes "free p nd" and "ensure_slot e p nd = (so, nd')"
  shows "case so of None \<Rightarrow> free p nd' | Some s \<Rightarrow> idle p s nd'"
proof (cases "c_slot (wk_ctx nd p) = SLOT_NIL")
  case True
  then show ?thesis
    using assms acquired_free [OF assms(1) True] free_release [OF acquired_free [OF assms(1) True]]
    by (auto simp: ensure_slot_def slot_acquire_eq split: if_splits)
next
  case False
  have "linked p nd" using assms(1) by (simp add: free_def others_def linkedall_def)
  then show ?thesis
    using assms False linkedD(1,2) [of p nd] by (auto simp: ensure_slot_def idle_def)
qed

subsection \<open>Starting a wave\<close>

lemma wave_failed_free:
  assumes "case so of None \<Rightarrow> free p nd | Some s \<Rightarrow> idle p s nd"
  shows "free p (snd (wave_failed e lc p so cd nd))"
proof -
  have "free p (case so of None \<Rightarrow> nd | Some s \<Rightarrow> slot_release s nd)"
    using assms by (cases so) (simp_all add: free_release)
  then show ?thesis
    unfolding wave_failed_def Let_def by (intro fail_policy_free free_upd_ctx) simp_all
qed

lemma wave_prepare_idle: "idle p s nd \<Longrightarrow> idle p s (wave_prepare mc lc p s nd)"
  unfolding wave_prepare_def Let_def
  by (intro idle_upd_slot idle_upd_ctx) (auto simp: id_kept_def wait_kept_def)

text \<open>A step of the loop either ends with a worker that keeps the invariant or goes on with the
  request still free.\<close>

abbreviation loop_calm :: "nat \<Rightarrow> (ret \<times> 'a node_scheme) + 'a node_scheme \<Rightarrow> bool" where
  "loop_calm p x \<equiv> case x of Inl (r, nd) \<Rightarrow> calm nd | Inr nd \<Rightarrow> free p nd"

lemma loop_calm_Inl: "free p (snd rn) \<Longrightarrow> loop_calm p (Inl rn)"
  by (simp add: case_prod_unfold free_calm)

lemma loop_calm_if: "(P \<Longrightarrow> loop_calm p x) \<Longrightarrow> (\<not> P \<Longrightarrow> loop_calm p y) \<Longrightarrow> loop_calm p (if P then x else y)"
  by simp

lemma wave_wait_calm:
  assumes "idle p s nd"
  shows "calm (upd_ctx p (\<lambda>c. c\<lparr>c_state := ST_WAITING, c_waiting := True\<rparr>) (deadline_arm lc p s nd))"
proof -
  have h: "others p nd" "owner p s nd" "alert p nd" using assms by (simp_all add: idle_def free_def alert_def)
  have "calm (deadline_arm lc p s nd)" by (rule arm_calm [OF h])
  then have "others p (deadline_arm lc p s nd)" by (simp add: calm_iff [of _ p])
  then have "others p (upd_ctx p (\<lambda>c. c\<lparr>c_state := ST_WAITING, c_waiting := True\<rparr>) (deadline_arm lc p s nd))"
    by (rule others_upd_ctx) simp
  moreover have "c_slot (wk_ctx nd p) = s" "s \<noteq> SLOT_NIL"
    using h owner_not_nil [of nd p s] linkedD(3) [of p nd s] by (auto simp: others_def linkedall_def)
  ultimately show ?thesis by (auto simp: calm_iff [of _ p] timed_def deadline_arm_def Let_def)
qed

lemma wave_publish_calm:
  assumes "idle p s nd" shows "loop_calm p (wave_publish e mc lc p s nd)"
proof -
  obtain r w where pub: "bus_publish_wave e mc lc p s (wave_prepare mc lc p s nd) = (r, w)" by fastforce
  have w: "idle p s w"
    using publish_wave_idle [OF wave_prepare_idle [OF assms], of e mc lc mc lc] by (simp add: pub)
  let ?w = "upd_ctx p (rewrite_settle e mc (sl_got (slot_at w s))) w"
  have rel: "free p (slot_release s ?w)" by (intro free_release idle_upd_ctx w) simp_all
  have stop: "free p (slot_release s (deadline_stop p ?w))"
    unfolding deadline_stop_def by (intro free_release idle_upd_ctx w) simp_all
  have "free p (snd (phase_apply e lc p (upd_ctx p (fail_pass lc) (upd_ctx p (resolve_verdict mc lc)
      (slot_release s (deadline_stop p ?w))))))"
    by (intro phase_apply_free free_upd_ctx stop) simp_all
  note ends = free_calm [OF this] free_calm [OF free_release [OF assms]]
    free_calm [OF wave_failed_free [where so = "Some s" and nd = w and e = e and lc = lc and cd = CODE_FAIL_BUS]]
  show ?thesis
    unfolding wave_publish_def pub
    using ends w rel wave_wait_calm [OF w, of lc] by (auto simp: Let_def case_prod_unfold)
qed

lemma wave_body_calm:
  assumes "idle p s nd" shows "loop_calm p (wave_body e mc lc p wave s nd)"
proof -
  have f: "free p (upd_ctx p (c_state_update g) nd)" for g
    using idle_free [OF assms] by (intro free_upd_ctx) simp_all
  show ?thesis
    unfolding wave_body_def Let_def
    by (intro loop_calm_if loop_calm_Inl wave_publish_calm wave_failed_free)
       (simp_all add: assms f free_calm)
qed

lemma wave_once_calm:
  assumes "free p nd" shows "loop_calm p (wave_once e mc lc p wave nd)"
proof -
  let ?w = "upd_ctx p (upd_ph (p_wave_update (\<lambda>_. wave))) nd"
  have w: "free p ?w" by (intro free_upd_ctx assms) simp_all
  have rd: "free p (snd (read_body e p (upd_ctx p (c_state_update g) ?w)))" for g
    by (intro read_body_free free_upd_ctx w) simp_all
  obtain so w1 where en: "ensure_slot e p ?w = (so, w1)" by fastforce
  have w1: "case so of None \<Rightarrow> free p w1 | Some s \<Rightarrow> idle p s w1" using ensure_slot_idle [OF w en] .
  let ?m = "upd_ctx p (upd_ph (p_meta_settled_update (\<lambda>_. True))) w1"
  have m: "idle p s ?m" if "so = Some s" for s
    by (intro idle_upd_ctx) (use w1 that in simp_all)
  have f: "free p (upd_ctx p (c_state_update g) ?m)" if "so = Some s" for g s
    by (intro free_upd_ctx idle_free [OF m [OF that]]) simp_all
  show ?thesis
  proof (cases so)
    case None
    then show ?thesis
      unfolding wave_once_def Let_def en using w1
      by (auto simp: case_prod_unfold intro!: free_calm rd wave_failed_free)
  next
    case (Some s)
    have i: "idle p s w1" using w1 Some by simp
    show ?thesis
      unfolding wave_once_def Let_def en Some prod.case option.case
      by (intro loop_calm_if loop_calm_Inl wave_body_calm wave_failed_free rd m [OF Some] f [OF Some] i)
         (simp_all add: m [OF Some] f [OF Some])
  qed
qed

lemma wave_start_calm: "free p nd \<Longrightarrow> calm (snd (wave_start e mc lc p wave nd))"
proof (induction e mc lc p wave nd rule: wave_start.induct)
  case (1 e mc lc p wave nd)
  note wave_once_calm [OF "1.prems", of e mc lc wave]
  then show ?case
    using "1.IH" by (subst wave_start.simps) (auto split: sum.split)
qed

subsection \<open>The access handler\<close>

text \<open>A context no request uses yet.\<close>

definition fresh :: "nat \<Rightarrow> 'a worker_scheme \<Rightarrow> bool" where
  "fresh p nd \<longleftrightarrow> \<not> c_waiting (wk_ctx nd p) \<and> c_slot (wk_ctx nd p) = SLOT_NIL"

lemma local_deny_free: "free p nd \<Longrightarrow> free p (snd (local_deny e rule response cd p nd))"
  unfolding local_deny_def
  by (intro finish_free free_upd_ctx) (simp_all add: id_kept_def wait_kept_def)

lemma handshake_free: "free p nd \<Longrightarrow> free p (snd (handshake_guard e lc upgrade p nd))"
  unfolding handshake_guard_def if_distrib [of snd] snd_conv by (intro free_if local_deny_free)

lemma local_checks_free: "free p nd \<Longrightarrow> free p (snd (local_checks e p nd))"
  unfolding local_checks_def Let_def case_prod_unfold if_distrib [of snd] snd_conv
  by (intro free_if local_deny_free finish_free free_upd_ctx) simp_all

lemma waves_pending_frame [simp]:
  "c_slot (snd (waves_pending e lc c)) = c_slot c" "c_rid (snd (waves_pending e lc c)) = c_rid c"
  "c_waiting (snd (waves_pending e lc c)) = c_waiting c"
  by (simp_all add: waves_pending_def Let_def case_prod_unfold)

lemma create_free:
  assumes "others p nd" "c_slot (wk_ctx nd p) = SLOT_NIL"
  shows "free p (upd_ctx p (\<lambda>_. ctx_create ray) nd)"
proof -
  have c: "c_slot (ctx_create ray) = SLOT_NIL" "\<not> c_waiting (ctx_create ray)"
    by (simp_all add: ctx_create_def phase_enter_def ctx0_def)
  let ?w = "upd_ctx p (\<lambda>_. ctx_create ray) nd"
  have st: "same_table nd ?w" by (rule same_table_tab) simp
  have lk: "linked q nd" for q using assms(1) by (simp add: others_def linkedall_def)
  have none: "\<not> owner p k nd" for k
    using linkedD(3) [OF lk, of p k] owner_not_nil [of nd p k] assms by (auto simp: others_def linkedall_def)
  have "linked q ?w" for q
    using lk [of q] c none unfolding linked_def same_table_lookup [OF st] by (cases "q = p") auto
  then show ?thesis
    using assms(1) st c(2) by (simp add: free_def others_def linkedall_def timed_def same_table_def)
qed

lemma detach_others:
  assumes "others p nd"
  shows "others p (slot_detach p nd)" "c_slot (wk_ctx (slot_detach p nd) p) = SLOT_NIL"
proof -
  let ?t = "if c_timer (wk_ctx nd p) \<noteq> None then upd_ctx p (c_timer_update (\<lambda>_. None)) nd else nd"
  let ?s = "c_slot (wk_ctx nd p)"
  have t: "others p ?t" using others_upd_ctx [OF assms] assms by simp
  have lk: "linked p ?t" and inv: "table_inv ?t" using t by (simp_all add: others_def linkedall_def)
  have f: "c_slot (wk_ctx ?t p) = ?s" "c_rid (wk_ctx ?t p) = c_rid (wk_ctx nd p)" by simp_all
  have "others p (slot_detach p nd) \<and> c_slot (wk_ctx (slot_detach p nd) p) = SLOT_NIL"
  proof (cases "?s = SLOT_NIL")
    case True
    then have "slot_detach p nd = ?t"
      using inv f unfolding slot_detach_def Let_def by (auto simp: table_inv_def table_wf_def)
    then show ?thesis using t f True by simp
  next
    case False
    have own: "owner p ?s ?t" and look: "slot_lookup (c_rid (wk_ctx nd p)) ?t = Some ?s"
      using linkedD(1,2) [OF lk] False f by simp_all
    note rel = others_release [OF t own]
    have "slot_detach p nd = upd_ctx p (c_slot_update (\<lambda>_. SLOT_NIL)) (slot_release ?s ?t)"
      using look own unfolding slot_detach_def Let_def f
      by (auto simp: slot_lookup_Some_iff owner_def)
    also have "\<dots> = upd_ctx p (\<lambda>_. (wk_ctx (slot_release ?s ?t) p)\<lparr>c_slot := SLOT_NIL\<rparr>) (slot_release ?s ?t)"
      by (simp add: upd_ctx_def)
    finally show ?thesis using others_const [OF rel(1)] rel(2) by simp
  qed
  then show "others p (slot_detach p nd)" "c_slot (wk_ctx (slot_detach p nd) p) = SLOT_NIL" by auto
qed

lemma access_new_calm:
  assumes "calm nd" "fresh p nd"
  shows "calm (snd (access_new e mc lc main ray upgrade p nd))"
proof -
  let ?w = "upd_ctx p (\<lambda>_. ctx_create ray) nd"
  obtain r1 w1 where hs: "handshake_guard e lc upgrade p ?w = (r1, w1)" by fastforce
  obtain r2 w2 where lch: "local_checks e p w1 = (r2, w2)" by fastforce
  obtain b c where wp: "waves_pending e lc (wk_ctx w2 p) = (b, c)" by fastforce
  have 1: "free p w1" using handshake_free [OF create_free, of p nd e lc upgrade ray] assms by (simp add: hs fresh_def calm_iff [of nd p])
  have 2: "free p w2" using local_checks_free [OF 1, of e] by (simp add: lch)
  have c: "c_slot c = c_slot (wk_ctx w2 p)" "c_rid c = c_rid (wk_ctx w2 p)" "\<not> c_waiting c"
    using waves_pending_frame [of e lc "wk_ctx w2 p"] 2 by (simp_all add: wp free_def)
  have 3: "free p (upd_ctx p (\<lambda>_. c) w2)" "free p (upd_ctx p (\<lambda>_. c\<lparr>c_state := ST_DONE\<rparr>) w2)"
    using c by (auto intro!: free_const [OF 2])
  show ?thesis
    unfolding access_new_def Let_def hs lch wp prod.case
    using assms(1) free_calm [OF 1] free_calm [OF 2] wave_start_calm [OF 3(1)] free_calm [OF finish_free [OF 3(2)]]
    by (simp add: if_distrib [of snd])
qed

lemma calm_waiting: "calm nd \<Longrightarrow> c_waiting (wk_ctx nd p) \<Longrightarrow> c_state (wk_ctx nd p) = ST_WAITING"
  by (simp add: calm_def timed_def)

lemma access_again_calm:
  assumes "calm nd" shows "calm (snd (access_again e mc lc main p nd))"
proof (cases "c_waiting (wk_ctx nd p)")
  case True
  then show ?thesis using assms calm_waiting [OF assms True] by (simp add: access_again_def)
next
  case False
  have f: "free p nd" using assms(1) False by (rule calm_free)
  then have "free p (upd_ctx p (c_state_update g) nd)" for g by (intro free_upd_ctx) simp_all
  then show ?thesis
    using f unfolding access_again_def
    by (auto split: wstate.split intro!: free_calm read_body_free finish_done_free phase_apply_free
        wave_start_calm)
qed

lemma phase_resume_calm: "free p nd \<Longrightarrow> calm (snd (phase_resume e mc lc p nd))"
  unfolding phase_resume_def
  by (auto split: wstate.split intro: free_calm finish_done_free phase_apply_free wave_start_calm)

lemma return_free: "free p nd \<Longrightarrow> calm (return_to_phases p nd)"
  by (simp add: return_to_phases_calm free_def)

lemma store_calm:
  assumes "calm nd"
  shows "calm (form_resumed p nd)" "calm (body_resumed p r nd)" "calm (body_ready p nd)"
proof -
  have body: "calm (body_resumed p r nd)" if "calm nd" for r and nd :: "'a node_scheme"
  proof (cases "c_waiting (wk_ctx nd p)")
    case True
    then show ?thesis using calm_waiting [OF that] that by (simp add: body_resumed_def)
  next
    case False
    then have "free p nd" using calm_free that by blast
    then show ?thesis
      unfolding body_resumed_def by (intro calm_if free_calm return_free free_upd_ctx slot_drop_free) simp_all
  qed
  then show "calm (body_resumed p r nd)" using assms .
  have "others p nd" "timed p nd" using assms by (simp_all add: calm_iff [of _ p])
  then have "calm (upd_ctx p (upd_ph f) nd)" for f
    by (simp add: calm_iff [of _ p] others_upd_ctx timed_def)
  then show "calm (body_ready p nd)" unfolding body_ready_def by (rule body)
  show "calm (form_resumed p nd)"
  proof (cases "c_waiting (wk_ctx nd p)")
    case True
    then show ?thesis using calm_waiting [OF assms] assms by (simp add: form_resumed_def)
  next
    case False
    then have "free p nd" using calm_free assms by blast
    then show ?thesis unfolding form_resumed_def by (intro calm_if free_calm return_free free_upd_ctx) simp_all
  qed
qed

subsection \<open>Every interleaving\<close>

text \<open>
  The events of a worker: a new request with a context nobody uses, the access handler entered
  again, the re-entry of the phases \<open>return_to_phases\<close> asked for, an answer or a refusal from the
  bus, the deadline of a request when its moment has come (nginx takes the timer out before it calls
  the handler), the store that has placed or fetched an object, the end of a request (its pool runs
  \<open>slot_detach\<close> and its context number is blank again), and time passing. Each event carries
  its own surroundings.
\<close>

inductive worker_step :: "node \<Rightarrow> node \<Rightarrow> bool" where
  new: "fresh p nd \<Longrightarrow> worker_step nd (snd (access_new e mc lc main ray upgrade p nd))"
| again: "worker_step nd (snd (access_again e mc lc main p nd))"
| reentered: "nd_ready nd = p # rest \<Longrightarrow> \<not> c_waiting (wk_ctx nd p)
    \<Longrightarrow> worker_step nd (snd (phase_resume e mc lc p (nd\<lparr>nd_ready := rest\<rparr>)))"
| answer: "worker_step nd (bus_dispatch e mc lc decode rid index payload nd)"
| refused: "worker_step nd (bus_absent e mc lc rid index nd)"
| deadline: "c_timer (wk_ctx nd p) = Some at \<Longrightarrow> msec_diff at (wk_now nd) \<le> 0
    \<Longrightarrow> worker_step nd (on_deadline e mc lc p (deadline_stop p nd))"
| placed: "worker_step nd (body_resumed p r nd)"
| have_body: "worker_step nd (body_ready p nd)"
| fetched: "worker_step nd (form_resumed p nd)"
| gone: "worker_step nd (upd_ctx p (\<lambda>_. ctx_create []) (slot_detach p nd))"
| time: "worker_step nd (nd\<lparr>wk_now := t\<rparr>)"

lemma calm_same: "calm nd \<Longrightarrow> wk_tab nd' = wk_tab nd \<Longrightarrow> wk_ctx nd' = wk_ctx nd \<Longrightarrow> calm nd'"
  using others_same [of 0 nd nd'] by (simp add: calm_iff [of _ 0] timed_def)

lemma deadline_step_calm: "calm nd \<Longrightarrow> calm (on_deadline e mc lc p (deadline_stop p nd))"
proof (rule on_deadline_calm)
  assume c: "calm nd"
  then show "others p (deadline_stop p nd)"
    unfolding deadline_stop_def by (intro others_upd_ctx) (simp_all add: calm_iff [of _ p])
  show "alert p (deadline_stop p nd)"
    using calm_waiting [OF c] by (simp add: deadline_stop_def alert_def)
  show "c_slot (wk_ctx (deadline_stop p nd) p) \<noteq> SLOT_NIL" if "c_waiting (wk_ctx (deadline_stop p nd) p)"
    using c that by (simp add: deadline_stop_def calm_def timed_def)
qed

lemma worker_step_calm: "worker_step nd nd' \<Longrightarrow> calm nd \<Longrightarrow> calm nd'"
proof (induction rule: worker_step.induct)
  case (reentered nd p rest e mc lc)
  have "calm (nd\<lparr>nd_ready := rest\<rparr>)" using reentered.prems by (rule calm_same) simp_all
  then show ?case by (intro phase_resume_calm calm_free) (use reentered.hyps in simp_all)
next
  case (gone nd p)
  have "others p nd" using gone by (simp add: calm_iff [of _ p])
  then show ?case by (intro free_calm [OF create_free] detach_others)
next
  case (time nd t)
  then show ?case by (rule calm_same) simp_all
qed (simp_all add: access_new_calm access_again_calm dispatch_calm absent_calm deadline_step_calm store_calm)

inductive worker_run :: "node \<Rightarrow> node \<Rightarrow> bool" where
  started: "worker_run nd nd"
| stepped: "worker_run nd nd' \<Longrightarrow> worker_step nd' nd'' \<Longrightarrow> worker_run nd nd''"

lemma worker_run_calm: "worker_run nd nd' \<Longrightarrow> calm nd \<Longrightarrow> calm nd'"
  by (induction rule: worker_run.induct) (auto intro: worker_step_calm)

lemma no_slots_calm:
  assumes "table_inv nd" and "\<And>k. k < t_nslots (wk_tab nd) \<Longrightarrow> sl_ctx (slot_at nd k) = None"
    and "\<And>q. fresh q nd"
  shows "calm nd"
  using assms by (auto simp: calm_def linkedall_def linked_def owner_def timed_def fresh_def)

end
