(* ===== verification/Verdict_Props.thy ===== *)
theory Verdict_Props
  imports Handler_Laws
begin

text \<open>
  The properties of the answers, the control actions and the verdict. They rest on the lemmas of
  \<open>Verdict_Laws\<close>; \<open>absorb\<close> is the part of the reply handler that stores an answer.
\<close>

subsection \<open>Modes\<close>

text \<open>
  C11: In a wave that the configuration built, every inspector has exactly one mode, the one a
  control action gave it in this phase or else that of its line, and the five masks of the wave are
  the inspectors of those modes: those switched off, those only watched, those that vote, those
  that have to answer and those whose denial is final.
\<close>

theorem wave_modes:
  assumes "distinct (map b_index (lc_inspects lc phase))"
    and "fst (waves_build True (\<lambda>_. True) mc lc phase) = Some ws" and "w \<in> set ws"
    and "ctl_ok (c_ctl c (c_phase c))"
  shows "(bit (wave_off c w) i \<longleftrightarrow> bit (w_all w) i \<and> effective c w i = MODE_OFF)
    \<and> (bit (wave_passive c w) i \<longleftrightarrow> bit (w_all w) i \<and> effective c w i = MODE_PASSIVE)
    \<and> (bit (wave_vote c w) i \<longleftrightarrow> bit (w_all w) i \<and> effective c w i = MODE_VOTE)
    \<and> (bit (wave_mandatory c w) i \<longleftrightarrow> bit (w_all w) i \<and> effective c w i \<in> {MODE_ACTIVE, MODE_VOTE})
    \<and> (bit (wave_gating c w) i \<longleftrightarrow> bit (w_all w) i \<and> effective c w i = MODE_ACTIVE)"
proof -
  have "wave_ok w" using waves_build_ok [OF assms(1,2)] assms(3) by (simp add: list_all_iff)
  from effective_masks [OF assms(4) this] show ?thesis by blast
qed

lemma ctx_create_phase [simp]: "c_phase (ctx_create ray) = PH_REQUEST" "c_ctl (ctx_create ray) = (\<lambda>_. control0)"
  by (simp_all add: ctx_create_def phase_enter_def ctx0_def)

lemma control0_ok: "ctl_ok control0"
  by (simp add: ctl_ok_def control0_def)

text \<open>The two waves of the sample route: inspectors 1 (passive) and 2 (voting), then 0 (active).\<close>

definition sample_waves :: "wave list" where
  "sample_waves =
     [wave_of (lc_shoot sample_conf PH_REQUEST) True
        [sample_binding 1 2 MODE_PASSIVE PH_REQUEST, sample_binding 2 2 MODE_VOTE PH_REQUEST],
      wave_of (lc_shoot sample_conf PH_REQUEST) False [sample_binding 0 5 MODE_ACTIVE PH_REQUEST]]"

lemma sample_waves_build:
  "fst (waves_build True (\<lambda>_. True) sample_main sample_conf PH_REQUEST) = Some sample_waves"
proof -
  let ?bs = "lc_inspects sample_conf PH_REQUEST"
  have bs: "?bs = [sample_binding 0 5 MODE_ACTIVE PH_REQUEST, sample_binding 1 2 MODE_PASSIVE PH_REQUEST,
      sample_binding 2 2 MODE_VOTE PH_REQUEST]"
    by (simp add: sample_conf_def)
  have "filter (\<lambda>n. list_ex (in_wave PH_REQUEST n) ?bs) [0..<65] = filter (\<lambda>n. n = 5 \<or> n = 2) [0..<65]"
    by (intro filter_cong) (auto simp: bs in_wave_def sample_binding_def)
  also have "\<dots> = [2, 5]" by code_simp
  finally have ns: "filter (\<lambda>n. list_ex (in_wave PH_REQUEST n) ?bs) [0..<65] = [2, 5]" .
  have "[0..<length [2 :: nat, 5]] = [0, 1]" by code_simp
  moreover have "filter (in_wave PH_REQUEST 2) ?bs
      = [sample_binding 1 2 MODE_PASSIVE PH_REQUEST, sample_binding 2 2 MODE_VOTE PH_REQUEST]"
    "filter (in_wave PH_REQUEST 5) ?bs = [sample_binding 0 5 MODE_ACTIVE PH_REQUEST]"
    by (simp_all add: bs in_wave_def sample_binding_def)
  ultimately show ?thesis
    using waves_loop_eq [of "lc_shoot sample_conf PH_REQUEST" PH_REQUEST ?bs True "[]" "[0..<65]"]
    by (simp add: waves_build_def Let_def ns sample_waves_def bs [symmetric] del: upt_Suc)
       (simp add: bs)
qed

theorem wave_modes_witness:
  "bit (wave_gating (ctx_create []) (sample_waves ! 1)) 0
   \<and> bit (wave_vote (ctx_create []) (sample_waves ! 0)) 2"
proof -
  have d: "distinct (map b_index (lc_inspects sample_conf PH_REQUEST))"
    by (simp add: sample_conf_def sample_binding_def)
  have k: "ctl_ok (c_ctl (ctx_create []) (c_phase (ctx_create [])))" by (simp add: control0_ok)
  have m: "sample_waves ! 0 \<in> set sample_waves" "sample_waves ! 1 \<in> set sample_waves"
    by (simp_all add: sample_waves_def)
  have "bit (wave_gating (ctx_create []) (sample_waves ! 1)) 0"
    using wave_modes [OF d sample_waves_build m(2) k, of 0]
    by (simp add: effective_def override_def configured_def control0_def sample_waves_def wave_of_masks
        sample_binding_def)
  moreover have "bit (wave_vote (ctx_create []) (sample_waves ! 0)) 2"
    using wave_modes [OF d sample_waves_build m(1) k, of 2]
    by (simp add: effective_def override_def configured_def control0_def sample_waves_def wave_of_masks
        sample_binding_def)
  ultimately show ?thesis ..
qed


definition sample_action :: "verb \<Rightarrow> nat \<Rightarrow> action" where
  "sample_action v to =
     \<lparr>a_verb = v, a_to = to, a_to_phases = 0, a_code = [], a_apply = APPLY_REQUEST, a_delta = 0,
      a_value = 0, a_counter = [], a_group = [], a_set = SET_NONE, a_marker = [], a_spec = ovr_part0,
      a_from = 1, a_phase = PH_REQUEST, a_wave = 0, a_passive = False\<rparr>"


subsection \<open>The verdict\<close>

text \<open>
  C10: The outcome of a phase over the stored answers of all inspectors. A denial of an active
  inspector wins, and the answer that is reported as decisive is the best denial (the first to come
  in when denials are fast, the first in the order of the inspectors otherwise); then a score at the
  threshold denies; then the best redirect; then a recorded failure fails the phase; only when there
  is none of them the request is allowed.
\<close>

theorem decision_table:
  assumes "p_replies (ph c) = Some rs" and "length rs = length (mc_inspectors mc)"
  shows "\<exists>d. let c' = resolve_verdict mc lc c; dm = lc_deny_mode lc (c_phase c);
             has = (\<lambda>v. \<exists>r\<in>set rs. candidate v r);
             over = (0 < lc_score_deny lc (c_phase c) \<and> lc_score_deny lc (c_phase c) \<le> p_score (ph c))
         in (c_state c', p_verdict (ph c'), p_code (ph c'), p_decisive (ph c')) =
              (if has V_DENY then (ST_DENY, V_DENY, CODE_INSPECTOR, Some d)
               else if over then (ST_DENY, V_DENY, CODE_SCORE, None)
               else if has V_REDIRECT then (ST_REDIRECT, V_REDIRECT, CODE_INSPECTOR, Some d)
               else if p_fail (ph c) \<noteq> CODE_NONE then (ST_FAILED, V_ALLOW, CODE_NONE, None)
               else (ST_ALLOW, V_ALLOW, CODE_NONE, None))
            \<and> (has V_DENY \<longrightarrow> best_of dm V_DENY rs d)
            \<and> (\<not> has V_DENY \<and> \<not> over \<and> has V_REDIRECT \<longrightarrow> best_of dm V_REDIRECT rs d)"
proof -
  have ans: "answered mc v c \<longleftrightarrow> (\<exists>r\<in>set rs. candidate v r)" for v
    using assms by (simp add: answered_def list_ex_iff)
  have pk: "\<exists>d. pick mc lc v c = Some d \<and> best_of (lc_deny_mode lc (c_phase c)) v rs d" if "answered mc v c" for v
    using that pick_None_iff [of mc lc v c] pick_cases [OF assms, where lc = lc and v = v] by (auto split: option.splits)
  have none: "\<not> answered mc v c \<Longrightarrow> pick mc lc v c = None" for v
    using pick_None_iff by blast
  show ?thesis
    using pk [of V_DENY] pk [of V_REDIRECT] none
    unfolding Let_def resolve_state resolve_verdict_value resolve_code resolve_decisive ans [symmetric]
      over_score_def score_deny_at_def
    by (cases "answered mc V_DENY c"; cases "answered mc V_REDIRECT c") auto
qed

text \<open>A context in its first wave with three inspectors, none of which has answered.\<close>

definition sample_ctx :: ctx where
  "sample_ctx = upd_ph (p_replies_update (\<lambda>_. Some (replicate 3 reply0))) (ctx_create [])"

lemma sample_ctx_replies: "p_replies (ph sample_ctx) = Some (replicate 3 reply0)" "c_phase sample_ctx = PH_REQUEST"
  by (simp_all add: sample_ctx_def)

theorem decision_table_witness:
  "c_state (resolve_verdict sample_main sample_conf
     (upd_reply 0 (\<lambda>r. r\<lparr>r_received := True, r_verdict := V_DENY, r_order := 2\<rparr>) sample_ctx)) = ST_DENY"
proof -
  let ?r = "reply0\<lparr>r_received := True, r_verdict := V_DENY, r_order := 2\<rparr>"
  let ?c = "upd_reply 0 (\<lambda>r. r\<lparr>r_received := True, r_verdict := V_DENY, r_order := 2\<rparr>) sample_ctx"
  have "p_replies (ph ?c) = Some [?r, reply0, reply0]" by (simp add: sample_ctx_replies numeral_3_eq_3)
  from decision_table [OF this, of sample_main sample_conf] show ?thesis
    by (auto simp: Let_def sample_main_def candidate_def reply0_def)
qed

subsection \<open>Scores\<close>

text \<open>What accounting keeps of the stored answers.\<close>

definition reply_flags :: "reply \<Rightarrow> bool \<times> bool \<times> bool" where
  "reply_flags r = (r_received r, r_passive r, r_vote r)"

definition same_replies :: "nat \<Rightarrow> reply list \<Rightarrow> ctx \<Rightarrow> bool" where
  "same_replies index rs d \<longleftrightarrow>
     (\<exists>rs'. p_replies (ph d) = Some rs' \<and> map reply_flags rs' = map reply_flags rs
          \<and> (\<forall>j. j \<noteq> index \<longrightarrow> rs' ! j = rs ! j))"

lemma same_replies_upd:
  assumes "same_replies index rs d" "\<And>r. reply_flags (f r) = reply_flags r"
  shows "same_replies index rs (upd_reply index f d)"
proof -
  obtain rs' where r: "p_replies (ph d) = Some rs'" "map reply_flags rs' = map reply_flags rs"
      "\<forall>j. j \<noteq> index \<longrightarrow> rs' ! j = rs ! j"
    using assms(1) unfolding same_replies_def by blast
  have "map reply_flags (rs'[index := f (rs' ! index)]) = map reply_flags rs'"
    by (rule list_update_map_id) (simp only: assms(2))
  then show ?thesis using r by (simp add: same_replies_def)
qed

lemma same_replies_ph:
  "same_replies index rs d \<Longrightarrow> (\<And>p. p_replies (f p) = p_replies p) \<Longrightarrow> same_replies index rs (upd_ph f d)"
  by (simp add: same_replies_def)

lemma account_replies:
  assumes "p_replies (ph c) = Some rs" shows "same_replies index rs (account index c)"
proof -
  have c: "same_replies index rs c" using assms by (simp add: same_replies_def)
  have sc: "same_replies index rs (account_score index d)" if "same_replies index rs d" for d
    unfolding account_score_def Let_def using that by (auto intro: same_replies_ph)
  show ?thesis
    unfolding account_def Let_def
    by (auto intro!: same_replies_upd same_replies_ph sc c simp: reply_flags_def)
qed

lemma account_passive:
  assumes "p_replies (ph c) = Some rs" "index < length rs" "r_passive (rs ! index)"
  shows "p_score (ph (account index c)) = p_score (ph c)"
  using assms by (simp add: account_def account_score_def Let_def reply_at_def)

lemma account_ctl [simp]: "c_ctl (account index c) = c_ctl c"
  by (simp add: account_def account_score_def Let_def)

lemma absorb_score_ok:
  assumes ok: "score_ok c" and rs: "p_replies (ph c) = Some rs" "index < length rs"
    and new: "\<not> r_received (rs ! index)" and rep: "reply_ok (c_phase c) reply"
  shows "score_ok (absorb e mc lc index reply w latency sw c)"
    and "\<exists>rs'. p_replies (ph (absorb e mc lc index reply w latency sw c)) = Some rs' \<and> length rs' = length rs"
proof -
  let ?st = "reply\<lparr>r_received := True, r_state := ENTRY_ANSWERED,
                   r_passive := (wave_passive c w AND bit64 index \<noteq> 0),
                   r_vote := (wave_vote c w AND bit64 index \<noteq> 0), r_latency := latency, r_wave := sw\<rparr>"
  let ?c = "upd_reply index (\<lambda>_. ?st) c" and ?rs = "rs[index := ?st]"
  have c: "p_replies (ph ?c) = Some ?rs" using rs by simp
  have sum: "p_score (ph ?c) = score_sum ?rs - score_of (?rs ! index)" "0 \<le> p_score (ph ?c)"
    using ok rs new by (simp_all add: score_ok_def score_sum_upd score_of_def)
  have all: "list_all (\<lambda>r. \<bar>r_score r\<bar> \<le> 100) ?rs"
    using ok rs rep by (auto simp: score_ok_def list_all_iff reply_ok_def dest!: set_update_subset_insert [THEN subsetD])
  have a: "score_ok (account index ?c)"
    using account_score_ok [OF c _ _ _ sum all] rs rep by (simp add: reply_ok_def)
  obtain rs1 where rs1: "p_replies (ph (account index ?c)) = Some rs1" "map reply_flags rs1 = map reply_flags ?rs"
    using account_replies [OF c, of index] by (auto simp: same_replies_def)
  have len: "length rs1 = length rs" using arg_cong [OF rs1(2), of length] by simp
  have rec: "r_received (rs1 ! index)"
    using arg_cong [OF rs1(2), of "\<lambda>xs. xs ! index"] rs(2) len by (simp add: reply_flags_def)
  show "score_ok (absorb e mc lc index reply w latency sw c)"
    using score_ok_merges(1) [OF a rs1(1) _ rec] rs len by (simp add: absorb_def Let_def score_ok_merges(2))
  have "absorb e mc lc index reply w latency sw c
      = sessions_merge (e_alloc e) (e_buf e) index (actions_merge (e_alloc e) mc lc index sw (account index ?c))"
    using rs by (simp add: absorb_def Let_def)
  then show "\<exists>rs'. p_replies (ph (absorb e mc lc index reply w latency sw c)) = Some rs' \<and> length rs' = length rs"
    using keepsD(15) [OF keeps_absorb_rest, of "e_alloc e" "e_buf e" index mc lc sw ?c] rs1(1) len
    by (auto dest: arg_cong [of _ _ length])
qed

text \<open>
  The score of a phase is exact and bounded. Absorbing the first answer of an inspector keeps
  the invariant that the score is the sum of what the stored, not passive answers contribute, that
  it is never negative and that every answer contributes between -100 and 100; so after it the
  score lies between 0 and 100 for each inspector, far from the range of a machine integer. This
  includes the score actions the answer carries, which correct earlier contributions.
\<close>

theorem score_bounded:
  assumes "score_ok c" and "p_replies (ph c) = Some rs" and "index < length rs"
    and "\<not> r_received (rs ! index)" and "reply_ok (c_phase c) reply"
  shows "let c' = absorb e mc lc index reply w latency sw c in
         score_ok c' \<and> 0 \<le> p_score (ph c') \<and> p_score (ph c') \<le> SCORE_MAX * int (length rs)"
proof -
  obtain rs' where "p_replies (ph (absorb e mc lc index reply w latency sw c)) = Some rs'" "length rs' = length rs"
    using absorb_score_ok(2) [OF assms] by blast
  then show ?thesis
    using absorb_score_ok(1) [OF assms] score_ok_bound by (metis (mono_tags, lifting))
qed

definition sample_env :: env where
  "sample_env =
     \<lparr>e_crc = (\<lambda>_. 7), e_alloc = (\<lambda>_ _. True), e_buf = True, e_live_ok = True, e_stale_ok = True,
      e_replies_ok = True, e_cln_slot = True, e_cln_resume = True, e_bus = True,
      e_msg = (\<lambda>_ _. True), e_publish = (\<lambda>_ _. True), e_cond = (\<lambda>_. True),
      e_meta_place = (\<lambda>_. NGX_OK), e_body_place = (\<lambda>_. NGX_OK), e_get_body = RET NGX_DONE,
      e_agent_needs_body = False, e_form_fetch = NGX_OK, e_send_fetch = NGX_OK, e_apply = RET NGX_DECLINED,
      e_overrides = RET NGX_DECLINED, e_read_body = RET NGX_DONE, e_shm = True,
      e_dataset_check = (NGX_DECLINED, [], []), e_rate_check = (NGX_OK, [], []),
      e_fail_status = STATUS 503, e_frame_finish = (\<lambda>_. RET NGX_OK)\<rparr>"

lemma sample_ctx_score: "score_ok sample_ctx"
  by (simp add: score_ok_def sample_ctx_replies score_sum_def score_of_def reply0_def numeral_3_eq_3)
     (simp add: sample_ctx_def ctx_create_def phase_enter_def ph_def upd_ph_def ctx0_def phase_ctx0_def)

theorem score_bounded_witness:
  "0 \<le> p_score (ph (absorb sample_env sample_main sample_conf 2
     (reply0\<lparr>r_verdict := V_SCORE, r_score := 40\<rparr>) (sample_waves ! 0) 3 0 sample_ctx))"
proof -
  have "reply_ok (c_phase sample_ctx) (reply0\<lparr>r_verdict := V_SCORE, r_score := 40\<rparr>)"
    by (simp add: reply_ok_def)
  with sample_ctx_score sample_ctx_replies(1) show ?thesis
    using score_bounded [of sample_ctx "replicate 3 reply0" 2] by (simp add: Let_def reply0_def)
qed

subsection \<open>Passive inspectors\<close>

text \<open>
  C13: An inspector that is only watched has no say. Absorbing its answer, whatever it is and
  whatever actions it carries, changes neither the score nor the modes of the inspectors, and
  the phase would be decided exactly as without it.
\<close>

theorem passive_has_no_say:
  assumes "p_replies (ph c) = Some rs" and "index < length rs" and "\<not> r_received (rs ! index)"
    and "bit (wave_passive c w) index"
  shows "let c' = absorb e mc lc index reply w latency sw c in
         p_score (ph c') = p_score (ph c) \<and> c_ctl c' = c_ctl c
         \<and> c_state (resolve_verdict mc lc c') = c_state (resolve_verdict mc lc c)"
proof -
  let ?st = "reply\<lparr>r_received := True, r_state := ENTRY_ANSWERED,
                   r_passive := (wave_passive c w AND bit64 index \<noteq> 0),
                   r_vote := (wave_vote c w AND bit64 index \<noteq> 0), r_latency := latency, r_wave := sw\<rparr>"
  let ?c = "upd_reply index (\<lambda>_. ?st) c" and ?rs = "rs[index := ?st]"
  let ?c' = "absorb e mc lc index reply w latency sw c"
  have pas: "wave_passive c w AND bit64 index \<noteq> 0"
    using assms(4) by (auto simp: and_zero_bits dest: bit_mask_64)
  have c: "p_replies (ph ?c) = Some ?rs" using assms(1) by simp
  obtain rs1 where rs1: "p_replies (ph (account index ?c)) = Some rs1" "map reply_flags rs1 = map reply_flags ?rs"
      and oth: "\<And>j. j \<noteq> index \<Longrightarrow> rs1 ! j = ?rs ! j"
    using account_replies [OF c, of index] by (auto simp: same_replies_def)
  have len: "length rs1 = length rs" using arg_cong [OF rs1(2), of length] by simp
  have flags: "r_passive (rs1 ! index)"
    using arg_cong [OF rs1(2), of "\<lambda>xs. xs ! index"] assms(2) len pas by (simp add: reply_flags_def)
  have eq: "?c' = sessions_merge (e_alloc e) (e_buf e) index (actions_merge (e_alloc e) mc lc index sw (account index ?c))"
    using assms(1) by (simp add: absorb_def Let_def)
  have score: "p_score (ph ?c') = p_score (ph c)" and ctl: "c_ctl ?c' = c_ctl c"
    using passive_actions_merge [OF rs1(1) _ flags, of "e_alloc e" mc lc sw] account_passive [OF c] assms(2) len pas
    by (simp_all add: eq)
  have "\<exists>rs2. p_replies (ph ?c') = Some rs2 \<and> map strip rs2 = map strip rs1"
    using keepsD(15) [OF keeps_absorb_rest, of "e_alloc e" "e_buf e" index mc lc sw ?c] rs1(1) by (auto simp: eq)
  then obtain rs2 where rs2: "p_replies (ph ?c') = Some rs2" "map strip rs2 = map strip rs1" by blast
  have len2: "length rs2 = length rs" using arg_cong [OF rs2(2), of length] len by simp
  have st: "strip (rs2 ! j) = strip (rs1 ! j)" if "j < length rs" for j
    using arg_cong [OF rs2(2), of "\<lambda>xs. xs ! j"] that len len2 by simp
  have cand: "candidate v (rs2 ! j) = candidate v (rs ! j)" if "j < length rs" for j v
  proof (cases "j = index")
    case True
    then show ?thesis using strip_eqD(3) [OF st [OF that]] flags assms(3) by (simp add: candidate_def)
  next
    case False
    then show ?thesis using strip_eqD [OF st [OF that]] oth [OF False] by (simp add: candidate_def)
  qed
  have ans: "answered mc v ?c' = answered mc v c" for v
    using rs2(1) assms(1) len2 cand by (auto simp: answered_def list_ex_length)
  then show ?thesis
    using score ctl by (simp add: Let_def resolve_state over_score_def score_deny_at_def)
qed

theorem passive_has_no_say_witness:
  "c_state (resolve_verdict sample_main sample_conf
      (absorb sample_env sample_main sample_conf 1 (reply0\<lparr>r_verdict := V_DENY\<rparr>) (sample_waves ! 0) 3 0 sample_ctx))
   = ST_ALLOW"
proof -
  have "bit (wave_passive sample_ctx (sample_waves ! 0)) 1"
    by (simp add: wave_passive_def wave_off_def Let_def sample_ctx_def control0_def sample_waves_def
        wave_of_masks sample_binding_def bit_simps)
  then have "c_state (resolve_verdict sample_main sample_conf
      (absorb sample_env sample_main sample_conf 1 (reply0\<lparr>r_verdict := V_DENY\<rparr>) (sample_waves ! 0) 3 0 sample_ctx))
     = c_state (resolve_verdict sample_main sample_conf sample_ctx)"
    using passive_has_no_say [of sample_ctx "replicate 3 reply0" 1 "sample_waves ! 0"]
    by (simp add: Let_def sample_ctx_replies reply0_def)
  also have "\<dots> = ST_ALLOW"
    by (simp add: resolve_state answered_def sample_ctx_replies candidate_def reply0_def over_score_def
        score_deny_at_def sample_conf_def list_ex_iff)
       (simp add: sample_ctx_def ctx_create_def phase_enter_def ph_def upd_ph_def ctx0_def phase_ctx0_def)
  finally show ?thesis .
qed

end
