(* ===== verification/Handler_Props.thy ===== *)
theory Handler_Props
  imports Request_Life Verdict_Props
begin

text \<open>
  The properties of the reply handler, the deadline and the waves, over the invariant of
  \<open>Request_Life\<close>.
\<close>

subsection \<open>A sample worker\<close>

text \<open>A route with one wave of two active inspectors, and a worker with one waiting request whose
  deadline has passed.\<close>

definition sample_wave :: wave where
  "sample_wave = \<lparr>w_passive = 0, w_vote = 0, w_all = 3, w_off = 0, w_body_need = BODY_NONE, w_obj_need = 0\<rparr>"

definition sample_route :: loc_conf where
  "sample_route = sample_conf\<lparr>lc_waves := (\<lambda>_. [sample_wave])\<rparr>"

definition waiting_ctx :: ctx where
  "waiting_ctx =
     (upd_ph (p_due_update (\<lambda>_. 1500)) sample_ctx)
       \<lparr>c_waiting := True, c_state := ST_WAITING, c_slot := 0, c_rid := 16777216, c_timer := Some 1500\<rparr>"

definition sample_node :: node where
  "sample_node =
     \<lparr>wk_tab = \<lparr>t_slots =
          [\<lparr>sl_gen = 1, sl_next_free = SLOT_NIL, sl_ctx = Some 0, sl_wave = 0, sl_got = 0, sl_denied = 0,
            sl_awaited = 3, sl_published = 1000\<rparr>, (fresh_slot 1)\<lparr>sl_next_free := SLOT_NIL\<rparr>],
        t_nslots = 2, t_free_head = 1, t_seq = 1\<rparr>,
      wk_ctx = (\<lambda>p. if p = 0 then waiting_ctx else ctx_create []), wk_now = 1600,
      nd_breakers = None, nd_sent = [], nd_ready = []\<rparr>"

lemma ctx_create_free: "\<not> c_waiting (ctx_create ray)" "c_slot (ctx_create ray) = SLOT_NIL"
  by (simp_all add: ctx_create_def phase_enter_def ctx0_def)

lemma sample_node_slots:
  "slot_at sample_node 0 = \<lparr>sl_gen = 1, sl_next_free = SLOT_NIL, sl_ctx = Some 0, sl_wave = 0, sl_got = 0, sl_denied = 0,
     sl_awaited = 3, sl_published = 1000\<rparr>"
  "slot_at sample_node (Suc 0) = (fresh_slot 1)\<lparr>sl_next_free := SLOT_NIL\<rparr>"
  "wk_ctx sample_node 0 = waiting_ctx" "t_nslots (wk_tab sample_node) = 2"
  by (simp_all add: sample_node_def slot_at_def)

lemma sample_node_lookup: "slot_lookup 16777216 sample_node = Some 0"
  by (simp add: slot_lookup_def sample_node_slots)

lemma sample_node_calm: "calm sample_node"
proof -
  have two: "k < 2 \<Longrightarrow> k = 0 \<or> k = 1" for k :: nat by auto
  have "free_list sample_node [1]"
    by (auto simp: free_list_def sample_node_def slot_at_def fresh_slot_def dest: two)
  moreover have "table_wf sample_node"
    by (auto simp: table_wf_def sample_node_slots fresh_slot_def dest!: two) (simp add: sample_node_def)
  ultimately have inv: "table_inv sample_node" by (auto simp: table_inv_def)
  have own: "owner p s sample_node \<longleftrightarrow> p = 0 \<and> s = 0" for p s
    by (auto simp: owner_def sample_node_slots fresh_slot_def dest!: two)
  have ctx: "wk_ctx sample_node p = (if p = 0 then waiting_ctx else ctx_create [])" for p
    by (simp add: sample_node_def)
  have "linked p sample_node \<and> timed p sample_node" for p
    by (cases "p = 0")
       (simp_all add: linked_def timed_def own ctx ctx_create_free waiting_ctx_def sample_node_lookup)
  then show ?thesis using inv by (simp add: calm_def linkedall_def)
qed

lemma waiting_ctx_fields:
  "c_waiting waiting_ctx" "c_phase waiting_ctx = PH_REQUEST" "p_due (ph waiting_ctx) = 1500" "c_slot waiting_ctx = 0"
  "p_wave (ph waiting_ctx) = 0" "p_replies (ph waiting_ctx) = Some (replicate 3 reply0)" "c_rid waiting_ctx = 16777216"
  "c_ctl waiting_ctx = (\<lambda>_. control0)" "p_body_policy (ph waiting_ctx) = None"
  by (simp_all add: waiting_ctx_def sample_ctx_replies sample_ctx_def)
     (simp_all add: ctx_create_def phase_enter_def ph_def upd_ph_def ctx0_def phase_ctx0_def)

lemma waiting_ctx_wave:
  "current_wave sample_route waiting_ctx = Some sample_wave" "wave_mandatory waiting_ctx sample_wave = 3"
  "wave_gating waiting_ctx sample_wave = 3"
  by (simp_all add: current_wave_def waiting_ctx_fields sample_route_def wave_mandatory_def wave_gating_def
      wave_vote_def wave_passive_def wave_off_def sample_wave_def control0_def)

subsection \<open>How a request is concluded\<close>

text \<open>The state a request is handed back with.\<close>

definition outcome :: "main_conf \<Rightarrow> loc_conf \<Rightarrow> ctx \<Rightarrow> wstate" where
  "outcome mc lc c =
     (if answered mc V_DENY c \<or> over_score lc c then ST_DENY
      else if answered mc V_REDIRECT c then ST_REDIRECT
      else if p_fail (ph c) = CODE_NONE \<or> fst (exception_policy lc c) = POLICY_PASS then ST_ALLOW
      else ST_FAILED)"

lemma exception_policy_cong:
  "p_fail (ph c') = p_fail (ph c) \<Longrightarrow> p_body_policy (ph c') = p_body_policy (ph c) \<Longrightarrow> c_phase c' = c_phase c
   \<Longrightarrow> exception_policy lc c' = exception_policy lc c"
  by (simp add: exception_policy_def)

lemma fail_pass_state: "c_state (fail_pass lc (resolve_verdict mc lc c)) = outcome mc lc c"
proof -
  have "exception_policy lc (resolve_verdict mc lc c) = exception_policy lc c"
    by (rule exception_policy_cong) simp_all
  then show ?thesis
    by (simp add: fail_pass_def outcome_def resolve_state)
qed

lemma outcome_cong: "ph c' = ph c \<Longrightarrow> c_phase c' = c_phase c \<Longrightarrow> outcome mc lc c' = outcome mc lc c"
  by (simp add: outcome_def answered_def over_score_def score_deny_at_def exception_policy_def)

lemma fail_pass_frame [simp]:
  "c_slot (fail_pass lc c) = c_slot c" "c_timer (fail_pass lc c) = c_timer c" "ph (fail_pass lc c) = ph c"
  "c_phase (fail_pass lc c) = c_phase c" "c_rid (fail_pass lc c) = c_rid c"
  by (simp_all add: fail_pass_def)

lemma deadline_stop_frame [simp]:
  "slot_lookup rid (deadline_stop p nd) = slot_lookup rid nd"
  "wk_now (deadline_stop p nd) = wk_now nd" "slot_at (deadline_stop p nd) s = slot_at nd s"
  "wk_ctx (deadline_stop p nd) p = (wk_ctx nd p)\<lparr>c_timer := None\<rparr>"
proof -
  show "slot_lookup rid (deadline_stop p nd) = slot_lookup rid nd"
    by (rule same_table_lookup [OF same_table_tab]) (simp add: deadline_stop_def)
qed (simp_all add: deadline_stop_def upd_ctx_def slot_at_def)

definition concluded :: "main_conf \<Rightarrow> loc_conf \<Rightarrow> nat \<Rightarrow> node \<Rightarrow> node \<Rightarrow> bool" where
  "concluded mc lc p nd nd' \<longleftrightarrow>
     (let c = wk_ctx nd p; c' = wk_ctx nd' p in
      c_state c' \<in> {ST_ALLOW, ST_DENY, ST_REDIRECT, ST_FAILED}
      \<and> \<not> c_waiting c' \<and> c_slot c' = SLOT_NIL \<and> c_timer c' = None
      \<and> nd_ready nd' = nd_ready nd @ [p] \<and> slot_lookup (c_rid c) nd' = None)"

lemma conclude_ctx:
  fixes nd :: node
  assumes "others p nd" "owner p s nd"
  shows "let c' = wk_ctx (conclude mc lc s nd) p in
         c_state c' = outcome mc lc (wk_ctx nd p) \<and> \<not> c_waiting c' \<and> c_slot c' = SLOT_NIL \<and> c_timer c' = None
         \<and> p_fail (ph c') = p_fail (ph (wk_ctx nd p)) \<and> p_replies (ph c') = p_replies (ph (wk_ctx nd p))
         \<and> c_rid c' = c_rid (wk_ctx nd p)"
    and "nd_ready (conclude mc lc s nd) = nd_ready nd @ [p]"
    and "slot_lookup (c_rid (wk_ctx nd p)) (conclude mc lc s nd) = None"
proof -
  have inv: "table_inv nd" and lk: "linked p nd" using assms(1) by (simp_all add: others_def linkedall_def)
  have s: "c_slot (wk_ctx nd p) = s" "s \<noteq> SLOT_NIL" using linkedD(3) [OF lk assms(2)] owner_not_nil [OF inv assms(2)] by auto
  let ?t = "deadline_stop p nd"
  have own: "owner p s ?t" and inv': "table_inv ?t" and st: "c_slot (wk_ctx ?t p) = s"
    using assms(2) inv s table_inv_cong [of "deadline_stop p nd" nd] by (simp_all add: deadline_stop_def)
  note rel = slot_release_self [OF own inv' st]
  have con: "wk_ctx (conclude mc lc s nd) p
      = (fail_pass lc (resolve_verdict mc lc ((wk_ctx nd p)\<lparr>c_timer := None, c_slot := SLOT_NIL\<rparr>)))\<lparr>c_waiting := False\<rparr>"
    unfolding conclude_def Let_def owner_slot_ctx [OF assms(2)] return_to_phases_def
    by (simp add: rel)
  have oc: "outcome mc lc ((wk_ctx nd p)\<lparr>c_timer := None, c_slot := SLOT_NIL\<rparr>) = outcome mc lc (wk_ctx nd p)"
    by (rule outcome_cong) simp_all
  show "let c' = wk_ctx (conclude mc lc s nd) p in
         c_state c' = outcome mc lc (wk_ctx nd p) \<and> \<not> c_waiting c' \<and> c_slot c' = SLOT_NIL \<and> c_timer c' = None
         \<and> p_fail (ph c') = p_fail (ph (wk_ctx nd p)) \<and> p_replies (ph c') = p_replies (ph (wk_ctx nd p))
         \<and> c_rid c' = c_rid (wk_ctx nd p)"
    unfolding Let_def con by (simp add: fail_pass_state oc)
  show "nd_ready (conclude mc lc s nd) = nd_ready nd @ [p]"
    unfolding conclude_def Let_def owner_slot_ctx [OF assms(2)] return_to_phases_def by (simp add: deadline_stop_def)
  have "slot_lookup rid (conclude mc lc s nd) = slot_lookup rid (slot_release s ?t)" for rid
    unfolding conclude_def Let_def owner_slot_ctx [OF assms(2)] return_to_phases_def
    by (simp add: slot_lookup_def Let_def slot_at_def)
  moreover have "s < t_nslots (wk_tab ?t)" using own by (simp add: owner_def)
  moreover have "slot_lookup (c_rid (wk_ctx nd p)) ?t = Some s"
    using linkedD(1) [OF lk] s by simp
  ultimately show "slot_lookup (c_rid (wk_ctx nd p)) (conclude mc lc s nd) = None"
    using slot_lookup_release [OF inv'] by simp
qed

lemma outcome_states: "outcome mc lc c \<in> {ST_ALLOW, ST_DENY, ST_REDIRECT, ST_FAILED}"
  by (simp add: outcome_def)

lemma resume_concluded:
  fixes nd :: node
  assumes "others p nd" "owner p s nd"
    and c_def: "c = rewrite_settle e mc (sl_got (slot_at nd s)) (wk_ctx nd p)"
  shows "concluded mc lc p nd (resume e mc lc s nd)"
    and "c_state (wk_ctx (resume e mc lc s nd) p) = outcome mc lc c"
    and "p_fail (ph (wk_ctx (resume e mc lc s nd) p)) = p_fail (ph c)"
proof -
  let ?n = "upd_ctx p (rewrite_settle e mc (sl_got (slot_at nd s))) nd"
  have r: "resume e mc lc s nd = conclude mc lc s ?n" using assms(2) by (simp add: resume_def owner_def)
  have h: "others p ?n" "owner p s ?n" using assms by (simp_all add: others_upd_ctx)
  note con = conclude_ctx [OF h, of mc lc]
  show "concluded mc lc p nd (resume e mc lc s nd)"
    using con outcome_states [of mc lc c] by (simp add: r concluded_def Let_def c_def)
  show "c_state (wk_ctx (resume e mc lc s nd) p) = outcome mc lc c"
    and "p_fail (ph (wk_ctx (resume e mc lc s nd) p)) = p_fail (ph c)"
    using con(1) by (simp_all add: r Let_def c_def)
qed

subsection \<open>The deadline\<close>

lemma fail_concluded:
  fixes nd :: node
  assumes "others p nd" "owner p s nd"
  shows "concluded mc lc p nd (fail e mc lc s nd)"
    and "\<exists>c. c_state (wk_ctx (fail e mc lc s nd) p) = outcome mc lc c \<and> c_phase c = c_phase (wk_ctx nd p)
           \<and> p_body_policy (ph c) = p_body_policy (ph (wk_ctx nd p))
           \<and> (p_fail (ph c) \<noteq> CODE_NONE \<or> (\<exists>w. current_wave lc (wk_ctx nd p) = Some w
                 \<and> wave_mandatory (wk_ctx nd p) w AND NOT (sl_got (slot_at nd s)) = 0))"
proof -
  define nb where "nb = breaker_account e mc (sl_awaited (slot_at nd s) AND NOT (sl_got (slot_at nd s))) True nd"
  define all_in where "all_in = (case current_wave lc (wk_ctx nd p) of None \<Rightarrow> False
      | Some w \<Rightarrow> sl_got (slot_at nd s) AND wave_mandatory (wk_ctx nd p) w = wave_mandatory (wk_ctx nd p) w)"
  define nf where "nf = (if all_in then nb else upd_ctx p (upd_ph (p_fail_update (\<lambda>_. CODE_FAIL_TIMEOUT))) nb)"
  have nb: "others p nb" "owner p s nb" using assms by (simp_all add: nb_def others_node owner_def)
  have nf: "others p nf" "owner p s nf" using nb by (simp_all add: nf_def others_upd_ctx)
  have eq: "fail e mc lc s nd = resume e mc lc s nf"
    unfolding fail_def Let_def owner_slot_ctx [OF assms(2)] nf_def all_in_def nb_def breaker_account_frame ..
  note res = resume_concluded [OF nf refl, where e = e and mc = mc and lc = lc]
  have fr: "c_rid (wk_ctx nf p) = c_rid (wk_ctx nd p)" "nd_ready nf = nd_ready nd"
    by (simp_all add: nf_def nb_def)
  show "concluded mc lc p nd (fail e mc lc s nd)"
    using res(1) fr unfolding eq concluded_def Let_def by simp
  let ?c = "rewrite_settle e mc (sl_got (slot_at nf s)) (wk_ctx nf p)"
  have ph: "c_phase ?c = c_phase (wk_ctx nf p)" "p_body_policy (ph ?c) = p_body_policy (ph (wk_ctx nf p))"
      "p_fail (ph (wk_ctx nf p)) \<noteq> CODE_NONE \<Longrightarrow> p_fail (ph ?c) \<noteq> CODE_NONE"
    using rewrite_settle_cases [of "wk_ctx nf p" e mc "sl_got (slot_at nf s)"]
    by (auto simp: inert_def kern_def rewrite_fail_def)
  have "c_phase (wk_ctx nf p) = c_phase (wk_ctx nd p)" "p_body_policy (ph (wk_ctx nf p)) = p_body_policy (ph (wk_ctx nd p))"
    by (simp_all add: nf_def nb_def)
  moreover have "\<not> all_in \<Longrightarrow> p_fail (ph (wk_ctx nf p)) \<noteq> CODE_NONE" by (simp add: nf_def)
  moreover have "\<exists>w. current_wave lc (wk_ctx nd p) = Some w
      \<and> wave_mandatory (wk_ctx nd p) w AND NOT (sl_got (slot_at nd s)) = 0" if all: all_in
  proof -
    obtain w where w: "current_wave lc (wk_ctx nd p) = Some w"
        and e: "sl_got (slot_at nd s) AND wave_mandatory (wk_ctx nd p) w = wave_mandatory (wk_ctx nd p) w"
      using all [unfolded all_in_def] by (auto split: option.splits)
    from e have "wave_mandatory (wk_ctx nd p) w AND NOT (sl_got (slot_at nd s)) = 0"
      by (metis and.assoc and.commute and_zero_eq bit.conj_cancel_right)
    then show ?thesis using w by blast
  qed
  ultimately show "\<exists>c. c_state (wk_ctx (fail e mc lc s nd) p) = outcome mc lc c \<and> c_phase c = c_phase (wk_ctx nd p)
           \<and> p_body_policy (ph c) = p_body_policy (ph (wk_ctx nd p))
           \<and> (p_fail (ph c) \<noteq> CODE_NONE \<or> (\<exists>w. current_wave lc (wk_ctx nd p) = Some w
                 \<and> wave_mandatory (wk_ctx nd p) w AND NOT (sl_got (slot_at nd s)) = 0))"
    using res(2) ph unfolding eq by (intro exI [of _ ?c]) auto
qed

text \<open>A blocking policy never lets a failed phase through.\<close>

definition blocks :: "loc_conf \<Rightarrow> ctx \<Rightarrow> bool" where
  "blocks lc c \<longleftrightarrow>
     p_body_policy (ph c) \<noteq> Some POLICY_PASS \<and> (\<forall>x. lc_exception lc (c_phase c) x \<noteq> POLICY_PASS)"

lemma blocks_policy: "blocks lc c \<Longrightarrow> fst (exception_policy lc c) \<noteq> POLICY_PASS"
  by (auto simp: blocks_def exception_policy_def Let_def split: option.split)

lemma blocks_cong:
  "c_phase c' = c_phase c \<Longrightarrow> p_body_policy (ph c') = p_body_policy (ph c) \<Longrightarrow> blocks lc c' = blocks lc c"
  by (simp add: blocks_def)

lemma waiting_slot:
  assumes "calm nd" "c_waiting (wk_ctx nd p)"
  obtains s where "slot_lookup (c_rid (wk_ctx nd p)) nd = Some s" "owner p s nd" "c_slot (wk_ctx nd p) = s"
proof -
  have "linked p nd" "c_slot (wk_ctx nd p) \<noteq> SLOT_NIL" using assms by (auto simp: calm_def linkedall_def timed_def)
  then show thesis using that linkedD(1,2) by blast
qed

text \<open>
  C15: A request does not wait past the deadline of its phase. When the deadline handler runs at or
  after that moment, the request is concluded whatever the inspectors have answered: it is no longer
  waiting, its slot and timer are given back, its id finds nothing any more, it is handed back to
  nginx, and its state is one of the four outcomes. Moreover the outcome is fail-closed: if an
  inspector that had to answer is missing and no exception policy of the phase passes failures, the
  request is not allowed.
\<close>

theorem deadline_concludes:
  assumes "calm nd" and "c_waiting (wk_ctx nd p)" and "msec_diff (p_due (ph (wk_ctx nd p))) (wk_now nd) \<le> 0"
  shows "let nd' = on_deadline e mc lc p (deadline_stop p nd); c = wk_ctx nd p; s = c_slot c in
         concluded mc lc p nd nd'
         \<and> (blocks lc c
            \<and> (\<forall>w. current_wave lc c = Some w \<longrightarrow> wave_mandatory c w AND NOT (sl_got (slot_at nd s)) \<noteq> 0)
            \<longrightarrow> c_state (wk_ctx nd' p) \<noteq> ST_ALLOW)"
proof -
  obtain s where s: "slot_lookup (c_rid (wk_ctx nd p)) nd = Some s" "owner p s nd" "c_slot (wk_ctx nd p) = s"
    using waiting_slot [OF assms(1,2)] .
  let ?t = "deadline_stop p nd"
  have t: "others p ?t" "owner p s ?t"
    using assms(1) s(2) by (simp_all add: deadline_stop_def others_upd_ctx calm_iff [of nd p])
  have eq: "on_deadline e mc lc p ?t = fail e mc lc s ?t"
    using s(1) assms(2,3) by (simp add: on_deadline_def)
  note f = fail_concluded [OF t, where e = e and mc = mc and lc = lc]
  obtain c where c: "c_state (wk_ctx (fail e mc lc s ?t) p) = outcome mc lc c" "c_phase c = c_phase (wk_ctx nd p)"
      "p_body_policy (ph c) = p_body_policy (ph (wk_ctx nd p))"
      "p_fail (ph c) \<noteq> CODE_NONE \<or> (\<exists>w. current_wave lc (wk_ctx nd p) = Some w
         \<and> wave_mandatory (wk_ctx nd p) w AND NOT (sl_got (slot_at nd s)) = 0)"
  proof -
    have k: "current_wave lc (d\<lparr>c_timer := t\<rparr>) = current_wave lc d" "wave_mandatory (d\<lparr>c_timer := t\<rparr>) w = wave_mandatory d w"
      for d t w
      by (simp_all add: current_wave_def Let_def wave_mandatory_def wave_passive_def wave_off_def split: if_split)
    show thesis using that f(2) by (auto simp: k)
  qed
  have "concluded mc lc p nd (fail e mc lc s ?t)"
    using f(1) by (simp add: concluded_def Let_def deadline_stop_def)
  moreover have "c_state (wk_ctx (fail e mc lc s ?t) p) \<noteq> ST_ALLOW"
    if "blocks lc (wk_ctx nd p)"
      "\<forall>w. current_wave lc (wk_ctx nd p) = Some w \<longrightarrow> wave_mandatory (wk_ctx nd p) w AND NOT (sl_got (slot_at nd s)) \<noteq> 0"
    using that c blocks_policy [of lc c] blocks_cong [OF c(2,3), of lc] by (auto simp: outcome_def)
  ultimately show ?thesis by (simp add: Let_def eq s(3))
qed

theorem deadline_concludes_witness:
  "concluded sample_main sample_route 0 sample_node
     (on_deadline sample_env sample_main sample_route 0 (deadline_stop 0 sample_node))
   \<and> c_state (wk_ctx (on_deadline sample_env sample_main sample_route 0 (deadline_stop 0 sample_node)) 0) \<noteq> ST_ALLOW"
proof -
  have "msec_diff 1500 (wk_now sample_node) \<le> 0" by (simp add: msec_diff_def sample_node_def)
  moreover have "blocks sample_route waiting_ctx"
    by (simp add: blocks_def waiting_ctx_fields sample_route_def sample_conf_def)
  ultimately show ?thesis
    using deadline_concludes [OF sample_node_calm, of 0 sample_env sample_main sample_route]
    by (simp add: Let_def sample_node_slots waiting_ctx_fields waiting_ctx_wave)
qed

subsection \<open>Answers\<close>

lemma cont_kept [simp]:
  "current_wave lc (c_cont_update f c) = current_wave lc c" "ph (c_cont_update f c) = ph c"
  "wave_gating (c_cont_update f c) w = wave_gating c w"
  by (simp_all add: current_wave_def ph_def wave_gating_def wave_mandatory_def wave_vote_def wave_passive_def wave_off_def Let_def)

text \<open>
  C18: An answer that is not expected is not taken: one for a request id that no slot holds or from an
  inspector that is not configured changes nothing at all, and one that does not decode, that is not
  from this wave, or that has already come in or been given up changes nothing but the continuations,
  which the decoder keeps before anybody asks whether the answer is expected.
\<close>

theorem unexpected_answer_ignored:
  assumes "slot_lookup rid nd = None
     \<or> (\<exists>s. slot_lookup rid nd = Some s
          \<and> (let c = wk_ctx nd (slot_ctx nd s) in
             index \<ge> length (mc_inspectors mc) \<or> fst (decode c index payload) = None
             \<or> (case current_wave lc c of None \<Rightarrow> True
                | Some w \<Rightarrow> \<not> bit (w_all w) index \<or> bit (sl_got (slot_at nd s)) index)))"
  shows "bus_dispatch e mc lc decode rid index payload nd =
     (case slot_lookup rid nd of
        None \<Rightarrow> nd
      | Some s \<Rightarrow>
          if index \<ge> length (mc_inspectors mc) then nd
          else upd_ctx (slot_ctx nd s) (c_cont_update (\<lambda>_. snd (decode (wk_ctx nd (slot_ctx nd s)) index payload))) nd)"
proof -
  have out: "m AND bit64 i = 0" if "\<not> bit m i" for m i
    using that by (auto simp: and_zero_bits)
  have got: "m AND bit64 i \<noteq> 0" if "bit m i" for m i
    using that by (auto simp: and_zero_bits dest: bit_mask_64)
  show ?thesis
    using assms
    by (auto simp: bus_dispatch_def on_reply_def Let_def out got and.commute [of "bit64 index"]
        split: option.splits)
qed

theorem unexpected_answer_ignored_witness:
  "bus_dispatch sample_env sample_main sample_route (\<lambda>c _ _. (None, c_cont c)) 16777216 0 [] sample_node = sample_node"
proof -
  have "upd_ctx p (c_cont_update (\<lambda>_. c_cont (wk_ctx nd p))) nd = nd" for p and nd :: node
    by (simp add: upd_ctx_def fun_upd_idem)
  then show ?thesis
    using unexpected_answer_ignored [where rid = 16777216 and nd = sample_node and index = 0 and mc = sample_main
        and decode = "\<lambda>c _ _. (None, c_cont c)" and payload = "[]" and lc = sample_route and e = sample_env]
    by (simp add: sample_node_lookup Let_def)
qed

lemma stored_flags:
  assumes "bit (wave_gating c w) index"
  shows "wave_passive c w AND bit64 index = 0" "wave_vote c w AND bit64 index = 0"
  using assms by (auto simp: wave_gating_def wave_mandatory_def Let_def and_zero_bits bit_and_iff bit_not_64)

lemma absorb_candidate:
  assumes rs: "p_replies (ph c) = Some rs" "index < length rs" and g: "bit (wave_gating c w) index"
    and v: "r_verdict reply = V_DENY"
  shows "\<exists>rs'. p_replies (ph (absorb e mc lc index reply w latency sw c)) = Some rs'
    \<and> length rs' = length rs \<and> candidate V_DENY (rs' ! index)"
proof -
  let ?st = "reply\<lparr>r_received := True, r_state := ENTRY_ANSWERED,
                   r_passive := (wave_passive c w AND bit64 index \<noteq> 0),
                   r_vote := (wave_vote c w AND bit64 index \<noteq> 0), r_latency := latency, r_wave := sw\<rparr>"
  let ?c = "upd_reply index (\<lambda>_. ?st) c"
  have acc: "p_replies (ph (account index ?c)) = Some (rs[index := ?st\<lparr>r_order := p_order (ph c) + 1\<rparr>])"
    using rs v stored_flags [OF g] by (simp add: account_def Let_def reply_at_def)
  obtain rs2 where rs2: "p_replies (ph (absorb e mc lc index reply w latency sw c)) = Some rs2"
      "map strip rs2 = map strip (rs[index := ?st\<lparr>r_order := p_order (ph c) + 1\<rparr>])"
    using keepsD(15) [OF keeps_absorb_rest, of "e_alloc e" "e_buf e" index mc lc sw ?c] acc rs
    by (auto simp: absorb_def Let_def)
  have len: "length rs2 = length rs" using arg_cong [OF rs2(2), of length] by simp
  have "strip (rs2 ! index) = strip (?st\<lparr>r_order := p_order (ph c) + 1\<rparr>)"
    using arg_cong [OF rs2(2), of "\<lambda>xs. xs ! index"] rs(2) len by simp
  from strip_eqD [OF this] have "candidate V_DENY (rs2 ! index)"
    using v stored_flags [OF g] by (simp add: candidate_def)
  then show ?thesis using rs2(1) len by blast
qed

lemma absorb_replies:
  assumes "p_replies (ph c) = Some rs"
  obtains rs' where "p_replies (ph (absorb e mc lc index reply w latency sw c)) = Some rs'" "length rs' = length rs"
    and "\<And>j. j \<noteq> index \<Longrightarrow> j < length rs \<Longrightarrow> strip (rs' ! j) = strip (rs ! j)"
proof -
  let ?st = "reply\<lparr>r_received := True, r_state := ENTRY_ANSWERED,
                   r_passive := (wave_passive c w AND bit64 index \<noteq> 0),
                   r_vote := (wave_vote c w AND bit64 index \<noteq> 0), r_latency := latency, r_wave := sw\<rparr>"
  let ?c = "upd_reply index (\<lambda>_. ?st) c" and ?rs = "rs[index := ?st]"
  have c: "p_replies (ph ?c) = Some ?rs" using assms by simp
  obtain rs1 where rs1: "p_replies (ph (account index ?c)) = Some rs1" "map reply_flags rs1 = map reply_flags ?rs"
      and oth: "\<And>j. j \<noteq> index \<Longrightarrow> rs1 ! j = ?rs ! j"
    using account_replies [OF c, of index] by (auto simp: same_replies_def)
  obtain rs2 where rs2: "p_replies (ph (absorb e mc lc index reply w latency sw c)) = Some rs2" "map strip rs2 = map strip rs1"
    using keepsD(15) [OF keeps_absorb_rest, of "e_alloc e" "e_buf e" index mc lc sw ?c] rs1(1) assms
    by (auto simp: absorb_def Let_def)
  have len: "length rs2 = length rs"
    using arg_cong [OF rs2(2), of length] arg_cong [OF rs1(2), of length] by simp
  moreover have "strip (rs2 ! j) = strip (rs ! j)" if "j \<noteq> index" "j < length rs" for j
    using arg_cong [OF rs2(2), of "\<lambda>xs. xs ! j"] oth [OF that(1)] that len
      arg_cong [OF rs1(2), of length] by simp
  ultimately show thesis using that rs2(1) by blast
qed

text \<open>A denial of inspector \<open>i\<close> that counts is stored.\<close>

definition denied :: "nat \<Rightarrow> ctx \<Rightarrow> bool" where
  "denied i c \<longleftrightarrow> (\<exists>rs. p_replies (ph c) = Some rs \<and> i < length rs \<and> candidate V_DENY (rs ! i))"

lemma denied_absorb:
  assumes "index \<noteq> i" "denied i c" shows "denied i (absorb e mc lc index reply w latency sw c)"
proof -
  obtain rs where rs: "p_replies (ph c) = Some rs" "i < length rs" "candidate V_DENY (rs ! i)"
    using assms(2) by (auto simp: denied_def)
  obtain rs' where rs': "p_replies (ph (absorb e mc lc index reply w latency sw c)) = Some rs'" "length rs' = length rs"
      "strip (rs' ! i) = strip (rs ! i)"
    using absorb_replies [OF rs(1)] assms(1) rs(2) by metis
  then show ?thesis
    using rs(2,3) strip_eqD [OF rs'(3)] by (auto simp: denied_def candidate_def)
qed

lemma denied_inert:
  assumes "inert c c'" "denied i c" shows "denied i c'"
proof -
  obtain rs where rs: "p_replies (ph c) = Some rs" "i < length rs" "candidate V_DENY (rs ! i)"
    using assms(2) by (auto simp: denied_def)
  then obtain rs' where rs': "p_replies (ph c') = Some rs'" "map unstate rs' = map unstate rs"
    using assms(1) by (auto simp: inert_def kern_def)
  have len: "length rs' = length rs" using arg_cong [OF rs'(2), of length] by simp
  have "unstate (rs' ! i) = unstate (rs ! i)"
    using arg_cong [OF rs'(2), of "\<lambda>xs. xs ! i"] rs(2) len by simp
  then have "candidate V_DENY (rs' ! i)"
    using rs(3) by (cases "rs' ! i"; cases "rs ! i") (simp add: unstate_def candidate_def)
  then show ?thesis using rs' rs(2) len by (auto simp: denied_def)
qed

interpretation sticks: ctx_law "\<lambda>c c'. denied i c \<longrightarrow> denied i c'" "- {i}" lc for i lc
  by unfold_locales (auto simp: denied_inert denied_absorb, auto simp: denied_def)

lemma denied_answered: "denied i c \<Longrightarrow> i < length (mc_inspectors mc) \<Longrightarrow> answered mc V_DENY c"
  by (auto simp: denied_def answered_def list_ex_length intro!: exI [of _ i])

lemma denied_rewrite: "denied i c \<Longrightarrow> denied i (rewrite_settle e mc got c)"
  using rewrite_settle_cases [of c e mc got] denied_inert by (auto simp: rewrite_fail_def denied_def)

lemma account_actions:
  assumes "p_replies (ph c) = Some rs" "index < length rs"
  shows "r_actions (reply_at (account index c) index) = r_actions (rs ! index)"
proof -
  have "r_actions (reply_at (account_score index d) index) = r_actions (reply_at d index)" for d
    by (simp add: account_score_def Let_def reply_at_def)
  then show ?thesis using assms by (simp add: account_def Let_def) (simp add: reply_at_def)
qed

lemma absorb_no_actions:
  assumes "r_actions reply = []" "p_replies (ph c) = Some rs" "index < length rs"
  shows "c_ctl (absorb e mc lc index reply w latency sw c) = c_ctl c"
proof -
  let ?st = "reply\<lparr>r_received := True, r_state := ENTRY_ANSWERED,
                   r_passive := (wave_passive c w AND bit64 index \<noteq> 0),
                   r_vote := (wave_vote c w AND bit64 index \<noteq> 0), r_latency := latency, r_wave := sw\<rparr>"
  have "r_actions (reply_at (account index (upd_reply index (\<lambda>_. ?st) c)) index) = []"
    using account_actions [of "upd_reply index (\<lambda>_. ?st) c" "rs[index := ?st]" index] assms by simp
  then show ?thesis using assms(2) by (simp add: absorb_def Let_def actions_merge_def)
qed

lemma on_reply_fast_deny:
  fixes nd :: node
  assumes "calm nd" and "slot_lookup rid nd = Some s" and "p = slot_ctx nd s" and "c = wk_ctx nd p"
    and "r_verdict reply = V_DENY" and "r_actions reply = []"
    and "current_wave lc c = Some w" and "bit (wave_gating c w) index" and "\<not> bit (sl_got (slot_at nd s)) index"
    and "lc_deny_mode lc (c_phase c) = DENY_FAST"
    and "p_replies (ph c) = Some rs" and "length rs = length (mc_inspectors mc)" and "index < length rs"
  shows "let nd' = on_reply e mc lc s index reply nd
         in concluded mc lc p nd nd' \<and> c_state (wk_ctx nd' p) = ST_DENY"
proof -
  have own: "owner p s nd" using lookup_owner [OF assms(2)] assms(3) by simp
  have sc: "slot_ctx nd s = p" using assms(3) by simp
  let ?lat = "wk_now nd - sl_published (slot_at nd s)" and ?sw = "sl_wave (slot_at nd s)"
  define n1 where "n1 = breaker_account e mc (bit64 index) False
     (upd_ctx p (upd_ph (p_got_update (\<lambda>g. g OR bit64 index))) (upd_slot s (sl_got_update (\<lambda>g. g OR bit64 index)) nd))"
  define n2 where "n2 = upd_ctx p (absorb e mc lc index reply w (wk_now n1 - sl_published (slot_at n1 s))
     (sl_wave (slot_at n1 s))) n1"
  define n3 where "n3 = upd_slot s (sl_denied_update (\<lambda>d. d OR bit64 index)) n2"
  have t: "tended p s n3"
    unfolding n3_def n2_def n1_def
    by (intro tended_upd_ctx tended_upd_slot tended_node calm_tended assms(1) own) simp_all
  then have h: "others p n3" "owner p s n3" by (simp_all add: tended_def)
  let ?c1 = "upd_ph (p_got_update (\<lambda>g. g OR bit64 index)) c"
  have c3: "wk_ctx n3 p = absorb e mc lc index reply w (wk_now n1 - sl_published (slot_at n1 s)) (sl_wave (slot_at n1 s)) ?c1"
    by (simp add: n3_def n2_def n1_def assms(4))
  have gat: "wave_gating ?c1 w = wave_gating c w"
    by (simp add: wave_gating_def wave_mandatory_def wave_vote_def wave_passive_def wave_off_def Let_def)
  have r1: "p_replies (ph ?c1) = Some rs" using assms(11) by simp
  have ctl: "c_ctl (wk_ctx n3 p) = c_ctl c" "c_phase (wk_ctx n3 p) = c_phase c"
    using absorb_no_actions [OF assms(6) r1 assms(13)] by (simp_all add: c3)
  then have gat3: "bit64 index AND wave_gating (wk_ctx n3 p) w \<noteq> 0"
    using assms(8) by (auto simp: wave_gating_def wave_mandatory_def wave_vote_def wave_passive_def wave_off_def
        Let_def and_zero_bits dest: bit_mask_64)
  have "bit (wave_gating ?c1 w) index" using gat assms(8) by simp
  from absorb_candidate [OF r1 assms(13) this assms(5)] have den: "denied index (wk_ctx n3 p)"
    unfolding c3 denied_def using assms(13) by metis
  have w: "bit64 index AND w_all w \<noteq> 0" "sl_got (slot_at nd s) AND bit64 index = 0"
    using assms(8,9) by (auto simp: wave_gating_def wave_mandatory_def Let_def and_zero_bits bit_and_iff dest: bit_mask_64)
  have eq: "on_reply e mc lc s index reply nd = resume e mc lc s n3"
    using w assms(3,4,5,7,10) gat3 ctl
    by (simp add: on_reply_def Let_def n3_def n2_def n1_def)
  note res = resume_concluded [OF h refl, where e = e and mc = mc and lc = lc]
  have "outcome mc lc (rewrite_settle e mc (sl_got (slot_at n3 s)) (wk_ctx n3 p)) = ST_DENY"
    using denied_answered [OF denied_rewrite [OF den], of mc] assms(12,13) by (simp add: outcome_def)
  moreover have "c_rid (wk_ctx n3 p) = c_rid (wk_ctx nd p)" "nd_ready n3 = nd_ready nd"
    by (simp_all add: c3 assms(4)) (simp add: n3_def n2_def n1_def)
  ultimately show ?thesis using res by (simp add: eq Let_def concluded_def)
qed



text \<open>The events of the bus and the clock, as sequences.\<close>

datatype bus_event =
    Answer env u64 nat bytes
  | Absent env u64 nat
  | Deadline env nat

fun bus_step ::
  "main_conf \<Rightarrow> loc_conf \<Rightarrow> decoder \<Rightarrow> bus_event \<Rightarrow> node \<Rightarrow> node" where
  "bus_step mc lc decode (Answer e rid index payload) nd = bus_dispatch e mc lc decode rid index payload nd"
| "bus_step mc lc decode (Absent e rid index) nd = bus_absent e mc lc rid index nd"
| "bus_step mc lc decode (Deadline e p) nd = on_deadline e mc lc p (deadline_stop p nd)"

fun from_inspector :: "nat \<Rightarrow> bus_event \<Rightarrow> bool" where
  "from_inspector i (Answer e rid index payload) = (index = i)"
| "from_inspector i _ = False"


subsection \<open>Starting waves\<close>

definition awaiting :: "nat \<Rightarrow> ret \<times> 'a node_scheme \<Rightarrow> bool" where
  "awaiting p rn \<longleftrightarrow>
     (c_waiting (wk_ctx (snd rn) p) \<longrightarrow> fst rn = RET NGX_DONE
        \<and> (\<exists>s. owner p s (snd rn) \<and> \<not> wave_closed (slot_at (snd rn) s)))"

lemma awaiting_free: "free p (snd rn) \<Longrightarrow> awaiting p rn"
  by (simp add: awaiting_def free_def)

lemma wave_publish_awaiting:
  assumes "idle p s nd" "wave_publish e mc lc p s nd = Inl rn" shows "awaiting p rn"
proof -
  obtain r w where pub: "bus_publish_wave e mc lc p s (wave_prepare mc lc p s nd) = (r, w)" by fastforce
  have w: "idle p s w"
    using publish_wave_idle [OF wave_prepare_idle [OF assms(1)], of e mc lc mc lc] by (simp add: pub)
  let ?w = "upd_ctx p (rewrite_settle e mc (sl_got (slot_at w s))) w"
  have stop: "free p (slot_release s (deadline_stop p ?w))"
    unfolding deadline_stop_def by (intro free_release idle_upd_ctx w) simp_all
  have fin: "free p (snd (phase_apply e lc p (upd_ctx p (fail_pass lc) (upd_ctx p (resolve_verdict mc lc)
      (slot_release s (deadline_stop p ?w))))))"
    by (intro phase_apply_free free_upd_ctx stop) simp_all
  have bad: "free p (snd (wave_failed e lc p (Some s) CODE_FAIL_BUS w))"
    by (rule wave_failed_free) (simp add: w)
  have wt: "awaiting p (RET NGX_DONE, upd_ctx p f (deadline_arm lc p s w))" if "\<not> wave_closed (slot_at w s)" for f
    using w that by (auto simp: awaiting_def idle_def deadline_arm_def Let_def intro!: exI [of _ s])
  show ?thesis
    using assms(2) unfolding wave_publish_def pub
    by (auto simp: Let_def awaiting_free [OF fin] awaiting_free [OF bad] awaiting_free free_release [OF assms(1)] wt
        split: if_splits)
qed

lemma wave_body_awaiting:
  assumes "idle p s nd" "wave_body e mc lc p wave s nd = Inl rn" shows "awaiting p rn"
proof -
  have f: "free p (upd_ctx p (c_state_update g) nd)" for g
    using idle_free [OF assms(1)] by (intro free_upd_ctx) simp_all
  have bad: "free p (snd (wave_failed e lc p (Some s) cd nd))" for cd
    by (rule wave_failed_free) (simp add: assms(1))
  show ?thesis
    using assms(2) wave_publish_awaiting [OF assms(1)] awaiting_free [OF bad]
    by (auto simp: wave_body_def Let_def awaiting_free f split: if_splits)
qed

lemma wave_once_awaiting:
  assumes "free p nd" "wave_once e mc lc p wave nd = Inl rn" shows "awaiting p rn"
proof -
  let ?w = "upd_ctx p (upd_ph (p_wave_update (\<lambda>_. wave))) nd"
  have w: "free p ?w" by (intro free_upd_ctx assms) simp_all
  have rd: "free p (snd (read_body e p (upd_ctx p (c_state_update g) ?w)))" for g
    by (intro read_body_free free_upd_ctx w) simp_all
  obtain so w1 where en: "ensure_slot e p ?w = (so, w1)" by fastforce
  have w1: "case so of None \<Rightarrow> free p w1 | Some s \<Rightarrow> idle p s w1" using ensure_slot_idle [OF w en] .
  have bad: "free p (snd (wave_failed e lc p None cd w1))" if "so = None" for cd
    by (rule wave_failed_free) (use w1 that in simp)
  show ?thesis
  proof (cases so)
    case None
    then show ?thesis
      using assms(2) awaiting_free [OF rd] awaiting_free [OF bad [OF None]]
      by (auto simp: wave_once_def Let_def en split: if_splits)
  next
    case (Some s)
    let ?m = "upd_ctx p (upd_ph (p_meta_settled_update (\<lambda>_. True))) w1"
    have i: "idle p s w1" using w1 Some by simp
    have m: "idle p s ?m" by (intro idle_upd_ctx i) simp_all
    have f: "free p (upd_ctx p (c_state_update g) ?m)" for g
      by (intro free_upd_ctx idle_free [OF m]) simp_all
    have badm: "free p (snd (wave_failed e lc p (Some s) cd ?m))" for cd
      by (rule wave_failed_free) (simp add: m)
    show ?thesis
      using assms(2) awaiting_free [OF rd] awaiting_free [OF badm] wave_body_awaiting [OF i] wave_body_awaiting [OF m]
      by (auto simp: wave_once_def Let_def en Some awaiting_free f split: if_splits)
  qed
qed

lemma wave_start_awaiting: "free p nd \<Longrightarrow> awaiting p (wave_start e mc lc p wave nd)"
proof (induction e mc lc p wave nd rule: wave_start.induct)
  case (1 e mc lc p wave nd)
  show ?case
    using "1.IH" wave_once_awaiting [OF "1.prems"] wave_once_calm [OF "1.prems", of e mc lc wave]
    by (subst wave_start.simps) (auto split: sum.splits)
qed

text \<open>
  C19: Starting the waves of a phase always comes to an end, and it leaves a request waiting only if
  somebody still has to answer: then the handler has told nginx to wait, the request holds a slot,
  and one of the inspectors awaited there is not in yet. Waves that nobody has to answer are passed
  over on the way.
\<close>

theorem wave_start_outcome:
  assumes "free p nd" and "wave_start e mc lc p wave nd = (r, nd')"
  shows "calm nd' \<and> (c_waiting (wk_ctx nd' p) \<longrightarrow>
           r = RET NGX_DONE
           \<and> (\<exists>s. slot_lookup (c_rid (wk_ctx nd' p)) nd' = Some s \<and> sl_ctx (slot_at nd' s) = Some p
                 \<and> (\<exists>i. bit (sl_awaited (slot_at nd' s)) i \<and> \<not> bit (sl_got (slot_at nd' s)) i)))"
proof -
  have c: "calm nd'" using wave_start_calm [OF assms(1), of e mc lc wave] assms(2) by simp
  have opn: "\<exists>i. bit (sl_awaited x) i \<and> \<not> bit (sl_got x) i" if "\<not> wave_closed x" for x
    using that by (auto simp: wave_closed_def bit_eq_iff bit_and_iff)
  have "r = RET NGX_DONE \<and> (\<exists>s. slot_lookup (c_rid (wk_ctx nd' p)) nd' = Some s \<and> sl_ctx (slot_at nd' s) = Some p
      \<and> (\<exists>i. bit (sl_awaited (slot_at nd' s)) i \<and> \<not> bit (sl_got (slot_at nd' s)) i))"
    if wt: "c_waiting (wk_ctx nd' p)"
  proof -
    obtain s where s: "slot_lookup (c_rid (wk_ctx nd' p)) nd' = Some s" "owner p s nd'" "c_slot (wk_ctx nd' p) = s"
      using waiting_slot [OF c wt] .
    obtain k where k: "owner p k nd'" "\<not> wave_closed (slot_at nd' k)" "r = RET NGX_DONE"
      using wave_start_awaiting [OF assms(1), of e mc lc wave] wt assms(2) by (auto simp: awaiting_def)
    have "k = s" using linkedD(3) [of p nd' k] k(1) s(3) c by (simp add: calm_def linkedall_def)
    then show ?thesis using s k opn by (auto simp: owner_def)
  qed
  then show ?thesis using c by blast
qed

theorem wave_start_outcome_witness:
  "calm (snd (wave_start sample_env sample_main sample_route 1 0 sample_node))"
proof -
  have "free 1 sample_node"
    using sample_node_calm by (rule calm_free) (simp add: sample_node_def ctx_create_free)
  from wave_start_outcome [OF this prod.collapse [symmetric]] show ?thesis by blast
qed


text \<open>In the state a worker can be in, every waiting request is cared for.\<close>

definition cared_for :: "node \<Rightarrow> nat \<Rightarrow> bool" where
  "cared_for nd p \<longleftrightarrow>
     (\<exists>s at. slot_lookup (c_rid (wk_ctx nd p)) nd = Some s \<and> sl_ctx (slot_at nd s) = Some p
          \<and> c_timer (wk_ctx nd p) = Some at \<and> c_state (wk_ctx nd p) = ST_WAITING
          \<and> (\<forall>q. q \<noteq> p \<longrightarrow> c_slot (wk_ctx nd q) \<noteq> s))"

lemma calm_cared: "calm nd \<Longrightarrow> c_waiting (wk_ctx nd p) \<Longrightarrow> cared_for nd p"
proof -
  assume c: "calm nd" and w: "c_waiting (wk_ctx nd p)"
  obtain s where s: "slot_lookup (c_rid (wk_ctx nd p)) nd = Some s" "owner p s nd" "c_slot (wk_ctx nd p) = s"
    using waiting_slot [OF c w] .
  have "c_slot (wk_ctx nd q) \<noteq> s" if "q \<noteq> p" for q
  proof
    assume q: "c_slot (wk_ctx nd q) = s"
    have "s \<noteq> SLOT_NIL" using owner_not_nil [OF _ s(2)] c by (simp add: calm_def linkedall_def)
    then have "owner q s nd" using linkedD(2) [of q nd] q c by (simp add: calm_def linkedall_def)
    then show False using s(2) that by (simp add: owner_def)
  qed
  moreover have "timed p nd" using c by (simp add: calm_def)
  ultimately show ?thesis using s w by (auto simp: cared_for_def owner_def timed_def)
qed

definition no_one_lost :: "node \<Rightarrow> bool" where
  "no_one_lost nd \<longleftrightarrow> (\<forall>p. c_waiting (wk_ctx nd p) \<longrightarrow> cared_for nd p)"

lemma init_calm:
  assumes "slot_table_init alloc_ok rnd pid seed_rc n w = (NGX_OK, nd)" and "\<forall>p. fresh p nd"
  shows "calm nd"
proof (rule no_slots_calm)
  show "table_inv nd" using slot_table_init_inv [OF assms(1)] .
  fix k assume "k < t_nslots (wk_tab nd)"
  then show "sl_ctx (slot_at nd k) = None"
    using assms(1) by (auto simp: slot_table_init_def Let_def slot_at_def nth_list_update fresh_slot_def split: if_splits)
qed (use assms(2) in simp)

text \<open>
  C14: No request is ever lost. From the start of a worker, through every interleaving of new
  requests, answers, refusals, deadlines, body reads, store replies, re-entries and destroyed
  requests, with every outcome of every allocation and publication, a request that is waiting holds
  a slot of its own that its id finds, and has a deadline armed.
\<close>

theorem no_request_lost:
  assumes "slot_table_init alloc_ok rnd pid seed_rc nslots w = (NGX_OK, nd)" and "\<forall>p. fresh p nd"
    and "worker_run nd nd'"
  shows "no_one_lost nd'"
  using worker_run_calm [OF assms(3) init_calm [OF assms(1,2)]] calm_cared unfolding no_one_lost_def by blast

definition sample_start :: node where
  "sample_start = sample_node\<lparr>wk_ctx := (\<lambda>_. ctx_create [])\<rparr>"

theorem no_request_lost_witness:
  "no_one_lost (snd (access_new sample_env sample_main sample_route True [] None 7
     (snd (slot_table_init True 5 4711 NGX_OK 2 sample_start))))"
proof -
  let ?nd = "snd (slot_table_init True 5 4711 NGX_OK 2 sample_start)"
  have i: "slot_table_init True 5 4711 NGX_OK 2 sample_start = (NGX_OK, ?nd)"
    by (simp add: slot_table_init_def Let_def)
  have f: "\<forall>p. fresh p ?nd"
    by (simp add: slot_table_init_def Let_def sample_start_def fresh_def ctx_create_free)
  then have "worker_run ?nd (snd (access_new sample_env sample_main sample_route True [] None 7 ?nd))"
    by (intro stepped [OF started] new) simp
  from no_request_lost [OF i f this] show ?thesis .
qed

subsection \<open>Rewrites of the body\<close>


subsection \<open>Arming the deadline\<close>

text \<open>The moments a waiting request is woken up for.\<close>

definition moments :: "loc_conf \<Rightarrow> phase \<Rightarrow> msec \<Rightarrow> nat list \<Rightarrow> msec \<Rightarrow> msec set" where
  "moments lc phase published js due =
     insert due {published + b_timeout b | b j. j \<in> set js \<and> binding_find lc j phase = Some b \<and> b_timeout b \<noteq> 0}"

lemma msec_diff_split:
  assumes "\<bar>msec_diff a n\<bar> < 2 ^ 62" "\<bar>msec_diff b n\<bar> < 2 ^ 62"
  shows "msec_diff a b = msec_diff a n - msec_diff b n"
proof -
  have "a - b = (a - n) - (b - n)" by simp
  then have "sint (a - b) = signed_take_bit 63 (sint (a - n) - sint (b - n))"
    using sint_word_ariths(2) [of "a - n" "b - n"] by simp
  also have "\<dots> = sint (a - n) - sint (b - n)"
    by (rule signed_take_bit_int_eq_self) (use assms in \<open>simp_all add: msec_diff_def\<close>)
  finally show ?thesis by (simp add: msec_diff_def)
qed

lemma deadline_scan_least:
  assumes "\<And>m. m \<in> moments lc phase published js at \<Longrightarrow> \<bar>msec_diff m now\<bar> < 2 ^ 62"
  shows "deadline_scan lc phase published js at \<in> moments lc phase published js at
       \<and> (\<forall>m\<in>moments lc phase published js at.
            msec_diff (deadline_scan lc phase published js at) now \<le> msec_diff m now)"
  using assms
proof (induction js arbitrary: at)
  case Nil
  then show ?case by (simp add: moments_def)
next
  case (Cons j js)
  show ?case
  proof (cases "\<exists>b. binding_find lc j phase = Some b \<and> b_timeout b \<noteq> 0")
    case False
    then have "moments lc phase published (j # js) at = moments lc phase published js at"
      "deadline_scan lc phase published (j # js) at = deadline_scan lc phase published js at"
      by (auto simp: moments_def split: option.split)
    then show ?thesis using Cons by metis
  next
    case True
    then obtain b where b: "binding_find lc j phase = Some b" "b_timeout b \<noteq> 0" by blast
    let ?u = "published + b_timeout b"
    let ?at = "if msec_diff ?u at < 0 then ?u else at"
    have m: "moments lc phase published (j # js) at = insert ?u (insert at (moments lc phase published js ?at))"
      using b by (auto simp: moments_def)
    have lt: "msec_diff ?u at < 0 \<longleftrightarrow> msec_diff ?u now < msec_diff at now"
      using msec_diff_split [of ?u now at] Cons.prems m by simp
    have "deadline_scan lc phase published (j # js) at = deadline_scan lc phase published js ?at"
      using b by (simp add: Let_def)
    moreover have "deadline_scan lc phase published js ?at \<in> moments lc phase published js ?at
       \<and> (\<forall>m\<in>moments lc phase published js ?at.
            msec_diff (deadline_scan lc phase published js ?at) now \<le> msec_diff m now)"
      by (rule Cons.IH) (use Cons.prems m in auto)
    moreover have "?at \<in> moments lc phase published js ?at" by (simp add: moments_def)
    ultimately show ?thesis using m lt by (auto split: if_splits)
  qed
qed

text \<open>
  C21: The deadline of a waiting request is armed for the earliest of the due time of the phase and
  the timeouts of the lines still awaited, or for now when that moment has passed; a wrapping
  millisecond clock does not matter as long as all these moments are less than \<open>2^62\<close>
  milliseconds away.
\<close>

theorem deadline_armed_earliest:
  assumes "slot = slot_at nd s" and "c = wk_ctx nd p"
    and "ms = moments lc (c_phase c) (sl_published slot) (bits_of (sl_awaited slot AND NOT (sl_got slot))) (p_due (ph c))"
    and "\<forall>m\<in>ms. \<bar>msec_diff m (wk_now nd)\<bar> < 2 ^ 62"
  shows "\<exists>m\<in>ms. (\<forall>k\<in>ms. msec_diff m (wk_now nd) \<le> msec_diff k (wk_now nd))
     \<and> c_timer (wk_ctx (deadline_arm lc p s nd) p)
         = Some (if 0 < msec_diff m (wk_now nd) then m else wk_now nd)"
proof -
  let ?at = "deadline_scan lc (c_phase c) (sl_published slot) (bits_of (sl_awaited slot AND NOT (sl_got slot))) (p_due (ph c))"
  have "?at \<in> ms \<and> (\<forall>m\<in>ms. msec_diff ?at (wk_now nd) \<le> msec_diff m (wk_now nd))"
    unfolding assms(3) by (rule deadline_scan_least) (use assms(3,4) in blast)
  then show ?thesis
    by (intro bexI [of _ ?at]) (simp_all add: deadline_arm_def Let_def assms(1,2))
qed


theorem deadline_armed_earliest_witness:
  "\<exists>m. c_timer (wk_ctx (deadline_arm sample_route 0 0 (sample_node\<lparr>wk_now := 1400\<rparr>)) 0) = Some m"
proof -
  let ?nd = "sample_node\<lparr>wk_now := 1400\<rparr>" and ?ms = "moments sample_route PH_REQUEST 1000 (bits_of 3) 1500"
  have sl: "slot_at ?nd 0 = slot_at sample_node 0" by (simp add: slot_at_def)
  have "b_timeout b = 0" if "binding_find sample_route j PH_REQUEST = Some b" for j b
    using binding_find_Some [OF that] by (auto simp: sample_route_def sample_conf_def sample_binding_def)
  then have "?ms = {1500}" by (auto simp: moments_def)
  moreover have "\<bar>msec_diff 1500 1400\<bar> < 2 ^ 62" by (simp add: msec_diff_def)
  ultimately show ?thesis
    using deadline_armed_earliest [of "slot_at ?nd 0" ?nd 0 "wk_ctx ?nd 0" 0 ?ms sample_route]
    by (auto simp: sl sample_node_slots waiting_ctx_fields)
qed

end
