(* ===== verification/Json.thy ===== *)
theory Json
  imports Waf_Prelude
begin

text \<open>
  The JSON writer and the pull parser of the protocol
  (\<open>src/module/src/codec/ngx_http_waf_json.c\<close>): UTF-8, strings, integers, literals, the walk
  through objects and arrays, and the skipping of a value with a bounded stack.

  A writer is the bytes written so far and the size of its buffer; a parser is the bytes between
  \<open>pos\<close> and \<open>end\<close>. Every function that can fail returns its return code with the parser, as
  the source leaves it.
\<close>

subsection \<open>UTF-8\<close>

definition utf8_encode :: "u32 \<Rightarrow> bytes" where
  "utf8_encode u =
     (if u < 0x80 then [ucast u]
      else if u < 0x800 then [0xc0 OR ucast (drop_bit 6 u), 0x80 OR ucast (u AND 0x3f)]
      else if u < 0x10000
      then [0xe0 OR ucast (drop_bit 12 u), 0x80 OR ucast (drop_bit 6 u AND 0x3f), 0x80 OR ucast (u AND 0x3f)]
      else [0xf0 OR ucast (drop_bit 18 u), 0x80 OR ucast (drop_bit 12 u AND 0x3f),
            0x80 OR ucast (drop_bit 6 u AND 0x3f), 0x80 OR ucast (u AND 0x3f)])"

text \<open>The number of continuation bytes a first byte asks for and the range of the first of them.\<close>

definition utf8_lead :: "byte \<Rightarrow> (nat \<times> byte \<times> byte) option" where
  "utf8_lead c =
     (if c \<ge> 0xc2 \<and> c \<le> 0xdf then Some (1, 0x80, 0xbf)
      else if c = 0xe0 then Some (2, 0xa0, 0xbf)
      else if c \<ge> 0xe1 \<and> c \<le> 0xef then Some (2, 0x80, if c = 0xed then 0x9f else 0xbf)
      else if c = 0xf0 then Some (3, 0x90, 0xbf)
      else if c \<ge> 0xf1 \<and> c \<le> 0xf3 then Some (3, 0x80, 0xbf)
      else if c = 0xf4 then Some (3, 0x80, 0x8f)
      else None)"

text \<open>The loop over the continuation bytes: \<open>k\<close> of them are missing and \<open>p\<close> starts at index
  \<open>i\<close>. The result is the length and, when it is 0, the length of the ill-formed prefix.\<close>

fun utf8_cont :: "nat \<Rightarrow> nat \<Rightarrow> byte \<Rightarrow> byte \<Rightarrow> bytes \<Rightarrow> nat \<times> nat" where
  "utf8_cont i 0 lo hi p = (i, 0)"
| "utf8_cont i (Suc k) lo hi [] = (0, i)"
| "utf8_cont i (Suc k) lo hi (b # p) =
     (if b < lo \<or> b > hi then (0, i) else utf8_cont (Suc i) k 0x80 0xbf p)"

fun utf8_valid :: "bytes \<Rightarrow> nat \<times> nat" where
  "utf8_valid [] = (0, 1)"
| "utf8_valid (c # p) =
     (if c < 0x80 then (1, 0)
      else case utf8_lead c of None \<Rightarrow> (0, 1) | Some (need, lo, hi) \<Rightarrow> utf8_cont 1 need lo hi p)"

subsection \<open>The writer\<close>

record jw =
  jw_out :: bytes
  jw_size :: nat
  jw_overflow :: bool

definition jw_init :: "nat \<Rightarrow> jw" where
  "jw_init n = \<lparr>jw_out = [], jw_size = n, jw_overflow = False\<rparr>"

definition jw_room :: "jw \<Rightarrow> nat" where
  "jw_room j = jw_size j - length (jw_out j)"

definition jw_raw :: "bytes \<Rightarrow> jw \<Rightarrow> jw" where
  "jw_raw data j =
     (if jw_room j < length data then j\<lparr>jw_overflow := True\<rparr>
      else j\<lparr>jw_out := jw_out j @ data\<rparr>)"

text \<open>
  One turn of the loop of \<open>jw_string\<close>: the bytes it takes from the data, the writer, and whether
  the loop goes on (a write that does not fit leaves the function; \<open>jw_raw\<close> only sets the flag).
\<close>

definition jw_put :: "bytes \<Rightarrow> jw \<Rightarrow> bool \<times> jw" where
  "jw_put data j =
     (if jw_room j < length data then (False, j\<lparr>jw_overflow := True\<rparr>)
      else (True, j\<lparr>jw_out := jw_out j @ data\<rparr>))"

definition jw_char :: "byte \<Rightarrow> jw \<Rightarrow> bool \<times> jw" where
  "jw_char c j =
     (if c = 0x22 \<or> c = 0x5c then jw_put [0x5c, c] j
      else if c \<ge> 0x20 then jw_put [c] j
      else if c = 0x0a then (True, jw_raw (ascii [CHR 0x5c, CHR ''n'']) j)
      else if c = 0x0d then (True, jw_raw (ascii [CHR 0x5c, CHR ''r'']) j)
      else if c = 0x09 then (True, jw_raw (ascii [CHR 0x5c, CHR ''t'']) j)
      else if c = 0x08 then (True, jw_raw (ascii [CHR 0x5c, CHR ''b'']) j)
      else if c = 0x0c then (True, jw_raw (ascii [CHR 0x5c, CHR ''f'']) j)
      else jw_put ([0x5c, 0x75, 0x30, 0x30]
                   @ [ascii ''0123456789abcdef'' ! unat (drop_bit 4 c AND 0xf),
                      ascii ''0123456789abcdef'' ! unat (c AND 0xf)]) j)"

lemma utf8_cont_bad: "utf8_cont i k lo hi p = (0, n) \<Longrightarrow> 0 < i \<Longrightarrow> 0 < n"
  by (induction i k lo hi p rule: utf8_cont.induct) (auto split: if_splits)

lemma utf8_valid_bad: "fst (utf8_valid p) = 0 \<Longrightarrow> 0 < snd (utf8_valid p)"
  by (cases p) (auto split: option.splits intro: utf8_cont_bad dest: prod_eqI simp: prod_eq_iff)

function jw_string_loop :: "bytes \<Rightarrow> jw \<Rightarrow> bool \<times> jw" where
  "jw_string_loop data j =
     (case data of
        [] \<Rightarrow> (True, j)
      | c # rest \<Rightarrow>
          if c \<ge> 0x80
          then
            let (n, bad) = utf8_valid data in
            if n \<noteq> 0 then jw_string_loop (drop n data) (jw_raw (take n data) j)
            else jw_string_loop (drop bad data) (jw_raw [0xef, 0xbf, 0xbd] j)
          else
            let (go, j) = jw_char c j
            in if go then jw_string_loop rest j else (False, j))"
  by pat_completeness auto
termination
proof (relation "measure (\<lambda>(data, j). length data)")
  fix data :: bytes and j c rest x n bad
  assume "data = c # rest" "x = utf8_valid data" "(n, bad) = x" "\<not> n \<noteq> 0"
  then show "((drop bad data, jw_raw [0xef, 0xbf, 0xbd] j), (data, j)) \<in> measure (\<lambda>(data, j). length data)"
    using utf8_valid_bad [of data] by (metis (no_types, lifting) case_prod_conv diff_less fst_conv in_measure length_drop length_greater_0_conv list.distinct(1) snd_conv)
qed auto

declare jw_string_loop.simps [simp del]

definition jw_string :: "bytes \<Rightarrow> jw \<Rightarrow> jw" where
  "jw_string data j =
     (let (go, j) = jw_string_loop data (jw_raw [0x22] j)
      in if go then jw_raw [0x22] j else j)"

text \<open>\<open>ngx_sprintf\<close> with \<open>%i\<close>: the decimal digits.\<close>

function decimal_nat :: "nat \<Rightarrow> bytes" where
  "decimal_nat n = (if n < 10 then [0x30 + of_nat n] else decimal_nat (n div 10) @ [0x30 + of_nat (n mod 10)])"
  by pat_completeness auto
termination by (relation "measure id") auto

declare decimal_nat.simps [simp del]

definition decimal :: "int \<Rightarrow> bytes" where
  "decimal v = (if v < 0 then 0x2d # decimal_nat (nat (- v)) else decimal_nat (nat v))"

definition jw_int :: "int \<Rightarrow> jw \<Rightarrow> jw" where
  "jw_int v = jw_raw (decimal v)"

subsection \<open>The parser\<close>

record jp =
  jp_pos :: bytes
  jp_error :: string
  jp_first :: bool

definition jp_init :: "bytes \<Rightarrow> jp" where
  "jp_init payload = \<lparr>jp_pos = payload, jp_error = [], jp_first = False\<rparr>"

definition jp_fail :: "string \<Rightarrow> jp \<Rightarrow> jp" where
  "jp_fail msg j = j\<lparr>jp_error := msg\<rparr>"

definition adv :: "nat \<Rightarrow> jp \<Rightarrow> jp" where
  "adv n j = j\<lparr>jp_pos := drop n (jp_pos j)\<rparr>"

text \<open>The byte at \<open>pos\<close>, if there is one.\<close>

definition cur :: "jp \<Rightarrow> byte option" where
  "cur j = (case jp_pos j of [] \<Rightarrow> None | c # _ \<Rightarrow> Some c)"

definition is_ws :: "byte \<Rightarrow> bool" where
  "is_ws c \<longleftrightarrow> c = 0x20 \<or> c = 0x09 \<or> c = 0x0d \<or> c = 0x0a"

definition jp_ws :: "jp \<Rightarrow> jp" where
  "jp_ws j = j\<lparr>jp_pos := dropWhile is_ws (jp_pos j)\<rparr>"

definition jp_open :: "byte \<Rightarrow> jp \<Rightarrow> rc \<times> jp" where
  "jp_open opening j =
     (let j = jp_ws j in
      if cur j \<noteq> Some opening then (NGX_ERROR, jp_fail ''expected object or array'' j)
      else (NGX_OK, (adv 1 j)\<lparr>jp_first := True\<rparr>))"

definition jp_object :: "jp \<Rightarrow> rc \<times> jp" where
  "jp_object j = jp_open 0x7b j"

definition jp_array :: "jp \<Rightarrow> rc \<times> jp" where
  "jp_array j = jp_open 0x5b j"

definition jp_next :: "byte \<Rightarrow> jp \<Rightarrow> rc \<times> jp" where
  "jp_next closing j =
     (let j = jp_ws j in
      case cur j of
        None \<Rightarrow> (NGX_ERROR, jp_fail ''truncated message'' j)
      | Some c \<Rightarrow>
          if c = closing then (NGX_DONE, (adv 1 j)\<lparr>jp_first := False\<rparr>)
          else if jp_first j then (NGX_OK, j\<lparr>jp_first := False\<rparr>)
          else if c \<noteq> 0x2c then (NGX_ERROR, jp_fail ''expected comma'' j)
          else
            let j = jp_ws (adv 1 j) in
            if cur j = Some closing then (NGX_ERROR, jp_fail ''trailing comma'' j)
            else (NGX_OK, j))"

definition jp_element :: "jp \<Rightarrow> rc \<times> jp" where
  "jp_element j =
     (let (r, j) = jp_next 0x5d j in if r \<noteq> NGX_OK then (r, j) else (NGX_OK, jp_ws j))"

definition jp_end :: "jp \<Rightarrow> rc \<times> jp" where
  "jp_end j =
     (let j = jp_ws j in
      if jp_pos j \<noteq> [] then (NGX_ERROR, jp_fail ''trailing data after the document'' j)
      else (NGX_OK, j))"

subsubsection \<open>Strings\<close>

definition hex_value :: "byte \<Rightarrow> u32 option" where
  "hex_value c =
     (if c \<ge> 0x30 \<and> c \<le> 0x39 then Some (ucast (c - 0x30))
      else if c \<ge> 0x61 \<and> c \<le> 0x66 then Some (ucast (c - 0x61 + 10))
      else if c \<ge> 0x41 \<and> c \<le> 0x46 then Some (ucast (c - 0x41 + 10))
      else None)"

fun hex4_loop :: "nat \<Rightarrow> u32 \<Rightarrow> jp \<Rightarrow> rc \<times> u32 \<times> jp" where
  "hex4_loop 0 v j = (NGX_OK, v, j)"
| "hex4_loop (Suc i) v j =
     (case hex_value (hd (jp_pos j)) of
        None \<Rightarrow> (NGX_ERROR, 0, jp_fail (''invalid '' @ CHR 0x5c # ''u escape'') (adv 1 j))
      | Some d \<Rightarrow> hex4_loop i (push_bit 4 v + d) (adv 1 j))"

definition jp_hex4 :: "jp \<Rightarrow> rc \<times> u32 \<times> jp" where
  "jp_hex4 j =
     (if length (jp_pos j) < 4 then (NGX_ERROR, 0, jp_fail (''truncated '' @ CHR 0x5c # ''u escape'') j)
      else hex4_loop 4 0 j)"

text \<open>The byte a one-letter escape stands for; \<open>u\<close> is not among them.\<close>

definition simple_escape :: "byte \<Rightarrow> byte option" where
  "simple_escape c =
     (if c = 0x22 then Some 0x22 else if c = 0x5c then Some 0x5c else if c = 0x2f then Some 0x2f
      else if c = 0x62 then Some 0x08 else if c = 0x66 then Some 0x0c else if c = 0x6e then Some 0x0a
      else if c = 0x72 then Some 0x0d else if c = 0x74 then Some 0x09 else None)"

definition jp_surrogate :: "u32 \<Rightarrow> jp \<Rightarrow> rc \<times> u32 \<times> jp" where
  "jp_surrogate cp j =
     (if cp \<ge> 0xdc00 \<and> cp \<le> 0xdfff then (NGX_OK, 0xfffd, j)
      else if cp \<ge> 0xd800 \<and> cp \<le> 0xdbff
      then (if length (jp_pos j) \<ge> 6 \<and> take 2 (jp_pos j) = [0x5c, 0x75]
            then
              let (r, low, k) = jp_hex4 (adv 2 j) in
              if r \<noteq> NGX_OK then (NGX_ERROR, 0, k)
              else if low \<ge> 0xdc00 \<and> low \<le> 0xdfff
              then (NGX_OK, 0x10000 + push_bit 10 (cp - 0xd800) + (low - 0xdc00), k)
              else (NGX_OK, 0xfffd, j)
            else (NGX_OK, 0xfffd, j))
      else (NGX_OK, cp, j))"

text \<open>The rest of \<open>jp_unit\<close> after a backslash.\<close>

definition jp_code_point :: "jp \<Rightarrow> rc \<times> bytes \<times> jp" where
  "jp_code_point j =
     (let (r, cp, j) = jp_hex4 j in
      if r \<noteq> NGX_OK then (NGX_ERROR, [], j)
      else
        let (r, cp, j) = jp_surrogate cp j in
        if r \<noteq> NGX_OK then (NGX_ERROR, [], j) else (NGX_OK, utf8_encode cp, j))"

definition jp_escape :: "jp \<Rightarrow> rc \<times> bytes \<times> jp" where
  "jp_escape j =
     (case cur j of
        None \<Rightarrow> (NGX_ERROR, [], jp_fail ''unterminated string'' j)
      | Some c \<Rightarrow>
          let j = adv 1 j in
          case simple_escape c of
            Some b \<Rightarrow> (NGX_OK, [b], j)
          | None \<Rightarrow>
              if c \<noteq> 0x75 then (NGX_ERROR, [], jp_fail ''unknown escape sequence'' j)
              else jp_code_point j)"

definition jp_unit :: "jp \<Rightarrow> rc \<times> bytes \<times> jp" where
  "jp_unit j =
     (let c = hd (jp_pos j) in
      if c < 0x20 then (NGX_ERROR, [], jp_fail ''control character in string'' j)
      else if c \<ge> 0x80
      then
        let n = fst (utf8_valid (jp_pos j)) in
        if n = 0 then (NGX_ERROR, [], jp_fail ''invalid UTF-8 in string'' j)
        else (NGX_OK, take n (jp_pos j), adv n j)
      else if c \<noteq> 0x5c then (NGX_OK, [c], adv 1 j)
      else jp_escape (adv 1 j))"

lemma length_adv [simp]: "length (jp_pos (adv n j)) = length (jp_pos j) - n"
  by (simp add: adv_def)

lemma hex4_loop_len: "hex4_loop i v j = (NGX_OK, w, k) \<Longrightarrow> length (jp_pos k) = length (jp_pos j) - i"
  by (induction i v j rule: hex4_loop.induct) (auto split: option.splits)

lemma jp_hex4_len: "jp_hex4 j = (NGX_OK, w, k) \<Longrightarrow> length (jp_pos j) = length (jp_pos k) + 4"
  by (auto simp: jp_hex4_def dest!: hex4_loop_len split: if_splits)

lemma jp_surrogate_len: "jp_surrogate cp j = (NGX_OK, w, k) \<Longrightarrow> length (jp_pos k) \<le> length (jp_pos j)"
  by (auto simp: jp_surrogate_def Let_def dest!: jp_hex4_len split: if_splits prod.splits)

lemma utf8_cont_len:
  "utf8_cont i k lo hi p = (n, b) \<Longrightarrow> n \<noteq> 0 \<Longrightarrow> 0 < i \<Longrightarrow> n = i + k \<and> k \<le> length p"
  by (induction i k lo hi p rule: utf8_cont.induct) (auto split: if_splits)

lemma utf8_valid_len: "fst (utf8_valid p) \<le> length p"
proof (cases p)
  case (Cons c q)
  show ?thesis
  proof (cases "c < 0x80 \<or> utf8_lead c = None")
    case False
    then obtain need lo hi where l: "utf8_lead c = Some (need, lo, hi)" by (cases "utf8_lead c") auto
    obtain n b where "utf8_cont 1 need lo hi q = (n, b)" by fastforce
    then show ?thesis using utf8_cont_len [of 1 need lo hi q n b] l False Cons by auto
  qed (use Cons in auto)
qed simp

lemma jp_code_point_len: "jp_code_point j = (NGX_OK, u, k) \<Longrightarrow> length (jp_pos k) + 4 \<le> length (jp_pos j)"
  by (auto simp: jp_code_point_def dest!: jp_hex4_len jp_surrogate_len split: if_splits prod.splits)

lemma jp_escape_len:
  assumes "jp_escape j = (NGX_OK, u, k)" shows "length (jp_pos k) < length (jp_pos j)"
proof (cases "jp_pos j")
  case Nil
  then show ?thesis using assms by (simp add: jp_escape_def cur_def)
next
  case (Cons c p)
  have "length (jp_pos (adv 1 j)) = length p" using Cons by simp
  then show ?thesis
    using assms Cons jp_code_point_len [of "adv 1 j" u k]
    by (auto simp: jp_escape_def cur_def Let_def split: if_splits option.splits)
qed

lemma jp_unit_len:
  assumes "jp_unit j = (NGX_OK, u, k)" "jp_pos j \<noteq> []"
  shows "length (jp_pos k) < length (jp_pos j)"
proof -
  have "length (jp_pos j) > 0" using assms(2) by simp
  then show ?thesis
    using assms(1) utf8_valid_len [of "jp_pos j"] jp_escape_len [of "adv 1 j" u k]
    by (auto simp: jp_unit_def Let_def split: if_splits)
qed

text \<open>
  The loop of \<open>jp_string_buf\<close>: \<open>room\<close> is what is left of the buffer and \<open>out\<close> what it holds.
\<close>

function string_loop :: "nat \<Rightarrow> bool \<Rightarrow> bytes \<Rightarrow> jp \<Rightarrow> rc \<times> bytes \<times> jp" where
  "string_loop room full out j =
     (case cur j of
        None \<Rightarrow> (NGX_ERROR, [], jp_fail ''unterminated string'' j)
      | Some c \<Rightarrow>
          if c = 0x22 then (if full then (NGX_DECLINED, [], adv 1 j) else (NGX_OK, out, adv 1 j))
          else
            case jp_unit j of
              (NGX_OK, u, k) \<Rightarrow>
                if full \<or> room < length u then string_loop room True out k
                else string_loop (room - length u) False (out @ u) k
            | (_, _, k) \<Rightarrow> (NGX_ERROR, [], k))"
  by pat_completeness auto
termination
proof (relation "measure (\<lambda>(room, full, out, j). length (jp_pos j))")
qed (auto simp: cur_def split: list.splits dest!: sym [of _ "jp_unit _"] jp_unit_len)

declare string_loop.simps [simp del]

definition jp_string_buf :: "nat \<Rightarrow> jp \<Rightarrow> rc \<times> bytes \<times> jp" where
  "jp_string_buf room j =
     (let j = jp_ws j in
      if cur j \<noteq> Some 0x22 then (NGX_ERROR, [], jp_fail ''expected string'' j)
      else string_loop room False [] (adv 1 j))"

text \<open>The bytes before the closing quote.\<close>

fun string_scan :: "bytes \<Rightarrow> nat option" where
  "string_scan [] = None"
| "string_scan [b] = (if b = 0x22 then Some 0 else None)"
| "string_scan (b # c # p) =
     (if b = 0x22 then Some 0
      else if b = 0x5c then map_option (\<lambda>n. n + 2) (string_scan p)
      else map_option Suc (string_scan (c # p)))"

definition jp_string :: "bool \<Rightarrow> jp \<Rightarrow> rc \<times> bytes \<times> jp" where
  "jp_string alloc j =
     (let j = jp_ws j in
      if cur j \<noteq> Some 0x22 then (NGX_ERROR, [], jp_fail ''expected string'' j)
      else case string_scan (tl (jp_pos j)) of
        None \<Rightarrow> (NGX_ERROR, [], jp_fail ''unterminated string'' j)
      | Some n \<Rightarrow>
          if \<not> alloc then (NGX_ERROR, [], jp_fail ''no memory'' j) else jp_string_buf n j)"

definition jp_string_skip :: "jp \<Rightarrow> rc \<times> jp" where
  "jp_string_skip j =
     (let (r, _, j) = jp_string_buf 0 j in (if r = NGX_ERROR then NGX_ERROR else NGX_OK, j))"

definition jp_colon :: "jp \<Rightarrow> rc \<times> jp" where
  "jp_colon j =
     (let j = jp_ws j in
      if cur j \<noteq> Some 0x3a then (NGX_ERROR, jp_fail ''expected colon after member name'' j)
      else (NGX_OK, adv 1 j))"

definition jp_member :: "bool \<Rightarrow> jp \<Rightarrow> rc \<times> bytes \<times> jp" where
  "jp_member alloc j =
     (let (r, j) = jp_next 0x7d j in
      if r \<noteq> NGX_OK then (r, [], j)
      else
        let (r, key, j) = jp_string alloc j in
        if r \<noteq> NGX_OK then (NGX_ERROR, [], j)
        else
          let (r, j) = jp_colon j in
          if r \<noteq> NGX_OK then (NGX_ERROR, key, j) else (NGX_OK, key, jp_ws j))"

definition jp_key_skip :: "jp \<Rightarrow> rc \<times> jp" where
  "jp_key_skip j =
     (let (r, j) = jp_string_skip j in if r \<noteq> NGX_OK then (NGX_ERROR, j) else jp_colon j)"

subsubsection \<open>Numbers and literals\<close>

definition is_digit :: "byte \<Rightarrow> bool" where
  "is_digit c \<longleftrightarrow> 0x30 \<le> c \<and> c \<le> 0x39"

text \<open>The value is at most \<open>NGX_MAX_INT_T_VALUE\<close>, so the 64-bit arithmetic of the loop does not
  wrap and the numbers are natural numbers.\<close>

abbreviation (input) MAX_INT :: nat where "MAX_INT \<equiv> 9223372036854775807"

fun int_loop :: "nat \<Rightarrow> nat \<Rightarrow> bytes \<Rightarrow> (string + nat \<times> nat) \<times> bytes" where
  "int_loop v digits [] = (Inr (v, digits), [])"
| "int_loop v digits (c # p) =
     (if \<not> is_digit c then (Inr (v, digits), c # p)
      else if digits = 1 \<and> v = 0 then (Inl ''leading zero in number'', c # p)
      else
        let d = unat (c - 0x30) in
        if v > (MAX_INT - d) div 10 then (Inl ''number out of range'', c # p)
        else int_loop (v * 10 + d) (digits + 1) p)"

definition jp_int :: "jp \<Rightarrow> rc \<times> int \<times> jp" where
  "jp_int j =
     (let j = jp_ws j;
          negative = (cur j = Some 0x2d);
          j = (if negative then adv 1 j else j);
          (res, p) = int_loop 0 0 (jp_pos j);
          j = j\<lparr>jp_pos := p\<rparr>
      in case res of
           Inl msg \<Rightarrow> (NGX_ERROR, 0, jp_fail msg j)
         | Inr (v, digits) \<Rightarrow>
             if digits = 0 then (NGX_ERROR, 0, jp_fail ''expected integer'' j)
             else if cur j \<in> {Some 0x2e, Some 0x65, Some 0x45}
             then (NGX_ERROR, 0, jp_fail ''expected integer, got fractional number'' j)
             else (NGX_OK, if negative then - int v else int v, j))"

definition jp_literal :: "bytes \<Rightarrow> jp \<Rightarrow> rc \<times> jp" where
  "jp_literal lit j =
     (if take (length lit) (jp_pos j) \<noteq> lit then (NGX_ERROR, j) else (NGX_OK, adv (length lit) j))"

definition jp_bool :: "jp \<Rightarrow> rc \<times> bool \<times> jp" where
  "jp_bool j =
     (let j = jp_ws j; (r, k) = jp_literal (ascii ''true'') j in
      if r = NGX_OK then (NGX_OK, True, k)
      else
        let (r, k) = jp_literal (ascii ''false'') j in
        if r = NGX_OK then (NGX_OK, False, k)
        else (NGX_ERROR, False, jp_fail ''expected boolean'' j))"

definition jp_null :: "jp \<Rightarrow> bool \<times> jp" where
  "jp_null j = (let j = jp_ws j; (r, k) = jp_literal (ascii ''null'') j in (r = NGX_OK, k))"

definition jp_digits :: "jp \<Rightarrow> rc \<times> jp" where
  "jp_digits j =
     (let p = dropWhile is_digit (jp_pos j) in
      if p = jp_pos j then (NGX_ERROR, jp_fail ''invalid number'' j) else (NGX_OK, j\<lparr>jp_pos := p\<rparr>))"

definition jp_number_skip :: "jp \<Rightarrow> rc \<times> jp" where
  "jp_number_skip j =
     (let j = (if cur j = Some 0x2d then adv 1 j else j);
          (r, j) = (if cur j = Some 0x30 then (NGX_OK, adv 1 j) else jp_digits j)
      in if r \<noteq> NGX_OK then (NGX_ERROR, j)
      else
        let (r, j) = (if cur j = Some 0x2e then jp_digits (adv 1 j) else (NGX_OK, j)) in
        if r \<noteq> NGX_OK then (NGX_ERROR, j)
        else if cur j = Some 0x65 \<or> cur j = Some 0x45
        then
          let j = adv 1 j; j = (if cur j = Some 0x2b \<or> cur j = Some 0x2d then adv 1 j else j)
          in jp_digits j
        else (NGX_OK, j))"

subsubsection \<open>Skipping a value\<close>

text \<open>A value that is not an object or an array.\<close>

definition jp_scalar_skip :: "jp \<Rightarrow> rc \<times> jp" where
  "jp_scalar_skip j =
     (let c = hd (jp_pos j) in
      if c = 0x22 then jp_string_skip j
      else if c = 0x74 \<or> c = 0x66 then let (r, _, j) = jp_bool j in (r, j)
      else if c = 0x6e
      then let (null, j) = jp_null j
           in if null then (NGX_OK, j) else (NGX_ERROR, jp_fail ''unexpected value'' j)
      else if c \<noteq> 0x2d \<and> \<not> is_digit c then (NGX_ERROR, jp_fail ''unexpected character'' j)
      else jp_number_skip j)"

abbreviation (input) JSON_MAX_DEPTH :: nat where "JSON_MAX_DEPTH \<equiv> 16"

lemma length_ws: "length (jp_pos (jp_ws j)) \<le> length (jp_pos j)"
  by (simp add: jp_ws_def length_dropWhile_le)

lemma cur_Some: "cur j = Some c \<longleftrightarrow> (\<exists>p. jp_pos j = c # p)"
  by (cases "jp_pos j") (auto simp: cur_def)

lemma string_loop_len:
  "string_loop room full out j = (r, s, k) \<Longrightarrow> r \<noteq> NGX_ERROR \<Longrightarrow> length (jp_pos k) < length (jp_pos j)"
proof (induction room full out j rule: string_loop.induct)
  case (1 room full out j)
  obtain c p where j: "jp_pos j = c # p"
    using "1.prems" by (cases "jp_pos j") (auto simp: string_loop.simps [of room full out j] cur_def)
  show ?case
  proof (cases "c = 0x22")
    case True
    then show ?thesis
      using "1.prems" j by (auto simp: string_loop.simps [of room full out j] cur_def adv_def split: if_splits)
  next
    case False
    obtain q u l where unit: "jp_unit j = (q, u, l)" by (metis prod_cases3)
    have q: "q = NGX_OK"
      using "1.prems" j False by (cases q) (auto simp: string_loop.simps [of room full out j] cur_def unit)
    have "length (jp_pos l) < length (jp_pos j)" using jp_unit_len [of j u l] unit q j by simp
    moreover have "length (jp_pos k) < length (jp_pos l)"
    proof (cases "full \<or> room < length u")
      case True
      then show ?thesis
        using "1.IH"(1) [of c q "(u, l)" u l] "1.prems" j False q
        by (simp add: string_loop.simps [of room full out j] cur_def unit)
    next
      case small: False
      then show ?thesis
        using "1.IH"(2) [of c q "(u, l)" u l] "1.prems" j False q
        by (simp add: string_loop.simps [of room False out j] cur_def unit)
    qed
    ultimately show ?thesis by simp
  qed
qed

lemma jp_string_skip_len: "jp_string_skip j = (NGX_OK, k) \<Longrightarrow> length (jp_pos k) < length (jp_pos j)"
proof -
  assume "jp_string_skip j = (NGX_OK, k)"
  then obtain r s where "string_loop 0 False [] (adv 1 (jp_ws j)) = (r, s, k)" "r \<noteq> NGX_ERROR"
    by (auto simp: jp_string_skip_def jp_string_buf_def Let_def split: if_splits prod.splits)
  from string_loop_len [OF this] show ?thesis
    using length_ws [of j] by simp
qed

lemma jp_literal_len: "jp_literal lit j = (NGX_OK, k) \<Longrightarrow> lit \<noteq> [] \<Longrightarrow> length (jp_pos k) < length (jp_pos j)"
proof -
  assume "jp_literal lit j = (NGX_OK, k)" "lit \<noteq> []"
  then have "take (length lit) (jp_pos j) = lit" "k = adv (length lit) j"
    by (auto simp: jp_literal_def split: if_splits)
  then show ?thesis
    using \<open>lit \<noteq> []\<close> by (metis diff_less length_adv length_greater_0_conv take_Nil)
qed

lemma jp_bool_len: "jp_bool j = (NGX_OK, b, k) \<Longrightarrow> length (jp_pos k) < length (jp_pos j)"
  using length_ws [of j]
  by (auto simp: jp_bool_def Let_def ascii_def dest!: jp_literal_len split: if_splits prod.splits)

lemma jp_null_len: "jp_null j = (True, k) \<Longrightarrow> length (jp_pos k) < length (jp_pos j)"
  using length_ws [of j]
  by (auto simp: jp_null_def Let_def ascii_def dest!: jp_literal_len split: if_splits prod.splits)

lemma dropWhile_shorter: "dropWhile P xs \<noteq> xs \<Longrightarrow> length (dropWhile P xs) < length xs"
  by (cases xs) (auto simp: length_dropWhile_le less_Suc_eq_le split: if_splits)

lemma jp_digits_len: "jp_digits j = (NGX_OK, k) \<Longrightarrow> length (jp_pos k) < length (jp_pos j)"
  by (auto simp: jp_digits_def Let_def dropWhile_shorter split: if_splits)

lemma adv_1_len: "cur j = Some c \<Longrightarrow> length (jp_pos (adv 1 j)) < length (jp_pos j)"
  by (auto simp: cur_Some)

lemma jp_number_skip_len:
  assumes "jp_number_skip j = (NGX_OK, k)" shows "length (jp_pos k) < length (jp_pos j)"
proof -
  define j1 where "j1 = (if cur j = Some 0x2d then adv 1 j else j)"
  obtain r2 j2 where j2: "(if cur j1 = Some 0x30 then (NGX_OK, adv 1 j1) else jp_digits j1) = (r2, j2)" by fastforce
  obtain r3 j3 where j3: "(if cur j2 = Some 0x2e then jp_digits (adv 1 j2) else (NGX_OK, j2)) = (r3, j3)" by fastforce
  define j4 where "j4 = (if cur (adv 1 j3) = Some 0x2b \<or> cur (adv 1 j3) = Some 0x2d then adv 1 (adv 1 j3) else adv 1 j3)"
  have k: "r2 = NGX_OK" "r3 = NGX_OK" "k = j3 \<or> jp_digits j4 = (NGX_OK, k)"
    using assms j2 j3 unfolding jp_number_skip_def Let_def j1_def [symmetric] j4_def
    by (auto split: if_splits)
  have "length (jp_pos j1) \<le> length (jp_pos j)" by (simp add: j1_def)
  moreover have "length (jp_pos j2) < length (jp_pos j1)"
    using j2 k(1) jp_digits_len [of j1 j2] adv_1_len [of j1] by (auto split: if_splits)
  moreover have "length (jp_pos j3) \<le> length (jp_pos j2)"
    using j3 k(2) jp_digits_len [of "adv 1 j2" j3] by (auto split: if_splits)
  moreover have "length (jp_pos j4) \<le> length (jp_pos j3)" by (simp add: j4_def)
  moreover have "length (jp_pos k) \<le> length (jp_pos j3)"
    using k(3) jp_digits_len [of j4 k] \<open>length (jp_pos j4) \<le> length (jp_pos j3)\<close> by auto
  ultimately show ?thesis by simp
qed

lemma jp_scalar_skip_len: "jp_scalar_skip j = (NGX_OK, k) \<Longrightarrow> length (jp_pos k) < length (jp_pos j)"
  by (auto simp: jp_scalar_skip_def Let_def dest!: jp_string_skip_len jp_bool_len jp_null_len jp_number_skip_len
      split: if_splits prod.splits)

lemma jp_key_skip_len: "jp_key_skip j = (NGX_OK, k) \<Longrightarrow> length (jp_pos k) < length (jp_pos j)"
proof -
  assume "jp_key_skip j = (NGX_OK, k)"
  then obtain l where l: "jp_string_skip j = (NGX_OK, l)" "jp_colon l = (NGX_OK, k)"
    by (auto simp: jp_key_skip_def split: if_splits prod.splits)
  then have "length (jp_pos k) \<le> length (jp_pos l)"
    using length_ws [of l] by (auto simp: jp_colon_def Let_def split: if_splits)
  then show ?thesis using jp_string_skip_len [OF l(1)] by simp
qed

lemma skip_len:
  assumes "cur (jp_ws j) = Some c"
  shows "length (jp_pos (adv 1 (jp_ws j))) < length (jp_pos j)"
    and "length (jp_pos (jp_ws j)) - Suc 0 < length (jp_pos j)"
    and "length (jp_pos (jp_ws (adv 1 (jp_ws j)))) < length (jp_pos j)"
    and "length (jp_pos (jp_ws (adv (Suc 0) (jp_ws j)))) - Suc 0 < length (jp_pos j)"
    and "length (jp_pos (jp_ws (adv (Suc 0) (jp_ws j)))) < length (jp_pos j)"
    and "(NGX_OK, k) = jp_key_skip (adv (Suc 0) (jp_ws j)) \<Longrightarrow> length (jp_pos k) < length (jp_pos j)"
    and "(NGX_OK, k) = jp_key_skip (jp_ws (adv (Suc 0) (jp_ws j))) \<Longrightarrow> length (jp_pos k) < length (jp_pos j)"
    and "(NGX_OK, k) = jp_scalar_skip (jp_ws j) \<Longrightarrow> length (jp_pos k) < length (jp_pos j)"
  using adv_1_len [OF assms] length_ws [of j] length_ws [of "adv 1 (jp_ws j)"]
    jp_key_skip_len [of "adv (Suc 0) (jp_ws j)" k] jp_key_skip_len [of "jp_ws (adv (Suc 0) (jp_ws j))" k]
    jp_scalar_skip_len [of "jp_ws j" k]
  by (simp_all add: eq_commute [of "(NGX_OK, k)"])

definition closing :: "byte \<Rightarrow> byte" where
  "closing c = (if c = 0x7b then 0x7d else 0x5d)"

text \<open>
  \<open>skip_value\<close> is the outer loop and \<open>skip_after\<close> the inner one, which closes what a finished
  value ends. The stack of the source is a list with its top first.
\<close>

function skip_value :: "bytes \<Rightarrow> jp \<Rightarrow> rc \<times> jp" and skip_after :: "bytes \<Rightarrow> jp \<Rightarrow> rc \<times> jp" where
  "skip_value stack j =
     (let j = jp_ws j in
      case cur j of
        None \<Rightarrow> (NGX_ERROR, jp_fail ''truncated value'' j)
      | Some c \<Rightarrow>
          if c = 0x7b \<or> c = 0x5b
          then
            if length stack = JSON_MAX_DEPTH then (NGX_ERROR, jp_fail ''message nested too deeply'' j)
            else
              let j = jp_ws (adv 1 j) in
              if cur j = Some (closing c) then skip_after stack (adv 1 j)
              else if c = 0x7b
              then (case jp_key_skip j of
                      (NGX_OK, j) \<Rightarrow> skip_value (closing c # stack) j
                    | (_, j) \<Rightarrow> (NGX_ERROR, j))
              else skip_value (closing c # stack) j
          else (case jp_scalar_skip j of
                  (NGX_OK, j) \<Rightarrow> skip_after stack j
                | (_, j) \<Rightarrow> (NGX_ERROR, j)))"
| "skip_after stack j =
     (case stack of
        [] \<Rightarrow> (NGX_OK, j)
      | clo # rest \<Rightarrow>
          let j = jp_ws j in
          case cur j of
            None \<Rightarrow> (NGX_ERROR, jp_fail ''truncated value'' j)
          | Some c \<Rightarrow>
              if c = clo then skip_after rest (adv 1 j)
              else if c \<noteq> 0x2c then (NGX_ERROR, jp_fail ''expected comma'' j)
              else if clo = 0x7d
              then (case jp_key_skip (adv 1 j) of
                      (NGX_OK, j) \<Rightarrow> skip_value stack j
                    | (_, j) \<Rightarrow> (NGX_ERROR, j))
              else skip_value stack (adv 1 j))"
  by pat_completeness auto
termination
proof (relation "measure (\<lambda>x. case x of Inl (stack, j) \<Rightarrow> length (jp_pos j) | Inr (stack, j) \<Rightarrow> length (jp_pos j))")
qed (auto intro: skip_len)

declare skip_value.simps [simp del] skip_after.simps [simp del]

definition jp_skip :: "jp \<Rightarrow> rc \<times> jp" where
  "jp_skip j = skip_value [] j"

end
