(* ===== verification/Json_Laws.thy ===== *)
theory Json_Laws
  imports Json
begin

text \<open>
  The laws of the JSON codec: what the writer writes, that the parser reads it back, that a decoded
  string never outgrows its text, and that the skipping loop with its explicit stack accepts exactly
  the values of a recursive grammar.
\<close>

subsection \<open>Skipping is recursive descent\<close>

text \<open>
  The grammar: a value at most \<open>d\<close> brackets deep, and the rest of a bracket \<open>c\<close> whose next value
  starts at \<open>j\<close>, the name of a member being read already.
\<close>

definition key_read :: "byte \<Rightarrow> jp \<Rightarrow> jp \<Rightarrow> bool" where
  "key_read c j k \<longleftrightarrow> (if c = 0x7b then jp_key_skip j = (NGX_OK, k) else k = j)"

definition opened :: "byte \<Rightarrow> jp \<Rightarrow> bool" where
  "opened c j \<longleftrightarrow> c \<in> {0x7b, 0x5b} \<and> cur (jp_ws j) = Some c"

inductive rvalue :: "nat \<Rightarrow> jp \<Rightarrow> jp \<Rightarrow> bool" and rlist :: "nat \<Rightarrow> byte \<Rightarrow> jp \<Rightarrow> jp \<Rightarrow> bool" where
  scalar: "cur (jp_ws j) = Some c \<Longrightarrow> c \<notin> {0x7b, 0x5b} \<Longrightarrow> jp_scalar_skip (jp_ws j) = (NGX_OK, k) \<Longrightarrow> rvalue d j k"
| empty: "opened c j \<Longrightarrow> cur (jp_ws (adv 1 (jp_ws j))) = Some (closing c)
    \<Longrightarrow> rvalue (Suc d) j (adv 1 (jp_ws (adv 1 (jp_ws j))))"
| nest: "opened c j \<Longrightarrow> cur (jp_ws (adv 1 (jp_ws j))) \<noteq> Some (closing c)
    \<Longrightarrow> key_read c (jp_ws (adv 1 (jp_ws j))) m \<Longrightarrow> rlist d c m k \<Longrightarrow> rvalue (Suc d) j k"
| last: "rvalue d j m \<Longrightarrow> cur (jp_ws m) = Some (closing c) \<Longrightarrow> rlist d c j (adv 1 (jp_ws m))"
| more: "rvalue d j m \<Longrightarrow> cur (jp_ws m) = Some 0x2c \<Longrightarrow> key_read c (adv 1 (jp_ws m)) n
    \<Longrightarrow> rlist d c n k \<Longrightarrow> rlist d c j k"

lemma comma_not_closing [simp]: "closing c \<noteq> 0x2c" "0x2c \<noteq> closing c"
  by (simp_all add: closing_def)

lemma closing_brace: "c \<in> {0x7b, 0x5b} \<Longrightarrow> closing c = 0x7d \<longleftrightarrow> c = 0x7b"
  by (auto simp: closing_def)

text \<open>The two loops, one step at a time.\<close>

lemma skip_value_scalar:
  assumes "cur (jp_ws j) = Some c" "c \<notin> {0x7b, 0x5b}"
  shows "skip_value stack j =
     (case jp_scalar_skip (jp_ws j) of (NGX_OK, j) \<Rightarrow> skip_after stack j | (_, j) \<Rightarrow> (NGX_ERROR, j))"
  using assms by (subst skip_value.simps) (simp add: Let_def)

lemma skip_value_empty:
  assumes "opened c j" "cur (jp_ws (adv 1 (jp_ws j))) = Some (closing c)" "length stack < JSON_MAX_DEPTH"
  shows "skip_value stack j = skip_after stack (adv 1 (jp_ws (adv 1 (jp_ws j))))"
  using assms by (subst skip_value.simps) (auto simp: opened_def Let_def)

lemma skip_value_nest:
  assumes "opened c j" "cur (jp_ws (adv 1 (jp_ws j))) \<noteq> Some (closing c)" "length stack < JSON_MAX_DEPTH"
    and "key_read c (jp_ws (adv 1 (jp_ws j))) m"
  shows "skip_value stack j = skip_value (closing c # stack) m"
  using assms by (subst skip_value.simps) (auto simp: opened_def key_read_def Let_def)

lemma skip_after_close:
  assumes "cur (jp_ws m) = Some (closing c)"
  shows "skip_after (closing c # stack) m = skip_after stack (adv 1 (jp_ws m))"
  using assms by (subst skip_after.simps) (simp add: Let_def)

lemma skip_after_comma:
  assumes "c \<in> {0x7b, 0x5b}" "cur (jp_ws m) = Some 0x2c" "key_read c (adv 1 (jp_ws m)) n"
  shows "skip_after (closing c # stack) m = skip_value (closing c # stack) n"
  using assms by (subst skip_after.simps) (auto simp: Let_def closing_def key_read_def)

lemma descent_skips:
  "rvalue d j k \<Longrightarrow> \<forall>stack. length stack + d = JSON_MAX_DEPTH \<longrightarrow> skip_value stack j = skip_after stack k"
  "rlist d c j k \<Longrightarrow> c \<in> {0x7b, 0x5b} \<longrightarrow>
     (\<forall>stack. length stack + d + 1 = JSON_MAX_DEPTH \<longrightarrow> skip_value (closing c # stack) j = skip_after stack k)"
proof (induction rule: rvalue_rlist.inducts)
  case (scalar j c k d)
  then show ?case by (simp add: skip_value_scalar)
next
  case (empty c j d)
  then show ?case by (auto simp: skip_value_empty)
next
  case (nest c j m d k)
  then show ?case using skip_value_nest [OF nest(1,2) _ nest(3)] by (auto simp: opened_def)
next
  case (last d j m c)
  then show ?case by (auto simp: skip_after_close)
next
  case (more d j m c n k)
  then show ?case using skip_after_comma [OF _ more(2,3)] by auto
qed

lemma rvalue_len: "rvalue d j k \<Longrightarrow> length (jp_pos k) < length (jp_pos j)"
  "rlist d c j k \<Longrightarrow> length (jp_pos k) < length (jp_pos j)"
proof (induction rule: rvalue_rlist.inducts)
  case (scalar j c k d)
  then show ?case using skip_len(8) [OF scalar(1)] by simp
next
  case (empty c j d)
  then have "cur (jp_ws j) = Some c" by (simp add: opened_def)
  then show ?case using skip_len(4) [of j c] by simp
next
  case (nest c j m d k)
  then have c: "cur (jp_ws j) = Some c" by (simp add: opened_def)
  have "length (jp_pos m) < length (jp_pos j)"
    using nest(3) skip_len(5,7) [OF c] by (auto simp: key_read_def split: if_splits)
  then show ?case using nest.IH by simp
next
  case (last d j m c)
  then show ?case using skip_len(1) [OF last(2)] by simp
next
  case (more d j m c n k)
  have "length (jp_pos n) < length (jp_pos m)"
    using more(3) skip_len(1,6) [OF more(2)] by (auto simp: key_read_def split: if_splits)
  then show ?case using more.IH by simp
qed

lemma skip_value_cases:
  assumes "skip_value stack j = (NGX_OK, k)" "length stack \<le> JSON_MAX_DEPTH"
  obtains (scalar) c m where "cur (jp_ws j) = Some c" "c \<notin> {0x7b, 0x5b}" "jp_scalar_skip (jp_ws j) = (NGX_OK, m)"
      "skip_after stack m = (NGX_OK, k)"
  | (empty) c where "opened c j" "cur (jp_ws (adv 1 (jp_ws j))) = Some (closing c)" "length stack < JSON_MAX_DEPTH"
      "skip_after stack (adv 1 (jp_ws (adv 1 (jp_ws j)))) = (NGX_OK, k)"
  | (nest) c m where "opened c j" "cur (jp_ws (adv 1 (jp_ws j))) \<noteq> Some (closing c)" "length stack < JSON_MAX_DEPTH"
      "key_read c (jp_ws (adv 1 (jp_ws j))) m" "skip_value (closing c # stack) m = (NGX_OK, k)"
proof -
  obtain c where c: "cur (jp_ws j) = Some c"
    using assms(1) by (subst (asm) skip_value.simps) (auto simp: Let_def split: option.splits)
  show thesis
  proof (cases "c \<in> {0x7b, 0x5b}")
    case False
    obtain r m where m: "jp_scalar_skip (jp_ws j) = (r, m)" by fastforce
    then have "r = NGX_OK" using assms(1) skip_value_scalar [OF c False] by (cases r) simp_all
    then show ?thesis using scalar [OF c False] m assms(1) skip_value_scalar [OF c False] by simp
  next
    case True
    then have op: "opened c j" using c by (simp add: opened_def)
    have len: "length stack < JSON_MAX_DEPTH"
      using assms c True by (subst (asm) skip_value.simps) (auto simp: Let_def split: if_splits)
    show ?thesis
    proof (cases "cur (jp_ws (adv 1 (jp_ws j))) = Some (closing c)")
      case e: True
      then show ?thesis using empty [OF op e len] assms(1) skip_value_empty [OF op e len] by simp
    next
      case n: False
      have "\<exists>m. key_read c (jp_ws (adv 1 (jp_ws j))) m"
        using assms(1) c True len n
        by (subst (asm) skip_value.simps) (auto simp: Let_def key_read_def split: prod.splits rc.splits)
      then obtain m where "key_read c (jp_ws (adv 1 (jp_ws j))) m" by blast
      then show ?thesis using nest [OF op n len] skip_value_nest [OF op n len] assms(1) by simp
    qed
  qed
qed

lemma skip_after_cases:
  assumes "skip_after (closing c # stack) m = (NGX_OK, k)" "c \<in> {0x7b, 0x5b}"
  obtains (close) "cur (jp_ws m) = Some (closing c)" "skip_after stack (adv 1 (jp_ws m)) = (NGX_OK, k)"
  | (comma) n where "cur (jp_ws m) = Some 0x2c" "key_read c (adv 1 (jp_ws m)) n"
      "skip_value (closing c # stack) n = (NGX_OK, k)"
proof -
  obtain x where x: "cur (jp_ws m) = Some x"
    using assms(1) by (subst (asm) skip_after.simps) (auto simp: Let_def split: option.splits)
  show thesis
  proof (cases "x = closing c")
    case True
    then show ?thesis using close x assms(1) skip_after_close [of m c stack] by simp
  next
    case False
    then have 2: "x = 0x2c"
      using assms(1) x by (subst (asm) skip_after.simps) (auto simp: Let_def split: if_splits)
    have "\<exists>n. key_read c (adv 1 (jp_ws m)) n"
      using assms x 2
      by (subst (asm) skip_after.simps) (auto simp: Let_def key_read_def closing_def split: prod.splits rc.splits)
    then obtain n where "key_read c (adv 1 (jp_ws m)) n" by blast
    then show ?thesis using comma x 2 assms skip_after_comma [OF assms(2), of m n stack] by simp
  qed
qed

lemma skips_descent:
  "(\<forall>stack k. length stack \<le> JSON_MAX_DEPTH \<longrightarrow> skip_value stack j = (NGX_OK, k) \<longrightarrow>
      (\<exists>m. rvalue (JSON_MAX_DEPTH - length stack) j m \<and> skip_after stack m = (NGX_OK, k)))
   \<and> (\<forall>c stack k. c \<in> {0x7b, 0x5b} \<longrightarrow> length stack < JSON_MAX_DEPTH \<longrightarrow> skip_value (closing c # stack) j = (NGX_OK, k) \<longrightarrow>
      (\<exists>m. rlist (JSON_MAX_DEPTH - Suc (length stack)) c j m \<and> skip_after stack m = (NGX_OK, k)))"
proof (induction "length (jp_pos j)" arbitrary: j rule: less_induct)
  case less
  have A: "\<exists>m. rvalue (JSON_MAX_DEPTH - length stack) j m \<and> skip_after stack m = (NGX_OK, k)"
    if "length stack \<le> JSON_MAX_DEPTH" "skip_value stack j = (NGX_OK, k)" for stack k
    using that(2,1)
  proof (cases rule: skip_value_cases)
    case (scalar c m)
    then show ?thesis using rvalue_rlist.scalar by blast
  next
    case (empty c)
    then have "JSON_MAX_DEPTH - length stack = Suc (JSON_MAX_DEPTH - Suc (length stack))" by simp
    then show ?thesis using rvalue_rlist.empty [OF empty(1,2)] empty(4) by metis
  next
    case (nest c m)
    have c: "c \<in> {0x7b, 0x5b}" "cur (jp_ws j) = Some c" using nest(1) by (simp_all add: opened_def)
    have "length (jp_pos m) < length (jp_pos j)"
      using nest(4) skip_len(5,7) [OF c(2)] by (auto simp: key_read_def split: if_splits)
    from less [OF this] obtain n where n: "rlist (JSON_MAX_DEPTH - Suc (length stack)) c m n" "skip_after stack n = (NGX_OK, k)"
      using c(1) nest(3,5) by blast
    have "JSON_MAX_DEPTH - length stack = Suc (JSON_MAX_DEPTH - Suc (length stack))" using nest(3) by simp
    then show ?thesis using rvalue_rlist.nest [OF nest(1,2,4) n(1)] n(2) by metis
  qed
  have B: "\<exists>m. rlist (JSON_MAX_DEPTH - Suc (length stack)) c j m \<and> skip_after stack m = (NGX_OK, k)"
    if c: "c \<in> {0x7b, 0x5b}" "length stack < JSON_MAX_DEPTH" "skip_value (closing c # stack) j = (NGX_OK, k)" for c stack k
  proof -
    obtain m where m: "rvalue (JSON_MAX_DEPTH - Suc (length stack)) j m" "skip_after (closing c # stack) m = (NGX_OK, k)"
      using A [of "closing c # stack" k] c by auto
    from m(2) c(1) show ?thesis
    proof (cases rule: skip_after_cases)
      case close
      then show ?thesis using rvalue_rlist.last [OF m(1)] by blast
    next
      case (comma n)
      have "length (jp_pos n) < length (jp_pos m)"
        using comma(2) skip_len(1,6) [OF comma(1)] by (auto simp: key_read_def split: if_splits)
      then have "length (jp_pos n) < length (jp_pos j)" using rvalue_len(1) [OF m(1)] by simp
      from less [OF this] obtain l where "rlist (JSON_MAX_DEPTH - Suc (length stack)) c n l" "skip_after stack l = (NGX_OK, k)"
        using c(1,2) comma(3) by blast
      then show ?thesis using rvalue_rlist.more [OF m(1) comma(1,2)] by blast
    qed
  qed
  show ?case using A B by blast
qed

lemma skip_after_Nil [simp]: "skip_after [] j = (NGX_OK, j)"
  by (simp add: skip_after.simps)

text \<open>
  C22: Skipping a value with the explicit stack accepts exactly the values of the recursive grammar
  that are at most sixteen brackets deep, and stops right behind the value: objects with quoted names
  and colons, arrays, commas between the members and none before a closing bracket.
\<close>

theorem jp_skip_grammar: "jp_skip j = (NGX_OK, k) \<longleftrightarrow> rvalue JSON_MAX_DEPTH j k"
proof
  assume "jp_skip j = (NGX_OK, k)"
  then have "skip_value [] j = (NGX_OK, k)" by (simp add: jp_skip_def)
  then obtain m where "rvalue (JSON_MAX_DEPTH - length []) j m" "skip_after [] m = (NGX_OK, k)"
    using skips_descent [of j, THEN conjunct1, rule_format, of "[]" k] by auto
  then show "rvalue JSON_MAX_DEPTH j k" by simp
next
  assume "rvalue JSON_MAX_DEPTH j k"
  then show "jp_skip j = (NGX_OK, k)" using descent_skips(1) by (force simp: jp_skip_def)
qed

subsection \<open>What the writer writes\<close>

text \<open>The text of a byte and of a string between the quotes, and the string as a reader gets it back:
  every ill-formed part is one U+FFFD.\<close>

definition escaped :: "byte \<Rightarrow> bytes" where
  "escaped c =
     (if c = 0x22 \<or> c = 0x5c then [0x5c, c]
      else if c \<ge> 0x20 then [c]
      else if c = 0x0a then [0x5c, 0x6e]
      else if c = 0x0d then [0x5c, 0x72]
      else if c = 0x09 then [0x5c, 0x74]
      else if c = 0x08 then [0x5c, 0x62]
      else if c = 0x0c then [0x5c, 0x66]
      else [0x5c, 0x75, 0x30, 0x30, ascii ''0123456789abcdef'' ! unat (drop_bit 4 c AND 0xf),
            ascii ''0123456789abcdef'' ! unat (c AND 0xf)])"

text \<open>The units of a string: its well-formed UTF-8 sequences and its ill-formed parts.\<close>

definition unit_len :: "bytes \<Rightarrow> nat" where
  "unit_len p = (let (n, bad) = utf8_valid p in if n \<noteq> 0 then n else bad)"

lemma unit_len_pos: "0 < unit_len p"
  using utf8_valid_bad [of p] by (auto simp: unit_len_def split: prod.split)

definition replacement :: bytes where
  "replacement = [0xef, 0xbf, 0xbd]"

function quoted :: "bytes \<Rightarrow> bytes" where
  "quoted p =
     (case p of [] \<Rightarrow> []
      | c # q \<Rightarrow>
          (if c < 0x80 then escaped c
           else if fst (utf8_valid p) \<noteq> 0 then take (unit_len p) p else replacement)
          @ quoted (drop (unit_len p) p))"
  by pat_completeness auto
termination
  by (relation "measure length") (use unit_len_pos in auto)

function repaired :: "bytes \<Rightarrow> bytes" where
  "repaired p =
     (if p = [] then []
      else (if fst (utf8_valid p) \<noteq> 0 then take (unit_len p) p else replacement)
           @ repaired (drop (unit_len p) p))"
  by pat_completeness auto
termination
  by (relation "measure length") (use unit_len_pos in auto)

declare quoted.simps [simp del] repaired.simps [simp del]

lemma quoted_Nil [simp]: "quoted [] = []" "repaired [] = []"
  by (simp_all add: quoted.simps repaired.simps)

lemma quoted_Cons:
  "quoted (c # q) =
     (if c < 0x80 then escaped c @ quoted q
      else if fst (utf8_valid (c # q)) \<noteq> 0
      then take (unit_len (c # q)) (c # q) @ quoted (drop (unit_len (c # q)) (c # q))
      else replacement @ quoted (drop (unit_len (c # q)) (c # q)))"
  by (subst quoted.simps) (simp add: unit_len_def)

lemma repaired_Cons:
  "repaired (c # q) =
     (if c < 0x80 then c # repaired q
      else if fst (utf8_valid (c # q)) \<noteq> 0
      then take (unit_len (c # q)) (c # q) @ repaired (drop (unit_len (c # q)) (c # q))
      else replacement @ repaired (drop (unit_len (c # q)) (c # q)))"
  by (subst repaired.simps) (simp add: unit_len_def)

text \<open>A step of the writer: it writes \<open>text\<close> if there is room, and remembers when there is not.\<close>

definition writes :: "bytes \<Rightarrow> jw \<Rightarrow> bool \<times> jw \<Rightarrow> bool" where
  "writes txt j gk \<longleftrightarrow>
     (let (go, k) = gk in
      jw_size k = jw_size j \<and> length (jw_out k) \<le> jw_size k
      \<and> (length txt \<le> jw_room j \<longrightarrow> go \<and> k = j\<lparr>jw_out := jw_out j @ txt\<rparr>)
      \<and> (jw_room j < length txt \<longrightarrow> jw_overflow k)
      \<and> (jw_overflow j \<longrightarrow> jw_overflow k))"

lemma writes_raw: "length (jw_out j) \<le> jw_size j \<Longrightarrow> writes txt j (True, jw_raw txt j)"
  by (auto simp: writes_def jw_raw_def jw_room_def)

lemma writes_put: "length (jw_out j) \<le> jw_size j \<Longrightarrow> writes txt j (jw_put txt j)"
  by (auto simp: writes_def jw_put_def jw_room_def)

lemma writes_char: "length (jw_out j) \<le> jw_size j \<Longrightarrow> c < 0x80 \<Longrightarrow> writes (escaped c) j (jw_char c j)"
  by (simp add: jw_char_def escaped_def ascii_def writes_raw writes_put)

lemma writes_seq:
  assumes "writes xs j (True, k)" "writes ys k gl" shows "writes (xs @ ys) j gl"
proof -
  have "jw_room k = jw_room j - length xs" if "length xs \<le> jw_room j"
    using assms(1) that by (auto simp: writes_def jw_room_def)
  then show ?thesis using assms by (auto simp: writes_def Let_def split: prod.splits)
qed

lemma writes_stop: "writes xs j (False, k) \<Longrightarrow> writes (xs @ ys) j (False, k)"
  by (auto simp: writes_def)

lemma writes_bound: "writes xs j (go, k) \<Longrightarrow> length (jw_out k) \<le> jw_size k"
  by (simp add: writes_def)

lemma writes_loop: "length (jw_out j) \<le> jw_size j \<Longrightarrow> writes (quoted data) j (jw_string_loop data j)"
proof (induction data j rule: jw_string_loop.induct)
  case (1 data j)
  show ?case
  proof (cases data)
    case Nil
    then show ?thesis using "1.prems" by (simp add: jw_string_loop.simps writes_def)
  next
    case (Cons c q)
    show ?thesis
    proof (cases "c < 0x80")
      case True
      then have nl: "\<not> 0x80 \<le> c" by simp
      obtain go k where k: "jw_char c j = (go, k)" by fastforce
      have w: "writes (escaped c) j (go, k)" using writes_char [OF "1.prems" True] k by simp
      have eq: "jw_string_loop data j = (if go then jw_string_loop q k else (False, k))"
        using Cons nl k by (simp add: jw_string_loop.simps [of "c # q" j])
      show ?thesis
      proof (cases go)
        case True
        then have "writes (quoted q) k (jw_string_loop q k)"
          using "1.IH"(3) [of c q "(go, k)" go k] Cons nl k writes_bound [OF w] by simp
        then show ?thesis using True w eq Cons \<open>c < 0x80\<close> writes_seq by (simp add: quoted_Cons)
      next
        case False
        then show ?thesis using w eq Cons \<open>c < 0x80\<close> writes_stop by (simp add: quoted_Cons)
      qed
    next
      case False
      then have ge: "0x80 \<le> c" by simp
      obtain n bad where n: "utf8_valid data = (n, bad)" by fastforce
      show ?thesis
      proof (cases "n = 0")
        case True
        let ?k = "jw_raw [0xef, 0xbf, 0xbd] j"
        have w: "writes replacement j (True, ?k)" unfolding replacement_def by (rule writes_raw [OF "1.prems"])
        have "writes (quoted (drop bad data)) ?k (jw_string_loop (drop bad data) ?k)"
          using "1.IH"(2) [of c q "(n, bad)" n bad] Cons ge n True writes_bound [OF w] by (simp del: utf8_valid.simps)
        then show ?thesis
          using writes_seq [OF w] Cons False ge n True
          by (simp add: quoted_Cons jw_string_loop.simps [of "c # q" j] unit_len_def del: utf8_valid.simps)
      next
        case nz: False
        let ?k = "jw_raw (take n data) j"
        have w: "writes (take n data) j (True, ?k)" by (rule writes_raw [OF "1.prems"])
        have "writes (quoted (drop n data)) ?k (jw_string_loop (drop n data) ?k)"
          using "1.IH"(1) [of c q "(n, bad)" n bad] Cons ge n nz writes_bound [OF w] by (simp del: utf8_valid.simps)
        then show ?thesis
          using writes_seq [OF w] Cons False ge n nz
          by (simp add: quoted_Cons jw_string_loop.simps [of "c # q" j] unit_len_def del: utf8_valid.simps)
      qed
    qed
  qed
qed

lemma writes_string:
  assumes "length (jw_out j) \<le> jw_size j"
  shows "writes (0x22 # quoted data @ [0x22]) j (True, jw_string data j)"
proof -
  obtain go k where k: "jw_string_loop data (jw_raw [0x22] j) = (go, k)" by fastforce
  have 1: "writes [0x22] j (True, jw_raw [0x22] j)" by (rule writes_raw [OF assms])
  have 2: "writes (quoted data) (jw_raw [0x22] j) (go, k)"
    using writes_loop [OF writes_bound [OF 1], of data] k by simp
  have 12: "writes ([0x22] @ quoted data) j (go, k)" by (rule writes_seq [OF 1 2])
  show ?thesis
  proof (cases go)
    case True
    have "writes [0x22] k (True, jw_raw [0x22] k)" by (rule writes_raw [OF writes_bound [OF 2]])
    then show ?thesis using writes_seq [of "[0x22] @ quoted data" j k "[0x22]"] 12 True k by (simp add: jw_string_def)
  next
    case False
    then show ?thesis using 12 k by (auto simp: jw_string_def writes_def)
  qed
qed

text \<open>
  C23: The writer never runs over its buffer, and it tells the truth about it: if the quoted text of
  the string fits, it is exactly what is appended and the overflow flag does not change; if it does
  not fit, the flag is set.
\<close>

theorem jw_string_writes:
  assumes "length (jw_out j) \<le> jw_size j"
  shows "let txt = 0x22 # quoted data @ [0x22]; k = jw_string data j in
         length (jw_out k) \<le> jw_size k \<and> jw_size k = jw_size j
         \<and> (if length txt \<le> jw_size j - length (jw_out j) then k = j\<lparr>jw_out := jw_out j @ txt\<rparr>
            else jw_overflow k)"
  using writes_string [OF assms, of data] by (auto simp: writes_def jw_room_def Let_def)

theorem jw_string_writes_witness:
  "jw_overflow (jw_string [0x61, 0x22] (jw_init 4)) \<and> jw_out (jw_string [0x61, 0x22] (jw_init 5)) = [0x22, 0x61, 0x5c, 0x22, 0x22]"
proof -
  have q: "quoted [0x61, 0x22] = [0x61, 0x5c, 0x22]" by (simp add: quoted_Cons escaped_def)
  show ?thesis
    using jw_string_writes [of "jw_init 4" "[0x61, 0x22]"] jw_string_writes [of "jw_init 5" "[0x61, 0x22]"]
    by (simp add: q jw_init_def Let_def)
qed

subsection \<open>A decoded string fits its text\<close>

lemma scan_plain: "x \<noteq> 0x22 \<Longrightarrow> x \<noteq> 0x5c \<Longrightarrow> string_scan (x # p) = map_option Suc (string_scan p)"
  by (cases p) simp_all

lemma scan_plains:
  "\<forall>x\<in>set xs. x \<noteq> 0x22 \<and> x \<noteq> 0x5c \<Longrightarrow> string_scan (xs @ p) = map_option (\<lambda>n. n + length xs) (string_scan p)"
  by (induction xs) (auto simp: scan_plain option.map_comp comp_def option.map_ident)

lemma scan_escape: "string_scan (0x5c # x # p) = map_option (\<lambda>n. n + 2) (string_scan p)"
  by simp

lemma utf8_cont_high:
  "utf8_cont i k lo hi p = (n, b) \<Longrightarrow> n \<noteq> 0 \<Longrightarrow> 0x80 \<le> lo \<Longrightarrow> x \<in> set (take k p) \<Longrightarrow> 0x80 \<le> x"
proof (induction i k lo hi p rule: utf8_cont.induct)
  case (3 i k lo hi c p)
  then show ?case by (auto split: if_splits simp: not_less)
qed simp_all

lemma utf8_lead_low: "utf8_lead c = Some (need, lo, hi) \<Longrightarrow> 0x80 \<le> lo"
  by (auto simp: utf8_lead_def split: if_splits)

lemma utf8_valid_unit:
  assumes "\<not> c < 0x80" "utf8_valid (c # p) = (n, b)" "n \<noteq> 0"
  obtains need lo hi where "utf8_lead c = Some (need, lo, hi)" "utf8_cont 1 need lo hi p = (n, b)" "n = Suc need" "need \<le> length p"
proof -
  obtain need lo hi where l: "utf8_lead c = Some (need, lo, hi)"
    using assms by (cases "utf8_lead c") auto
  then have c: "utf8_cont 1 need lo hi p = (n, b)" using assms by simp
  show thesis using that [OF l c] utf8_cont_len [OF c assms(3)] by simp
qed

lemma utf8_valid_high:
  assumes "0x80 \<le> c" "utf8_valid (c # p) = (n, b)" "n \<noteq> 0" "x \<in> set (take n (c # p))"
  shows "0x80 \<le> x"
proof -
  have "\<not> c < 0x80" using assms(1) by simp
  then obtain need lo hi where l: "utf8_lead c = Some (need, lo, hi)" and co: "utf8_cont 1 need lo hi p = (n, b)"
      and n: "n = Suc need"
    using utf8_valid_unit [OF _ assms(2,3)] by blast
  show ?thesis
    using assms(1,4) utf8_cont_high [OF co assms(3) utf8_lead_low [OF l], of x] n by auto
qed

text \<open>\<open>spans xs j k\<close>: between \<open>j\<close> and \<open>k\<close> lie the bytes \<open>xs\<close>, none of which ends the string.\<close>

definition spans :: "bytes \<Rightarrow> jp \<Rightarrow> jp \<Rightarrow> bool" where
  "spans xs j k \<longleftrightarrow>
     jp_pos j = xs @ jp_pos k
     \<and> string_scan (jp_pos j) = map_option (\<lambda>n. n + length xs) (string_scan (jp_pos k))"

lemma spans_trans:
  assumes "spans xs j k" "spans ys k l" shows "spans (xs @ ys) j l"
  using assms unfolding spans_def
  by (auto simp: option.map_comp comp_def add.commute add.left_commute intro!: option.map_cong)

lemma spans_plains:
  "jp_pos j = xs @ jp_pos k \<Longrightarrow> \<forall>x\<in>set xs. x \<noteq> 0x22 \<and> x \<noteq> 0x5c \<Longrightarrow> spans xs j k"
  by (simp add: spans_def scan_plains)

lemma hex_value_digit: "hex_value x = Some v \<Longrightarrow> x \<noteq> 0x22 \<and> x \<noteq> 0x5c"
  by (auto simp: hex_value_def split: if_splits)

lemma hex4_loop_spans:
  assumes "hex4_loop i v j = (NGX_OK, w, k)" "i \<le> length (jp_pos j)"
  shows "\<exists>xs. length xs = i \<and> jp_pos j = xs @ jp_pos k \<and> (\<forall>x\<in>set xs. x \<noteq> 0x22 \<and> x \<noteq> 0x5c)"
  using assms
proof (induction i v j rule: hex4_loop.induct)
  case (2 i v j)
  obtain c p where j: "jp_pos j = c # p" using "2.prems"(2) by (cases "jp_pos j") auto
  obtain d where d: "hex_value c = Some d" using "2.prems"(1) j by (cases "hex_value c") auto
  have a: "jp_pos (adv 1 j) = p" using j by (simp add: adv_def)
  obtain xs where "length xs = i" "p = xs @ jp_pos k" "\<forall>x\<in>set xs. x \<noteq> 0x22 \<and> x \<noteq> 0x5c"
    using "2.IH" [of d] "2.prems" j d a by auto
  then show ?case using j hex_value_digit [OF d] by (intro exI [of _ "c # xs"]) simp
qed simp

lemma jp_hex4_spans:
  "jp_hex4 j = (NGX_OK, w, k) \<Longrightarrow> \<exists>xs. length xs = 4 \<and> jp_pos j = xs @ jp_pos k \<and> (\<forall>x\<in>set xs. x \<noteq> 0x22 \<and> x \<noteq> 0x5c)"
  by (auto simp: jp_hex4_def not_less dest: hex4_loop_spans split: if_splits)

lemma spans_u_escape:
  assumes "jp_pos j = 0x5c # 0x75 # jp_pos m" "jp_hex4 m = (NGX_OK, w, k)"
  shows "\<exists>xs. 6 \<le> length xs \<and> spans xs j k"
proof -
  obtain xs where xs: "length xs = 4" "jp_pos m = xs @ jp_pos k" "\<forall>x\<in>set xs. x \<noteq> 0x22 \<and> x \<noteq> 0x5c"
    using jp_hex4_spans [OF assms(2)] by blast
  have "spans xs m k" using xs by (intro spans_plains) simp_all
  then have "spans (0x5c # 0x75 # xs) j k"
    using assms(1) by (auto simp: spans_def option.map_comp comp_def)
  then show ?thesis using xs(1) by (intro exI [of _ "0x5c # 0x75 # xs"]) simp
qed

lemma jp_surrogate_spans:
  assumes "jp_surrogate cp j = (NGX_OK, w, k)" shows "\<exists>xs. spans xs j k"
proof (cases "k = j")
  case True
  then show ?thesis by (intro exI [of _ "[]"]) (simp add: spans_def option.map_ident)
next
  case False
  then obtain low where t: "take 2 (jp_pos j) = [0x5c, 0x75]" and h: "jp_hex4 (adv 2 j) = (NGX_OK, low, k)"
    using assms by (auto simp: jp_surrogate_def Let_def split: if_splits prod.splits)
  have "jp_pos j = 0x5c # 0x75 # jp_pos (adv 2 j)"
    using t append_take_drop_id [of 2 "jp_pos j"] by (simp add: adv_def)
  from spans_u_escape [OF this h] show ?thesis by blast
qed

lemma utf8_encode_len: "length (utf8_encode u) \<le> 4"
  by (simp add: utf8_encode_def)

lemma jp_code_point_spans:
  assumes "jp_pos j = 0x5c # 0x75 # jp_pos m" "jp_code_point m = (NGX_OK, u, k)"
  shows "\<exists>xs. length u \<le> length xs \<and> spans xs j k"
proof -
  obtain cp l w where h: "jp_hex4 m = (NGX_OK, cp, l)" "jp_surrogate cp l = (NGX_OK, w, k)" "u = utf8_encode w"
    using assms(2) by (auto simp: jp_code_point_def split: if_splits prod.splits)
  obtain xs where xs: "6 \<le> length xs" "spans xs j l" using spans_u_escape [OF assms(1) h(1)] by blast
  obtain ys where "spans ys l k" using jp_surrogate_spans [OF h(2)] by blast
  then have "spans (xs @ ys) j k" using spans_trans xs(2) by blast
  then show ?thesis using xs(1) utf8_encode_len [of w] h(3) by (intro exI [of _ "xs @ ys"]) simp
qed

lemma jp_unit_spans:
  assumes "jp_unit j = (NGX_OK, u, k)" "jp_pos j = c # p" "c \<noteq> 0x22"
  shows "\<exists>xs. length u \<le> length xs \<and> spans xs j k"
proof (cases "0x80 \<le> c")
  case True
  then have nl: "\<not> c < 0x20" using order_less_le_trans [of c "0x20" "0x80"] by auto
  obtain n b where n: "utf8_valid (c # p) = (n, b)" by fastforce
  have nz: "n \<noteq> 0" and u: "u = take n (jp_pos j)" "k = adv n j"
    using assms True nl n by (auto simp: jp_unit_def Let_def split: if_splits)
  have le: "n \<le> length (jp_pos j)" using utf8_valid_len [of "jp_pos j"] n assms(2) by simp
  have "x \<noteq> 0x22 \<and> x \<noteq> 0x5c" if "x \<in> set (take n (jp_pos j))" for x
    using utf8_valid_high [OF True n nz, of x] that assms(2) by auto
  then have "spans (take n (jp_pos j)) j k"
    by (intro spans_plains) (simp_all add: u(2) adv_def)
  then show ?thesis using u(1) by blast
next
  case False
  show ?thesis
  proof (cases "c = 0x5c")
    case False
    then have "u = [c]" "k = adv 1 j" using assms \<open>\<not> 0x80 \<le> c\<close> by (auto simp: jp_unit_def Let_def split: if_splits)
    moreover have "spans [c] j (adv 1 j)"
      using assms False by (intro spans_plains) (simp_all add: adv_def)
    ultimately show ?thesis by (intro exI [of _ "[c]"]) simp
  next
    case True
    then have esc: "jp_escape (adv 1 j) = (NGX_OK, u, k)"
      using assms \<open>\<not> 0x80 \<le> c\<close> by (auto simp: jp_unit_def Let_def split: if_splits)
    obtain x q where p: "p = x # q" using esc assms(2) by (cases p) (auto simp: jp_escape_def cur_def adv_def)
    have a: "jp_pos (adv 1 j) = x # q" "jp_pos (adv 1 (adv 1 j)) = q" using assms(2) p by (simp_all add: adv_def)
    show ?thesis
    proof (cases "simple_escape x")
      case (Some b)
      then have "u = [b]" "k = adv 1 (adv 1 j)" using esc a by (auto simp: jp_escape_def cur_def Let_def)
      moreover have "spans [0x5c, x] j (adv 1 (adv 1 j))" using assms(2) True p a(2) by (simp add: spans_def)
      ultimately show ?thesis by (intro exI [of _ "[0x5c, x]"]) simp
    next
      case None
      then have "x = 0x75" "jp_code_point (adv 1 (adv 1 j)) = (NGX_OK, u, k)"
        using esc a by (auto simp: jp_escape_def cur_def Let_def split: if_splits)
      then show ?thesis
        using jp_code_point_spans [of j "adv 1 (adv 1 j)" u k] assms(2) True p a(2) by simp
    qed
  qed
qed

lemma string_loop_step:
  assumes "cur j = Some c" "c \<noteq> 0x22" "jp_unit j = (NGX_OK, u, k)"
  shows "string_loop room full out j =
     (if full \<or> room < length u then string_loop room True out k
      else string_loop (room - length u) False (out @ u) k)"
  using assms by (subst string_loop.simps) simp

lemma string_loop_fits:
  assumes "string_scan (jp_pos j) = Some n" "n \<le> room" "string_loop room False out j = (r, s, k)" "r \<noteq> NGX_ERROR"
  shows "r = NGX_OK \<and> length s \<le> length out + n \<and> length (jp_pos j) = length (jp_pos k) + n + 1"
  using assms
proof (induction "length (jp_pos j)" arbitrary: j n room out rule: less_induct)
  case less
  obtain c p where j: "jp_pos j = c # p" using less.prems(1) by (cases "jp_pos j") auto
  have cur: "cur j = Some c" using j by (simp add: cur_def)
  show ?case
  proof (cases "c = 0x22")
    case True
    have "string_scan (jp_pos j) = Some 0" using j True by (cases p) simp_all
    moreover have "string_loop room False out j = (NGX_OK, out, adv 1 j)"
      using True cur by (subst string_loop.simps) simp
    ultimately show ?thesis using less.prems j by (auto simp: adv_def)
  next
    case False
    obtain q u l where unit: "jp_unit j = (q, u, l)" by (metis prod_cases3)
    have q: "q = NGX_OK"
      using less.prems(3,4) cur False unit by (cases q; subst (asm) string_loop.simps) auto
    obtain xs where xs: "length u \<le> length xs" "spans xs j l"
      using jp_unit_spans [OF _ j False] unit q by blast
    then obtain m where m: "string_scan (jp_pos l) = Some m" "n = m + length xs"
      using less.prems(1) by (cases "string_scan (jp_pos l)") (auto simp: spans_def)
    have len: "length (jp_pos j) = length xs + length (jp_pos l)" using xs(2) by (simp add: spans_def)
    have lt: "length (jp_pos l) < length (jp_pos j)" using jp_unit_len [of j u l] unit q j by simp
    have "string_loop (room - length u) False (out @ u) l = (r, s, k)"
      using string_loop_step [OF cur False, of u l room False out] unit q less.prems(2,3) m(2) xs(1) by simp
    from less.hyps [OF lt m(1) _ this less.prems(4)]
    have "r = NGX_OK \<and> length s \<le> length (out @ u) + m \<and> length (jp_pos l) = length (jp_pos k) + m + 1"
      using less.prems(2) m(2) xs(1) by simp
    then show ?thesis using m(2) xs(1) len by auto
  qed
qed

lemma jp_ws_idem [simp]: "jp_ws (jp_ws j) = jp_ws j"
  by (simp add: jp_ws_def)

text \<open>
  C24: The buffer \<open>jp_string\<close> allocates is always large enough: a string is read or rejected, never
  declined for want of room, because no escape decodes to more bytes than it takes on the wire; and
  the parser ends right behind the closing quote that the first pass found.
\<close>

theorem jp_string_fits:
  assumes "jp_string alloc j = (r, s, k)"
  shows "r \<in> {NGX_OK, NGX_ERROR}
       \<and> (r = NGX_OK \<longrightarrow> length s + length (jp_pos k) + 2 \<le> length (jp_pos j))"
proof (cases "r = NGX_ERROR")
  case False
  let ?w = "jp_ws j"
  have q: "cur ?w = Some 0x22" using assms False by (auto simp: jp_string_def Let_def split: if_splits)
  then obtain p where p: "jp_pos ?w = 0x22 # p" by (auto simp: cur_Some)
  obtain n where n: "string_scan p = Some n"
    using assms False p q by (cases "string_scan p") (auto simp: jp_string_def Let_def split: if_splits)
  have lp: "string_loop n False [] (adv 1 ?w) = (r, s, k)"
    using assms False q n p by (auto simp: jp_string_def jp_string_buf_def Let_def split: if_splits)
  have "jp_pos (adv 1 ?w) = p" using p by (simp add: adv_def)
  then have "r = NGX_OK \<and> length s \<le> n \<and> length p = length (jp_pos k) + n + 1"
    using string_loop_fits [OF _ _ lp False, of n] n by simp
  then show ?thesis using p length_ws [of j] by auto
qed simp

theorem jp_string_fits_witness:
  "\<exists>r s k. jp_string True (jp_init (ascii [CHR 0x22, CHR 0x5c, CHR ''n'', CHR 0x22])) = (r, s, k) \<and> r \<in> {NGX_OK, NGX_ERROR}"
  using jp_string_fits [of True "jp_init (ascii [CHR 0x22, CHR 0x5c, CHR ''n'', CHR 0x22])"] by (metis prod_cases3)

end
