(* ===== verification/Json_Round.thy ===== *)
theory Json_Round
  imports Json_Laws
begin

text \<open>
  The round trip of the JSON codec: the parser reads back the strings and the integers the writer
  writes.
\<close>

subsection \<open>The parser reads what the writer wrote\<close>

lemma utf8_cont_take:
  "utf8_cont i k lo hi p = (n, b) \<Longrightarrow> n \<noteq> 0 \<Longrightarrow> utf8_cont i k lo hi (take k p @ q) = (n, b)"
  by (induction i k lo hi p rule: utf8_cont.induct) (auto split: if_splits)

lemma utf8_valid_take:
  assumes "\<not> c < 0x80" "utf8_valid (c # p) = (n, b)" "n \<noteq> 0"
  shows "utf8_valid (take n (c # p) @ q) = (n, b)"
proof -
  obtain need lo hi where l: "utf8_lead c = Some (need, lo, hi)" and co: "utf8_cont 1 need lo hi p = (n, b)"
      and n: "n = Suc need"
    using utf8_valid_unit [OF assms] by blast
  show ?thesis using utf8_cont_take [OF co assms(3), of q] l n assms(1) by simp
qed

lemma not_control: "0x80 \<le> c \<Longrightarrow> \<not> c < (0x20 :: byte)"
  using order_less_le_trans [of c "0x20" "0x80"] by auto

lemma jp_unit_multibyte:
  assumes "0x80 \<le> c" "utf8_valid (c # p) = (n, b)" "n \<noteq> 0" "jp_pos j = take n (c # p) @ q"
  shows "jp_unit j = (NGX_OK, take n (c # p), j\<lparr>jp_pos := q\<rparr>)"
proof -
  have nl: "\<not> c < 0x80" using assms(1) by simp
  have v: "utf8_valid (jp_pos j) = (n, b)" using utf8_valid_take [OF nl assms(2,3)] assms(4) by simp
  have len: "n \<le> length (c # p)" using utf8_valid_len [of "c # p"] assms(2) by simp
  have h: "hd (jp_pos j) = c" using assms(3,4) by (cases n) simp_all
  show ?thesis
    unfolding jp_unit_def Let_def h v
    using not_control [OF assms(1)] assms(1,3,4) len by (simp add: adv_def min_def)
qed

lemma replacement_valid: "utf8_valid (replacement @ q) = (3, 0)"
proof -
  have "utf8_lead 0xef = Some (Suc (Suc 0), 0x80, 0xbf)" by (simp add: utf8_lead_def)
  then show ?thesis by (simp add: replacement_def)
qed

lemma control_codes:
  fixes c :: byte
  assumes "c < 0x20" shows "c \<in> set (map of_nat [0..<32])"
proof -
  have "unat c < 32" using assms by (simp add: word_less_nat_alt)
  then show ?thesis by (auto intro!: image_eqI [of _ _ "unat c"])
qed

text \<open>The two digits of a control character, read back.\<close>

lemma control_digits:
  "\<forall>c\<in>set (map of_nat [0..<32]).
     hex_value (ascii ''0123456789abcdef'' ! unat (drop_bit 4 c AND 0xf)) = Some (ucast (drop_bit 4 (c :: byte)))
     \<and> hex_value (ascii ''0123456789abcdef'' ! unat (c AND 0xf)) = Some (ucast (c AND 0xf))
     \<and> push_bit 4 (ucast (drop_bit 4 c)) + ucast (c AND 0xf) = (ucast c :: u32)
     \<and> ucast (ucast c :: u32) = c \<and> (ucast c :: u32) < 0x80"
  by code_simp

lemma jp_unit_control:
  assumes "c < 0x20" "jp_pos j = [0x5c, 0x75, 0x30, 0x30, ascii ''0123456789abcdef'' ! unat (drop_bit 4 c AND 0xf),
      ascii ''0123456789abcdef'' ! unat (c AND 0xf)] @ q"
  shows "jp_unit j = (NGX_OK, [c], j\<lparr>jp_pos := q\<rparr>)"
proof -
  note d = control_digits [rule_format, OF control_codes [OF assms(1)]]
  have z: "hex_value 0x30 = Some 0" by (simp add: hex_value_def)
  have h: "jp_hex4 (j\<lparr>jp_pos := [0x30, 0x30, ascii ''0123456789abcdef'' ! unat (drop_bit 4 c AND 0xf),
      ascii ''0123456789abcdef'' ! unat (c AND 0xf)] @ q\<rparr>) = (NGX_OK, ucast c, j\<lparr>jp_pos := q\<rparr>)"
    using d z by (simp add: jp_hex4_def numeral_eq_Suc adv_def)
  have s: "jp_surrogate (ucast c) (j\<lparr>jp_pos := q\<rparr>) = (NGX_OK, ucast c, j\<lparr>jp_pos := q\<rparr>)"
    using d order_less_le_trans [of "ucast c :: u32" "0x80" "0xdc00"] order_less_le_trans [of "ucast c :: u32" "0x80" "0xd800"]
    by (auto simp: jp_surrogate_def)
  show ?thesis
    using d h s assms(2) by (simp add: jp_unit_def jp_escape_def cur_def adv_def simple_escape_def jp_code_point_def utf8_encode_def)
qed

lemma jp_unit_escaped:
  assumes "c < 0x80" "jp_pos j = escaped c @ q"
  shows "jp_unit j = (NGX_OK, [c], j\<lparr>jp_pos := q\<rparr>)"
proof (cases "c < 0x20 \<and> c \<notin> {0x0a, 0x0d, 0x09, 0x08, 0x0c}")
  case True
  then have "c \<noteq> 0x22" "c \<noteq> 0x5c" "\<not> 0x20 \<le> c" by auto
  then have "escaped c = [0x5c, 0x75, 0x30, 0x30, ascii ''0123456789abcdef'' ! unat (drop_bit 4 c AND 0xf),
      ascii ''0123456789abcdef'' ! unat (c AND 0xf)]"
    using True by (simp add: escaped_def)
  then show ?thesis using jp_unit_control [of c j q] True assms(2) by simp
next
  case False
  have nh: "\<not> 0x80 \<le> c" using assms(1) by simp
  show ?thesis
  proof (cases "0x20 \<le> c")
    case True
    then show ?thesis
      using assms(2) nh
      by (auto simp: escaped_def jp_unit_def jp_escape_def cur_def adv_def simple_escape_def not_less)
  next
    case lo: False
    then have "c \<in> {0x0a, 0x0d, 0x09, 0x08, 0x0c}" using False by auto
    then show ?thesis
      using assms(2) by (auto simp: escaped_def jp_unit_def jp_escape_def cur_def adv_def simple_escape_def)
  qed
qed

lemma jp_unit_replacement:
  assumes "jp_pos j = replacement @ q"
  shows "jp_unit j = (NGX_OK, replacement, j\<lparr>jp_pos := q\<rparr>)"
proof -
  have "utf8_valid (jp_pos j) = (3, 0)" using replacement_valid [of q] assms by simp
  then show ?thesis using assms by (simp add: jp_unit_def replacement_def adv_def)
qed

text \<open>The first unit of a string: its text on the wire and what it reads back as.\<close>

definition unit_text :: "bytes \<Rightarrow> bytes" where
  "unit_text p =
     (if hd p < 0x80 then escaped (hd p)
      else if fst (utf8_valid p) \<noteq> 0 then take (unit_len p) p else replacement)"

definition unit_data :: "bytes \<Rightarrow> bytes" where
  "unit_data p = (if fst (utf8_valid p) \<noteq> 0 then take (unit_len p) p else replacement)"

lemma quoted_unit: "p \<noteq> [] \<Longrightarrow> quoted p = unit_text p @ quoted (drop (unit_len p) p)"
  by (subst quoted.simps) (cases p; simp add: unit_text_def)

lemma repaired_unit: "p \<noteq> [] \<Longrightarrow> repaired p = unit_data p @ repaired (drop (unit_len p) p)"
  by (subst repaired.simps) (simp add: unit_data_def)

lemma jp_unit_text:
  assumes "p \<noteq> []" "jp_pos j = unit_text p @ q"
  shows "jp_unit j = (NGX_OK, unit_data p, j\<lparr>jp_pos := q\<rparr>)"
proof -
  obtain c t where p: "p = c # t" using assms(1) by (cases p) auto
  show ?thesis
  proof (cases "c < 0x80")
    case True
    then show ?thesis using jp_unit_escaped [OF True] assms(2) p by (simp add: unit_text_def unit_data_def unit_len_def)
  next
    case False
    then have ge: "0x80 \<le> c" by simp
    obtain n b where n: "utf8_valid p = (n, b)" by fastforce
    show ?thesis
    proof (cases "n = 0")
      case True
      then show ?thesis
        using jp_unit_replacement assms(2) n p False by (simp add: unit_text_def unit_data_def del: utf8_valid.simps)
    next
      case nz: False
      then show ?thesis
        using jp_unit_multibyte [OF ge _ nz, of t b j q] assms(2) n p False
        by (simp add: unit_text_def unit_data_def unit_len_def del: utf8_valid.simps)
    qed
  qed
qed

lemma escaped_head: "escaped c \<noteq> [] \<and> hd (escaped c) \<noteq> 0x22"
  by (simp add: escaped_def)

lemma unit_text_head: "p \<noteq> [] \<Longrightarrow> unit_text p \<noteq> [] \<and> hd (unit_text p) \<noteq> 0x22"
  using escaped_head [of "hd p"] unit_len_pos [of p]
  by (cases p) (auto simp: unit_text_def replacement_def)

lemma string_loop_quoted:
  assumes "jp_pos j = quoted p @ 0x22 # r" "length (repaired p) \<le> room"
  shows "string_loop room False out j = (NGX_OK, out @ repaired p, j\<lparr>jp_pos := r\<rparr>)"
  using assms
proof (induction p arbitrary: j room out rule: repaired.induct)
  case (1 p)
  show ?case
  proof (cases "p = []")
    case True
    then show ?thesis using "1.prems" by (subst string_loop.simps) (simp add: cur_def adv_def)
  next
    case False
    let ?q = "drop (unit_len p) p" and ?k = "j\<lparr>jp_pos := quoted (drop (unit_len p) p) @ 0x22 # r\<rparr>"
    have pos: "jp_pos j = unit_text p @ quoted ?q @ 0x22 # r" using "1.prems"(1) quoted_unit [OF False] by simp
    have unit: "jp_unit j = (NGX_OK, unit_data p, ?k)" by (rule jp_unit_text [OF False pos])
    obtain c where c: "cur j = Some c" "c \<noteq> 0x22"
      using unit_text_head [OF False] pos by (cases "unit_text p") (auto simp: cur_def)
    have len: "length (unit_data p) + length (repaired ?q) \<le> room"
      using "1.prems"(2) repaired_unit [OF False] by simp
    have "string_loop room False out j = string_loop (room - length (unit_data p)) False (out @ unit_data p) ?k"
      using string_loop_step [OF c unit] len by simp
    also have "\<dots> = (NGX_OK, (out @ unit_data p) @ repaired ?q, ?k\<lparr>jp_pos := r\<rparr>)"
      using len by (intro "1.IH" False) simp_all
    finally show ?thesis using repaired_unit [OF False] by simp
  qed
qed

lemma unit_text_spans:
  assumes "p \<noteq> []"
  shows "length (unit_data p) \<le> length (unit_text p)"
    and "string_scan (unit_text p @ q) = map_option (\<lambda>n. n + length (unit_text p)) (string_scan q)"
proof -
  let ?j = "jp_init (unit_text p @ q)"
  have "jp_unit ?j = (NGX_OK, unit_data p, ?j\<lparr>jp_pos := q\<rparr>)"
    by (rule jp_unit_text [OF assms]) (simp add: jp_init_def)
  moreover obtain c t where "jp_pos ?j = c # t" "c \<noteq> 0x22"
    using unit_text_head [OF assms] by (cases "unit_text p") (auto simp: jp_init_def)
  ultimately obtain xs where xs: "length (unit_data p) \<le> length xs" "spans xs ?j (?j\<lparr>jp_pos := q\<rparr>)"
    using jp_unit_spans by blast
  then have "xs = unit_text p" by (simp add: spans_def jp_init_def)
  with xs show "length (unit_data p) \<le> length (unit_text p)"
    and "string_scan (unit_text p @ q) = map_option (\<lambda>n. n + length (unit_text p)) (string_scan q)"
    by (simp_all add: spans_def jp_init_def)
qed

lemma repaired_short: "length (repaired p) \<le> length (quoted p)"
proof (induction p rule: repaired.induct)
  case (1 p)
  then show ?case
    using unit_text_spans(1) [of p] by (cases "p = []") (simp_all add: quoted_unit repaired_unit)
qed

lemma scan_quoted: "string_scan (quoted p @ 0x22 # r) = Some (length (quoted p))"
proof (induction p rule: repaired.induct)
  case (1 p)
  show ?case
  proof (cases "p = []")
    case True
    then show ?thesis by (cases r) simp_all
  next
    case False
    then show ?thesis using "1" by (simp add: quoted_unit unit_text_spans(2))
  qed
qed

lemma jp_string_quoted:
  assumes "jp_pos j = 0x22 # quoted p @ 0x22 # r"
  shows "jp_string True j = (NGX_OK, repaired p, j\<lparr>jp_pos := r\<rparr>)"
proof -
  have ws: "jp_ws j = j" using assms by (simp add: jp_ws_def is_ws_def)
  have "jp_pos (adv 1 j) = quoted p @ 0x22 # r" using assms by (simp add: adv_def)
  from string_loop_quoted [OF this repaired_short]
  have "string_loop (length (quoted p)) False [] (adv 1 j) = (NGX_OK, repaired p, j\<lparr>jp_pos := r\<rparr>)"
    by (simp add: adv_def)
  then show ?thesis
    using assms ws by (simp add: jp_string_def jp_string_buf_def cur_def scan_quoted)
qed

text \<open>Well-formed UTF-8: every unit of the string is a well-formed sequence.\<close>

function utf8_ok :: "bytes \<Rightarrow> bool" where
  "utf8_ok p = (if p = [] then True else fst (utf8_valid p) \<noteq> 0 \<and> utf8_ok (drop (unit_len p) p))"
  by pat_completeness auto
termination
  by (relation "measure length") (use unit_len_pos in auto)

declare utf8_ok.simps [simp del]

lemma repaired_ok: "utf8_ok p \<Longrightarrow> repaired p = p"
proof (induction p rule: repaired.induct)
  case (1 p)
  show ?case
  proof (cases "p = []")
    case False
    then have "fst (utf8_valid p) \<noteq> 0" "utf8_ok (drop (unit_len p) p)"
      using "1.prems" utf8_ok.simps [of p] by auto
    then show ?thesis using "1.IH" False by (simp add: repaired_unit unit_data_def)
  qed simp
qed

text \<open>The repaired string is always well-formed.\<close>

lemma utf8_cont_good: "utf8_cont i k lo hi p = (n, b) \<Longrightarrow> n \<noteq> 0 \<Longrightarrow> b = 0"
  by (induction i k lo hi p rule: utf8_cont.induct) (auto split: if_splits)

lemma utf8_ok_Nil [simp]: "utf8_ok []"
  by (simp add: utf8_ok.simps)

lemma utf8_valid_unit_append:
  assumes "p \<noteq> []" shows "utf8_valid (unit_data p @ q) = (length (unit_data p), 0)"
proof -
  obtain c t where p: "p = c # t" using assms by (cases p) auto
  obtain n b where n: "utf8_valid p = (n, b)" by fastforce
  show ?thesis
  proof (cases "n = 0")
    case True
    then show ?thesis using n replacement_valid by (simp add: unit_data_def replacement_def)
  next
    case nz: False
    show ?thesis
    proof (cases "c < 0x80")
      case True
      then show ?thesis using p by (simp add: unit_data_def unit_len_def)
    next
      case False
      obtain need lo hi where "utf8_cont 1 need lo hi t = (n, b)" using utf8_valid_unit [OF False] n nz p by metis
      then have "b = 0" by (rule utf8_cont_good [OF _ nz])
      then show ?thesis
        using utf8_valid_take [OF False _ nz, of t b q] utf8_valid_len [of p] n nz p
        by (simp add: unit_data_def unit_len_def min_def del: utf8_valid.simps)
    qed
  qed
qed

lemma utf8_ok_repaired: "utf8_ok (repaired p)"
proof (induction p rule: repaired.induct)
  case (1 p)
  show ?case
  proof (cases "p = []")
    case False
    let ?q = "repaired (drop (unit_len p) p)"
    have v: "utf8_valid (unit_data p @ ?q) = (length (unit_data p), 0)" by (rule utf8_valid_unit_append [OF False])
    have ne: "unit_data p \<noteq> []" using False unit_len_pos [of p] by (auto simp: unit_data_def replacement_def)
    have "unit_len (unit_data p @ ?q) = length (unit_data p)" using v ne by (simp add: unit_len_def)
    then show ?thesis
      using "1" [OF False] v ne by (subst utf8_ok.simps) (simp add: repaired_unit [OF False])
  qed simp
qed


lemma sample_text: "quoted [0x61, 0x0a, 0xff] = [0x61, 0x5c, 0x6e, 0xef, 0xbf, 0xbd]"
  by (simp add: quoted_Cons escaped_def replacement_def unit_len_def utf8_lead_def)


subsection \<open>Integers\<close>

lemma decimal_digit:
  assumes "d < 10"
  shows "is_digit (0x30 + of_nat d)" and "unat ((0x30 + of_nat d :: byte) - 0x30) = d"
proof -
  have "unat (of_nat d :: byte) = d" using assms by (simp add: unat_of_nat)
  then show "unat ((0x30 + of_nat d :: byte) - 0x30) = d" by simp
  have "unat (0x30 + of_nat d :: byte) = 48 + d"
    using assms by (simp add: unat_word_ariths unat_of_nat)
  then show "is_digit (0x30 + of_nat d)" using assms by (simp add: is_digit_def word_le_nat_alt)
qed

lemma int_loop_digit:
  assumes "d < 10" "digits = 1 \<longrightarrow> v \<noteq> 0" "10 * v + d \<le> MAX_INT"
  shows "int_loop v digits ((0x30 + of_nat d) # p) = int_loop (v * 10 + d) (digits + 1) p"
proof -
  have "\<not> v > (MAX_INT - d) div 10" using assms(1,3) by linarith
  then show ?thesis using decimal_digit [OF assms(1)] assms(2) by auto
qed

lemma int_loop_decimal:
  assumes "n \<le> MAX_INT"
  shows "\<exists>k. 0 < k \<and> (k = 1 \<longrightarrow> n < 10) \<and> int_loop 0 0 (decimal_nat n @ p) = int_loop n k p"
  using assms
proof (induction n arbitrary: p rule: decimal_nat.induct)
  case (1 n)
  show ?case
  proof (cases "n < 10")
    case True
    then show ?thesis
      using int_loop_digit [of n 0 0 p] by (intro exI [of _ 1]) (simp add: decimal_nat.simps [of n])
  next
    case False
    let ?t = "(0x30 + of_nat (n mod 10)) # p"
    have le: "n div 10 \<le> MAX_INT" and pos: "0 < n div 10" using "1.prems" False by linarith+
    obtain k where k: "0 < k" "k = 1 \<longrightarrow> n div 10 < 10" "int_loop 0 0 (decimal_nat (n div 10) @ ?t) = int_loop (n div 10) k ?t"
      using "1.IH" [OF False, of ?t] le by blast
    have "int_loop (n div 10) k ?t = int_loop n (k + 1) p"
      using int_loop_digit [of "n mod 10" k "n div 10" p] "1.prems" pos by (simp del: int_loop.simps)
    then show ?thesis using k False by (intro exI [of _ "k + 1"]) (simp add: decimal_nat.simps [of n])
  qed
qed

lemma decimal_nat_head: "\<exists>d<10. \<exists>t. decimal_nat n = (0x30 + of_nat d) # t"
proof (induction n rule: decimal_nat.induct)
  case (1 n)
  then show ?case by (cases "n < 10") (auto simp: decimal_nat.simps [of n])
qed

lemma int_loop_stop:
  "p = [] \<or> \<not> is_digit (hd p) \<Longrightarrow> int_loop v k p = (Inr (v, k), p)"
  by (cases p) auto

lemma is_digit_not: "is_digit c \<Longrightarrow> c \<noteq> 0x2d \<and> \<not> is_ws c"
  by (auto simp: is_digit_def is_ws_def)

text \<open>
  The parser reads back every integer the writer wrote: \<open>jp_int\<close> returns the value \<open>jw_int\<close>
  was given, for every value whose magnitude is at most the largest \<open>ngx_int_t\<close>, and stops at the
  byte behind the digits.
\<close>

theorem json_int_roundtrip:
  assumes "\<bar>v\<bar> \<le> int MAX_INT" "length (decimal v) \<le> n" "jp_pos j = jw_out (jw_int v (jw_init n)) @ rest"
    and "rest = [] \<or> \<not> is_digit (hd rest) \<and> hd rest \<notin> {0x2e, 0x65, 0x45}"
  shows "jp_int j = (NGX_OK, v, j\<lparr>jp_pos := rest\<rparr>)"
proof -
  let ?m = "nat \<bar>v\<bar>"
  have m: "?m \<le> MAX_INT" using assms(1) by simp
  have "rest = [] \<or> \<not> is_digit (hd rest)" using assms(4) by auto
  then obtain k where k: "0 < k" "int_loop 0 0 (decimal_nat ?m @ rest) = (Inr (?m, k), rest)"
    using int_loop_decimal [OF m, of rest] int_loop_stop [of rest ?m] by auto
  obtain d t where d: "d < 10" "decimal_nat ?m = (0x30 + of_nat d) # t" using decimal_nat_head by blast
  note dg = is_digit_not [OF decimal_digit(1) [OF d(1)]]
  have pos: "jp_pos j = (if v < 0 then [0x2d] else []) @ decimal_nat ?m @ rest"
    using assms(2,3) by (simp add: jw_int_def jw_raw_def jw_room_def jw_init_def decimal_def)
  have ws: "jp_ws j = j"
    using pos d dg by (cases j) (simp add: jp_ws_def is_ws_def)
  have neg: "cur j = Some 0x2d \<longleftrightarrow> v < 0" using pos d dg by (auto simp: cur_def)
  have c: "cur (j\<lparr>jp_pos := rest\<rparr>) \<notin> {Some 0x2e, Some 0x65, Some 0x45}"
    using assms(4) by (cases rest) (auto simp: cur_def)
  define l where "l = (if v < 0 then adv 1 j else j)"
  have l: "jp_pos l = decimal_nat ?m @ rest" "l\<lparr>jp_pos := rest\<rparr> = j\<lparr>jp_pos := rest\<rparr>"
    using pos by (auto simp: l_def adv_def)
  show ?thesis
    unfolding jp_int_def Let_def ws neg l_def [symmetric] l k(2)
    using k(1) c l(2) by (auto simp: l)
qed

theorem json_int_roundtrip_witness:
  "jp_int (jp_init (ascii ''-905,'')) = (NGX_OK, - 905, jp_init (ascii '',''))"
proof -
  have d: "decimal (- 905) = ascii ''-905''" by (simp add: decimal_def decimal_nat.simps ascii_def)
  have w: "jw_out (jw_int (- 905) (jw_init 8)) = ascii ''-905''"
    by (simp add: jw_int_def jw_raw_def jw_room_def jw_init_def d ascii_def)
  show ?thesis
    using json_int_roundtrip [of "- 905" 8 "jp_init (ascii ''-905,'')" "ascii '',''"]
    by (simp add: d w ascii_def jp_init_def is_digit_def)
qed

end
