(* ===== verification/Frame.thy ===== *)
theory Frame
  imports Waf_Types
begin

text \<open>
  WebSocket connections (\<open>src/module/src/stream/ngx_http_waf_frame.c\<close>): one direction of a
  connection with its buffer, the parser that holds data frames back for inspection, reassembles
  fragmented messages and lets control frames through, and the rewriting of a frame.

  The input buffer is the bytes from \<open>start\<close> to \<open>last\<close>; positions are offsets from \<open>start\<close>,
  and \<open>fd_end\<close> is the size that was allocated. A write behind \<open>last\<close> makes the list longer, so
  the buffer is respected as long as the list is not longer than \<open>fd_end\<close>.
\<close>

subsection \<open>Frames on the wire\<close>

abbreviation (input) WS_HEADER_MAX :: nat where "WS_HEADER_MAX \<equiv> 14"
abbreviation (input) WS_CONTROL_MAX :: nat where "WS_CONTROL_MAX \<equiv> 125"
abbreviation (input) WS_REASON_MAX :: nat where "WS_REASON_MAX \<equiv> 123"
abbreviation (input) WS_OP_CONT :: nat where "WS_OP_CONT \<equiv> 0"
abbreviation (input) WS_OP_TEXT :: nat where "WS_OP_TEXT \<equiv> 1"
abbreviation (input) WS_OP_BINARY :: nat where "WS_OP_BINARY \<equiv> 2"
abbreviation (input) WS_OP_CLOSE :: nat where "WS_OP_CLOSE \<equiv> 8"
abbreviation (input) WS_OP_PING :: nat where "WS_OP_PING \<equiv> 9"
abbreviation (input) WS_OP_PONG :: nat where "WS_OP_PONG \<equiv> 10"
abbreviation (input) WS_CLOSE_PROTOCOL :: nat where "WS_CLOSE_PROTOCOL \<equiv> 1002"
abbreviation (input) WS_CLOSE_POLICY :: nat where "WS_CLOSE_POLICY \<equiv> 1008"
abbreviation (input) WS_CLOSE_TOO_BIG :: nat where "WS_CLOSE_TOO_BIG \<equiv> 1009"
abbreviation (input) WS_CLOSE_INTERNAL :: nat where "WS_CLOSE_INTERNAL \<equiv> 1011"
abbreviation (input) FRAME_BUF_MIN :: nat where "FRAME_BUF_MIN \<equiv> 4096"
abbreviation (input) FRAME_PASS_BUF :: nat where "FRAME_PASS_BUF \<equiv> 16384"
abbreviation (input) FRAME_SLACK :: nat where "FRAME_SLACK \<equiv> 8"

definition be_nat :: "bytes \<Rightarrow> nat" where
  "be_nat xs = foldl (\<lambda>v b. v * 256 + unat b) 0 xs"

text \<open>The fields of the header at the start of \<open>q\<close>.\<close>

definition ws_fin :: "bytes \<Rightarrow> bool" where "ws_fin q \<longleftrightarrow> q ! 0 AND 0x80 \<noteq> 0"
definition ws_rsv :: "bytes \<Rightarrow> bool" where "ws_rsv q \<longleftrightarrow> q ! 0 AND 0x70 \<noteq> 0"
definition ws_opcode :: "bytes \<Rightarrow> nat" where "ws_opcode q = unat (q ! 0 AND 0x0f)"
definition ws_masked :: "bytes \<Rightarrow> bool" where "ws_masked q \<longleftrightarrow> q ! 1 AND 0x80 \<noteq> 0"
definition ws_len7 :: "bytes \<Rightarrow> nat" where "ws_len7 q = unat (q ! 1 AND 0x7f)"

definition ws_hlen :: "bytes \<Rightarrow> nat" where
  "ws_hlen q =
     2 + (if ws_len7 q = 126 then 2 else if ws_len7 q = 127 then 8 else 0) + (if ws_masked q then 4 else 0)"

definition ws_plen :: "bytes \<Rightarrow> nat" where
  "ws_plen q =
     (if ws_len7 q = 126 then be_nat (take 2 (drop 2 q))
      else if ws_len7 q = 127 then be_nat (take 8 (drop 2 q))
      else ws_len7 q)"

text \<open>The header the module writes, when it seals a reassembled message or replaces a frame.\<close>

definition be_bytes :: "nat \<Rightarrow> nat \<Rightarrow> bytes" where
  "be_bytes n v = map (\<lambda>i. of_nat (v div 256 ^ (n - 1 - i))) [0..<n]"

definition ws_head :: "bool \<Rightarrow> nat \<Rightarrow> nat \<Rightarrow> bool \<Rightarrow> bytes \<Rightarrow> bytes" where
  "ws_head fin opcode len masked key =
     ((if fin then 0x80 else 0) OR of_nat opcode)
     # (let m = (if masked then 0x80 else 0) in
        if len < 126 then [m OR of_nat len]
        else if len \<le> 65535 then [m OR 126] @ be_bytes 2 len
        else [m OR 127] @ be_bytes 8 len)
     @ (if masked then key else [])"

text \<open>Masking a payload of which \<open>off\<close> bytes came before.\<close>

definition ws_mask :: "bytes \<Rightarrow> nat \<Rightarrow> bytes \<Rightarrow> bytes" where
  "ws_mask key off xs = map (\<lambda>i. xs ! i XOR key ! ((off + i) mod 4)) [0..<length xs]"

subsection \<open>A direction of a connection\<close>

datatype frame_mode = FRAME_INSPECT | FRAME_JOURNAL | FRAME_PASS

datatype audit_frames = AUDIT_FRAMES_OFF | AUDIT_FRAMES_DENY | AUDIT_FRAMES_ALL

text \<open>What the frame code reads of the route configuration.\<close>

record frame_conf =
  fk_reassemble :: bool
  fk_limit :: "phase \<Rightarrow> nat"
  fk_policy :: "phase \<Rightarrow> policy"
  fk_control_rate :: u64
  fk_inspected :: "phase \<Rightarrow> bool"
  fk_enable :: bool
  fk_audit :: bool
  fk_audit_frames :: audit_frames
  fk_audit_sample :: u64
  fk_cache_ttl :: "phase \<Rightarrow> msec"
  fk_send_store :: "phase \<Rightarrow> bool"
  fk_exc_body :: "phase \<Rightarrow> policy"

record frame_dir =
  fd_phase :: phase
  fd_mode :: frame_mode
  fd_buf :: bytes
  fd_end :: nat
  fd_pos :: nat
  fd_cleared :: nat
  fd_held :: nat
  fd_skip :: int
  fd_drop :: nat
  fd_out :: "bytes option"
  fd_seq :: u64
  fd_inspected :: u64
  fd_denied :: u64
  fd_rewritten :: u64
  fd_bytes :: nat
  fd_opcode :: nat
  fd_mask :: bytes
  fd_fin :: bool
  fd_masked :: bool
  fd_rsv_warned :: bool
  fd_held_seq :: u64
  fd_fragments :: nat
  fd_msg :: bool
  fd_msg_skip :: bool
  fd_msg_opcode :: nat
  fd_msg_hlen :: nat
  fd_msg_len :: nat
  fd_msg_fragments :: nat
  fd_msg_seq :: u64
  fd_msg_key :: bytes
  fd_reassembled :: u64
  fd_ctrl_tokens :: u64
  fd_ctrl_last :: msec
  fd_ctrl_dropped :: u64
  fd_cached :: u64

definition frame_wanted :: "frame_conf \<Rightarrow> bool" where
  "frame_wanted cf \<longleftrightarrow>
     fk_inspected cf PH_FRAME_C2S \<or> fk_inspected cf PH_FRAME_S2C
     \<or> fk_enable cf \<and> fk_audit_frames cf \<noteq> AUDIT_FRAMES_OFF \<and> fk_audit cf"

text \<open>\<open>au\<close> is the audit override of the request.\<close>

definition frame_mode_of :: "frame_conf \<Rightarrow> set_mode \<Rightarrow> phase \<Rightarrow> frame_mode" where
  "frame_mode_of cf au phase =
     (if fk_inspected cf phase then FRAME_INSPECT
      else if \<not> fk_audit cf \<or> fk_audit_frames cf = AUDIT_FRAMES_OFF then FRAME_PASS
      else if fk_audit_frames cf = AUDIT_FRAMES_ALL \<or> au = SET_ON then FRAME_JOURNAL
      else FRAME_PASS)"

text \<open>\<open>seed\<close> is what the client or the upstream sent behind the handshake. The structure was zeroed.\<close>

definition dir0 :: frame_dir where
  "dir0 = \<lparr>fd_phase = PH_REQUEST, fd_mode = FRAME_INSPECT, fd_buf = [], fd_end = 0, fd_pos = 0, fd_cleared = 0,
     fd_held = 0, fd_skip = 0, fd_drop = 0, fd_out = None, fd_seq = 0, fd_inspected = 0, fd_denied = 0,
     fd_rewritten = 0, fd_bytes = 0, fd_opcode = 0, fd_mask = [0, 0, 0, 0], fd_fin = False, fd_masked = False,
     fd_rsv_warned = False, fd_held_seq = 0, fd_fragments = 0, fd_msg = False, fd_msg_skip = False,
     fd_msg_opcode = 0, fd_msg_hlen = 0, fd_msg_len = 0, fd_msg_fragments = 0, fd_msg_seq = 0,
     fd_msg_key = [0, 0, 0, 0], fd_reassembled = 0, fd_ctrl_tokens = 0, fd_ctrl_last = 0,
     fd_ctrl_dropped = 0, fd_cached = 0\<rparr>"

definition dir_size :: "frame_conf \<Rightarrow> phase \<Rightarrow> frame_mode \<Rightarrow> bytes \<Rightarrow> nat" where
  "dir_size cf phase mode seed =
     max FRAME_BUF_MIN
       (if mode = FRAME_PASS then max FRAME_PASS_BUF (length seed + FRAME_SLACK)
        else fk_limit cf phase + 2 * WS_HEADER_MAX + FRAME_SLACK)"

definition frame_dir_init :: "frame_conf \<Rightarrow> phase \<Rightarrow> frame_mode \<Rightarrow> bool \<Rightarrow> bytes \<Rightarrow> bool \<Rightarrow> frame_dir option" where
  "frame_dir_init cf phase mode masked seed alloc =
     (let size = dir_size cf phase mode seed in
      if \<not> alloc then None
      else if seed \<noteq> [] \<and> length seed > size then None
      else Some (dir0\<lparr>fd_phase := phase, fd_mode := mode, fd_end := size, fd_buf := seed, fd_masked := masked\<rparr>))"

subsection \<open>Moving bytes in the buffer\<close>

definition frame_cut :: "nat \<Rightarrow> nat \<Rightarrow> frame_dir \<Rightarrow> frame_dir" where
  "frame_cut p len d = d\<lparr>fd_buf := take p (fd_buf d) @ drop (p + len) (fd_buf d)\<rparr>"

definition frame_hoist :: "nat \<Rightarrow> nat \<Rightarrow> frame_dir \<Rightarrow> frame_dir" where
  "frame_hoist p len d =
     (let b = fd_buf d; c = fd_cleared d; hold = p - c in
      d\<lparr>fd_buf := take c b @ take len (drop p b) @ take hold (drop c b) @ drop (p + len) b\<rparr>)"

definition frame_msg_append :: "nat \<Rightarrow> nat \<Rightarrow> nat \<Rightarrow> frame_dir \<Rightarrow> frame_dir" where
  "frame_msg_append p hlen plen d =
     (let b = fd_buf d;
          key = take 4 (drop (p + hlen - 4) b);
          payload = take plen (drop (p + hlen) b);
          moved = (if fd_masked d then ws_mask (fd_msg_key d) (fd_msg_len d) (ws_mask key 0 payload) else payload)
      in d\<lparr>fd_buf := take p b @ moved @ drop (p + hlen + plen) b,
           fd_msg_len := fd_msg_len d + plen, fd_msg_fragments := fd_msg_fragments d + 1\<rparr>)"

definition frame_msg_seal :: "bool \<Rightarrow> frame_dir \<Rightarrow> nat \<times> frame_dir" where
  "frame_msg_seal fin d =
     (let b = fd_buf d;
          head = ws_head fin (fd_msg_opcode d) (fd_msg_len d) (fd_masked d) (fd_msg_key d);
          hlen = 2 + (if fd_msg_len d < 126 then 0 else if fd_msg_len d \<le> 65535 then 2 else 8)
                 + (if fd_masked d then 4 else 0)
      in (hlen, d\<lparr>fd_buf := take (fd_cleared d) b @ head @ drop (fd_cleared d + fd_msg_hlen d) b, fd_msg := False\<rparr>))"

subsection \<open>The parser\<close>

definition frame_ctrl_allowed :: "frame_conf \<Rightarrow> msec \<Rightarrow> frame_dir \<Rightarrow> bool \<times> frame_dir" where
  "frame_ctrl_allowed cf now d =
     (let rate = fk_control_rate cf in
      if rate = 0 then (True, d)
      else
        let d = (if fd_ctrl_last d = 0 then d\<lparr>fd_ctrl_tokens := rate, fd_ctrl_last := now\<rparr>
                 else
                   let ms = msec_diff now (fd_ctrl_last d);
                       add = (if ms > 0 then rate * of_int ms div 1000 else 0)
                   in if add \<noteq> 0
                      then d\<lparr>fd_ctrl_tokens := min (fd_ctrl_tokens d + add) rate, fd_ctrl_last := now\<rparr>
                      else d)
        in if fd_ctrl_tokens d \<ge> 1000 then (True, d\<lparr>fd_ctrl_tokens := fd_ctrl_tokens d - 1000\<rparr>)
           else (False, d\<lparr>fd_ctrl_dropped := fd_ctrl_dropped d + 1\<rparr>))"

text \<open>\<open>au\<close> is the audit override of the connection, or of the request before the first frame.\<close>

definition frame_journal_wanted :: "frame_conf \<Rightarrow> set_mode \<Rightarrow> frame_dir \<Rightarrow> bool" where
  "frame_journal_wanted cf au d \<longleftrightarrow>
     (if au = SET_ON then True
      else if fk_audit_frames cf \<noteq> AUDIT_FRAMES_ALL \<or> au = SET_OFF then False
      else fk_audit_sample cf \<le> 1 \<or> fd_seq d mod fk_audit_sample cf = 0)"

text \<open>How a call of the parser ends: it needs more bytes, it closes the connection, or it holds a frame
  for the journal or for the inspectors, given as the payload on the wire and its key.\<close>

datatype frame_action =
    A_AGAIN
  | A_CLOSE nat string string
  | A_JOURNAL bytes "bytes option"
  | A_INSPECT bytes "bytes option"

text \<open>\<open>(off_t) (hlen + plen)\<close>: the sum is taken in 64 bits and read as a signed number.\<close>

definition off_t :: "nat \<Rightarrow> int" where
  "off_t n = sint (of_nat n :: 64 word)"

definition frame_skip_on :: "nat \<Rightarrow> frame_dir \<Rightarrow> frame_dir" where
  "frame_skip_on n d = d\<lparr>fd_seq := fd_seq d + 1, fd_skip := off_t n\<rparr>"

text \<open>A data frame that passes uninspected: what is held of its message goes with it.\<close>

definition frame_let_pass :: "bool \<Rightarrow> bool \<Rightarrow> nat \<Rightarrow> nat \<Rightarrow> frame_dir \<Rightarrow> frame_dir" where
  "frame_let_pass assemble fin opcode n d =
     (let d = (if fd_msg d
               then
                 let (hlen, d) = frame_msg_seal False d
                 in d\<lparr>fd_cleared := fd_cleared d + hlen + fd_msg_len d, fd_msg_skip := \<not> fin\<rparr>
               else if assemble \<and> \<not> fin \<and> opcode \<noteq> WS_OP_CONT then d\<lparr>fd_msg_skip := True\<rparr>
               else d)
      in frame_skip_on n d)"

text \<open>One turn of the loop: \<open>Inl\<close> when it goes on.\<close>

type_synonym frame_turn = "frame_dir + frame_action \<times> frame_dir"

definition frame_control :: "frame_conf \<Rightarrow> msec \<Rightarrow> nat \<Rightarrow> bytes \<Rightarrow> frame_dir \<Rightarrow> frame_turn" where
  "frame_control cf now p q d =
     (let fin = ws_fin q; opcode = ws_opcode q; plen = ws_plen q; hlen = ws_hlen q in
      if \<not> fin \<or> plen > WS_CONTROL_MAX \<or> opcode \<notin> {WS_OP_CLOSE, WS_OP_PING, WS_OP_PONG}
      then Inr (A_CLOSE WS_CLOSE_PROTOCOL ''bad control frame'' ''malformed control frame'', d)
      else if length q < hlen + plen then Inr (A_AGAIN, d)
      else
        let d = d\<lparr>fd_seq := fd_seq d + 1\<rparr>;
            (allowed, d) = (if opcode \<noteq> WS_OP_CLOSE then frame_ctrl_allowed cf now d else (True, d))
        in if \<not> allowed then Inl (frame_cut p (hlen + plen) d)
           else
             let d = (if p \<noteq> fd_cleared d then frame_hoist p (hlen + plen) d else d)
             in Inl (d\<lparr>fd_cleared := fd_cleared d + (hlen + plen)\<rparr>))"

definition frame_hold :: "nat \<Rightarrow> nat \<Rightarrow> bool \<Rightarrow> nat \<Rightarrow> u64 \<Rightarrow> frame_dir \<Rightarrow> frame_dir" where
  "frame_hold n opcode fin fragments seq d =
     d\<lparr>fd_held := n, fd_opcode := opcode, fd_fin := fin, fd_fragments := fragments, fd_held_seq := seq\<rparr>"

text \<open>A whole data frame within the limit.\<close>

definition frame_whole :: "frame_conf \<Rightarrow> set_mode \<Rightarrow> bool \<Rightarrow> nat \<Rightarrow> bytes \<Rightarrow> frame_dir \<Rightarrow> frame_turn" where
  "frame_whole cf au assemble p q d =
     (let fin = ws_fin q; opcode = ws_opcode q; masked = ws_masked q; plen = ws_plen q; hlen = ws_hlen q;
          d = d\<lparr>fd_seq := fd_seq d + 1\<rparr>;
          payload = take plen (drop hlen q);
          key = take 4 (drop (hlen - 4) q)
      in if fd_mode d = FRAME_JOURNAL
         then (if \<not> frame_journal_wanted cf au d then Inl (d\<lparr>fd_cleared := fd_cleared d + (hlen + plen)\<rparr>)
               else Inr (A_JOURNAL payload (if masked then Some key else None),
                         frame_hold (hlen + plen) opcode fin 1 (fd_seq d) d))
         else if assemble \<and> \<not> fin \<and> opcode \<noteq> WS_OP_CONT
         then Inl (d\<lparr>fd_msg := True, fd_msg_opcode := opcode, fd_msg_hlen := hlen, fd_msg_len := plen,
                     fd_msg_fragments := 1, fd_msg_seq := fd_seq d,
                     fd_msg_key := (if masked then key else fd_msg_key d)\<rparr>)
         else if fd_msg d
         then
           let d = frame_msg_append p hlen plen d in
           if \<not> fin then Inl d
           else
             let (hlen, d) = frame_msg_seal True d;
                 d = frame_hold (hlen + fd_msg_len d) (fd_msg_opcode d) True (fd_msg_fragments d) (fd_msg_seq d) d;
                 d = d\<lparr>fd_reassembled := fd_reassembled d + 1\<rparr>
             in Inr (A_INSPECT (take (fd_msg_len d) (drop (fd_cleared d + hlen) (fd_buf d)))
                       (if masked then Some (fd_msg_key d) else None), d)
         else Inr (A_INSPECT payload (if masked then Some key else None),
                   frame_hold (hlen + plen) opcode fin 1 (fd_seq d) d))"

definition frame_limited :: "frame_conf \<Rightarrow> set_mode \<Rightarrow> bool \<Rightarrow> nat \<Rightarrow> bytes \<Rightarrow> frame_dir \<Rightarrow> frame_turn" where
  "frame_limited cf au assemble p q d =
     (let fin = ws_fin q; opcode = ws_opcode q; plen = ws_plen q; hlen = ws_hlen q;
          total = plen + (if fd_msg d then fd_msg_len d else 0)
      in if total > fk_limit cf (fd_phase d)
         then (if fk_policy cf (fd_phase d) = POLICY_BLOCK \<and> fd_mode d = FRAME_INSPECT
               then Inr (if fd_msg d
                         then A_CLOSE WS_CLOSE_TOO_BIG ''message too big'' ''message exceeds waf_body_limit''
                         else A_CLOSE WS_CLOSE_TOO_BIG ''frame too big'' ''frame exceeds waf_body_limit'', d)
               else Inl (frame_let_pass assemble fin opcode (hlen + plen) d))
         else if ws_rsv q
         then Inl (frame_let_pass assemble fin opcode (hlen + plen) (d\<lparr>fd_rsv_warned := True\<rparr>))
         else if length q < hlen + plen then Inr (A_AGAIN, d)
         else frame_whole cf au assemble p q d)"

definition frame_data :: "frame_conf \<Rightarrow> set_mode \<Rightarrow> bool \<Rightarrow> nat \<Rightarrow> bytes \<Rightarrow> frame_dir \<Rightarrow> frame_turn" where
  "frame_data cf au assemble p q d =
     (let fin = ws_fin q; opcode = ws_opcode q; n = ws_hlen q + ws_plen q in
      if opcode > WS_OP_BINARY
      then Inr (A_CLOSE WS_CLOSE_PROTOCOL ''reserved opcode'' ''reserved data opcode'', d)
      else if fd_mode d = FRAME_PASS then Inl (frame_skip_on n d)
      else if assemble \<and> opcode = WS_OP_CONT \<and> fd_msg_skip d
      then Inl (frame_skip_on n (if fin then d\<lparr>fd_msg_skip := False\<rparr> else d))
      else if assemble \<and> opcode = WS_OP_CONT \<and> \<not> fd_msg d
      then Inr (A_CLOSE WS_CLOSE_PROTOCOL ''unexpected continuation'' ''continuation frame without a message'', d)
      else if assemble \<and> opcode \<noteq> WS_OP_CONT \<and> (fd_msg d \<or> fd_msg_skip d)
      then Inr (A_CLOSE WS_CLOSE_PROTOCOL ''message interrupted'' ''data frame inside a fragmented message'', d)
      else frame_limited cf au assemble p q d)"

definition frame_head :: "frame_conf \<Rightarrow> msec \<Rightarrow> set_mode \<Rightarrow> bool \<Rightarrow> nat \<Rightarrow> bytes \<Rightarrow> frame_dir \<Rightarrow> frame_turn" where
  "frame_head cf now au assemble p q d =
     (if length q < 2 then Inr (A_AGAIN, d)
      else if length q < ws_hlen q then Inr (A_AGAIN, d)
      else if ws_len7 q = 127 \<and> ws_plen q \<ge> 2 ^ 63
      then Inr (A_CLOSE WS_CLOSE_PROTOCOL ''invalid length'' ''frame length has the top bit set'', d)
      else if ws_masked q \<noteq> fd_masked d
      then Inr (if fd_masked d then A_CLOSE WS_CLOSE_PROTOCOL ''unmasked frame'' ''client frame is not masked''
                else A_CLOSE WS_CLOSE_PROTOCOL ''masked frame'' ''upstream frame is masked'', d)
      else if ws_opcode q \<ge> 8 then frame_control cf now p q d
      else frame_data cf au assemble p q d)"

definition frame_turn :: "frame_conf \<Rightarrow> msec \<Rightarrow> set_mode \<Rightarrow> frame_dir \<Rightarrow> frame_turn" where
  "frame_turn cf now au d =
     (let assemble = (fk_reassemble cf \<and> fd_mode d = FRAME_INSPECT);
          hold = (if fd_msg d then fd_msg_hlen d + fd_msg_len d else 0);
          p = fd_cleared d + hold;
          q = drop p (fd_buf d)
      in if fd_skip d > 0
         then
           let n = min (fd_skip d) (int (length q));
               d = d\<lparr>fd_cleared := fd_cleared d + nat n, fd_skip := fd_skip d - n\<rparr>
           in if fd_skip d > 0 then Inr (A_AGAIN, d) else Inl d
         else frame_head cf now au assemble p q d)"

text \<open>The loop. \<open>None\<close> is a loop that never ends.\<close>

partial_function (option) frame_parse ::
  "frame_conf \<Rightarrow> msec \<Rightarrow> set_mode \<Rightarrow> frame_dir \<Rightarrow> (frame_action \<times> frame_dir) option" where
  "frame_parse cf now au d =
     (case frame_turn cf now au d of
        Inl d \<Rightarrow> frame_parse cf now au d
      | Inr r \<Rightarrow> Some r)"

declare frame_parse.simps [code]

end
