(* ===== verification/Frame_Cache.thy ===== *)
theory Frame_Cache
  imports Waf_Types
begin

text \<open>
  The cache of frame verdicts in shared memory
  (\<open>src/module/src/local/ngx_http_waf_frame_cache.c\<close>): an open-addressed table of 4096 entries,
  probed at eight places. The mutex of the zone makes each operation atomic.
\<close>

record fcache_entry =
  fe_digest :: bytes
  fe_route :: u32
  fe_phase :: byte
  fe_opcode :: byte
  fe_expires :: msec

abbreviation (input) FCACHE_ENTRIES :: nat where "FCACHE_ENTRIES \<equiv> 4096"
abbreviation (input) FCACHE_PROBE :: nat where "FCACHE_PROBE \<equiv> 8"

text \<open>The zone has no cache when no route asked for one. A fresh cache is zeroed memory.\<close>

type_synonym fcache = "fcache_entry list option"

definition fcache_zero :: "fcache_entry list" where
  "fcache_zero =
     replicate FCACHE_ENTRIES \<lparr>fe_digest = replicate 16 0, fe_route = 0, fe_phase = 0, fe_opcode = 0, fe_expires = 0\<rparr>"

definition fcache_init :: "bool \<Rightarrow> bool \<Rightarrow> fcache \<Rightarrow> rc \<times> fcache" where
  "fcache_init wanted alloc fc =
     (if \<not> wanted \<or> fc \<noteq> None then (NGX_OK, fc)
      else if \<not> alloc then (NGX_ERROR, None)
      else (NGX_OK, Some fcache_zero))"

definition fcache_slot :: "bytes \<Rightarrow> nat" where
  "fcache_slot digest =
     (let h = foldl (\<lambda>h i. h OR push_bit (56 - 8 * i) (ucast (digest ! i))) 0 [0..<8] :: u64
      in unat (h AND (of_nat FCACHE_ENTRIES - 1)))"

definition fcache_probe :: "bytes \<Rightarrow> nat list" where
  "fcache_probe digest = map (\<lambda>i. (fcache_slot digest + i) mod FCACHE_ENTRIES) [0..<FCACHE_PROBE]"

definition fe_match :: "u32 \<Rightarrow> phase \<Rightarrow> nat \<Rightarrow> bytes \<Rightarrow> fcache_entry \<Rightarrow> bool" where
  "fe_match route phase opcode sha e \<longleftrightarrow>
     fe_route e = route \<and> unat (fe_phase e) = phase_num phase \<and> unat (fe_opcode e) = opcode
     \<and> take 16 (fe_digest e) = take 16 sha"

fun fcache_find :: "msec \<Rightarrow> u32 \<Rightarrow> phase \<Rightarrow> nat \<Rightarrow> bytes \<Rightarrow> nat list \<Rightarrow> fcache_entry list \<Rightarrow> rc \<times> fcache_entry list" where
  "fcache_find now route phase opcode sha [] es = (NGX_DECLINED, es)"
| "fcache_find now route phase opcode sha (i # is) es =
     (let e = es ! i in
      if fe_expires e = 0 then fcache_find now route phase opcode sha is es
      else if \<not> fe_match route phase opcode sha e then fcache_find now route phase opcode sha is es
      else if msec_diff (fe_expires e) now \<le> 0
      then fcache_find now route phase opcode sha is (es[i := e\<lparr>fe_expires := 0\<rparr>])
      else (NGX_OK, es))"

definition fcache_lookup :: "msec \<Rightarrow> u32 \<Rightarrow> phase \<Rightarrow> nat \<Rightarrow> bytes \<Rightarrow> fcache \<Rightarrow> rc \<times> fcache" where
  "fcache_lookup now route phase opcode sha fc =
     (case fc of
        None \<Rightarrow> (NGX_DECLINED, None)
      | Some es \<Rightarrow>
          let (r, es) = fcache_find now route phase opcode sha (fcache_probe sha) es in (r, Some es))"

text \<open>The entry an insertion takes: the one of the same key, else the first that is empty or expired,
  else the one that expires soonest.\<close>

fun fcache_victim ::
  "msec \<Rightarrow> u32 \<Rightarrow> phase \<Rightarrow> nat \<Rightarrow> bytes \<Rightarrow> fcache_entry list \<Rightarrow> nat list \<Rightarrow> nat option \<Rightarrow> nat option \<Rightarrow> nat option" where
  "fcache_victim now route phase opcode sha es [] free soonest = (if free \<noteq> None then free else soonest)"
| "fcache_victim now route phase opcode sha es (i # is) free soonest =
     (let e = es ! i in
      if fe_expires e \<noteq> 0 \<and> fe_match route phase opcode sha e then Some i
      else if fe_expires e = 0 \<or> msec_diff (fe_expires e) now \<le> 0
      then fcache_victim now route phase opcode sha es is (if free = None then Some i else free) soonest
      else
        fcache_victim now route phase opcode sha es is free
          (case soonest of
             None \<Rightarrow> Some i
           | Some s \<Rightarrow> if msec_diff (fe_expires e) (fe_expires (es ! s)) < 0 then Some i else soonest))"

definition fcache_insert :: "msec \<Rightarrow> u32 \<Rightarrow> phase \<Rightarrow> nat \<Rightarrow> bytes \<Rightarrow> msec \<Rightarrow> fcache \<Rightarrow> fcache" where
  "fcache_insert now route phase opcode sha ttl fc =
     (case fc of
        None \<Rightarrow> None
      | Some es \<Rightarrow>
          if ttl = 0 then fc
          else case fcache_victim now route phase opcode sha es (fcache_probe sha) None None of
            None \<Rightarrow> fc
          | Some i \<Rightarrow>
              Some (es[i := \<lparr>fe_digest = take 16 sha, fe_route = route, fe_phase = of_nat (phase_num phase),
                             fe_opcode = of_nat opcode, fe_expires = now + ttl\<rparr>]))"

subsection \<open>The cache as a set of promises\<close>

text \<open>
  What an insertion promises: the key may be allowed until the time. Every entry in use keeps a promise
  that was made, whatever the order of the operations of the workers.
\<close>

type_synonym promise = "u32 \<times> phase \<times> nat \<times> bytes \<times> msec"

definition promised :: "promise set \<Rightarrow> fcache_entry \<Rightarrow> bool" where
  "promised P e \<longleftrightarrow>
     fe_expires e = 0
     \<or> (\<exists>(route, phase, opcode, digest, until) \<in> P.
          fe_match route phase opcode digest e \<and> length digest = 16 \<and> until = fe_expires e)"

lemma promised_mono: "promised P e \<Longrightarrow> P \<subseteq> Q \<Longrightarrow> promised Q e"
  unfolding promised_def by blast

lemma promised_clear [simp]: "promised P (e\<lparr>fe_expires := 0\<rparr>)"
  by (simp add: promised_def)

datatype fc_event =
    Lookup msec u32 phase nat bytes
  | Insert msec u32 phase nat bytes msec

fun fc_step :: "fc_event \<Rightarrow> fcache \<Rightarrow> fcache" where
  "fc_step (Lookup now route phase opcode sha) fc = snd (fcache_lookup now route phase opcode sha fc)"
| "fc_step (Insert now route phase opcode sha ttl) fc = fcache_insert now route phase opcode sha ttl fc"

fun promise_of :: "fc_event \<Rightarrow> promise set" where
  "promise_of (Insert now route phase opcode sha ttl) =
     (if ttl = 0 then {} else {(route, phase, opcode, take 16 sha, now + ttl)})"
| "promise_of _ = {}"

text \<open>Digests have 32 bytes and opcodes four bits.\<close>

fun fc_ok :: "fc_event \<Rightarrow> bool" where
  "fc_ok (Lookup now route phase opcode sha) \<longleftrightarrow> length sha = 32 \<and> opcode < 16"
| "fc_ok (Insert now route phase opcode sha ttl) \<longleftrightarrow> length sha = 32 \<and> opcode < 16"

lemma phase_num_less: "phase_num p < 256"
  by (cases p) simp_all

lemma fe_match_key:
  assumes "fe_match route phase opcode sha e" "fe_match route' phase' opcode' sha' e"
  shows "route' = route \<and> phase' = phase \<and> opcode' = opcode \<and> take 16 sha' = take 16 sha"
  using assms by (auto simp: fe_match_def)

lemma fcache_find_promised:
  "\<forall>e\<in>set es. promised P e \<Longrightarrow> \<forall>i\<in>set is. i < length es \<Longrightarrow>
   \<forall>e\<in>set (snd (fcache_find now route phase opcode sha is es)). promised P e"
proof (induction "is" arbitrary: es)
  case (Cons i "is")
  have "promised P (e\<lparr>fe_expires := 0\<rparr>)" for e by simp
  then have "\<forall>x\<in>set (es[i := (es ! i)\<lparr>fe_expires := 0\<rparr>]). promised P x"
    using Cons.prems(1) set_update_subset_insert [of es i "(es ! i)\<lparr>fe_expires := 0\<rparr>"] by blast
  then show ?case using Cons by (simp add: Let_def)
qed simp

lemma fcache_find_hit:
  "fcache_find now route phase opcode sha is es = (NGX_OK, es') \<Longrightarrow> \<forall>i\<in>set is. i < length es \<Longrightarrow>
   \<exists>e\<in>set es'. fe_expires e \<noteq> 0 \<and> fe_match route phase opcode sha e \<and> msec_diff (fe_expires e) now > 0"
proof (induction "is" arbitrary: es)
  case (Cons i "is")
  show ?case
  proof (cases "fe_expires (es ! i) \<noteq> 0 \<and> fe_match route phase opcode sha (es ! i) \<and> msec_diff (fe_expires (es ! i)) now > 0")
    case True
    then have "es' = es" using Cons.prems(1) by (auto simp: Let_def)
    then show ?thesis using True Cons.prems(2) by (intro bexI [of _ "es ! i"]) auto
  next
    case False
    then show ?thesis using Cons by (auto simp: Let_def split: if_splits)
  qed
qed simp

lemma length_fcache_find [simp]: "length (snd (fcache_find now route phase opcode sha is es)) = length es"
  by (induction "is" arbitrary: es) (simp_all add: Let_def)

lemma probe_bound: "i \<in> set (fcache_probe sha) \<Longrightarrow> i < FCACHE_ENTRIES"
  by (auto simp: fcache_probe_def)

definition cache_ok :: "promise set \<Rightarrow> fcache \<Rightarrow> bool" where
  "cache_ok P fc \<longleftrightarrow> (case fc of None \<Rightarrow> True | Some es \<Rightarrow> length es = FCACHE_ENTRIES \<and> (\<forall>e\<in>set es. promised P e))"

lemma promised_insert:
  assumes "length sha = 32" "opcode < 16"
  shows "promised (insert (route, phase, opcode, take 16 sha, t) P)
           \<lparr>fe_digest = take 16 sha, fe_route = route, fe_phase = of_nat (phase_num phase),
            fe_opcode = of_nat opcode, fe_expires = t\<rparr>"
  using assms phase_num_less [of phase] by (auto simp: promised_def fe_match_def unat_of_nat)

lemma cache_ok_step:
  assumes "cache_ok P fc" "fc_ok ev"
  shows "cache_ok (P \<union> promise_of ev) (fc_step ev fc)"
proof (cases fc)
  case None
  then show ?thesis by (cases ev) (simp_all add: cache_ok_def fcache_lookup_def fcache_insert_def)
next
  case (Some es)
  have es: "length es = FCACHE_ENTRIES" "\<forall>e\<in>set es. promised P e" using assms(1) Some by (simp_all add: cache_ok_def)
  show ?thesis
  proof (cases ev)
    case (Lookup now route phase opcode sha)
    then show ?thesis
      using fcache_find_promised [OF es(2), of "fcache_probe sha"] es(1) probe_bound Some
      by (simp add: cache_ok_def fcache_lookup_def split_beta)
  next
    case (Insert now route phase opcode sha ttl)
    let ?Q = "insert (route, phase, opcode, take 16 sha, now + ttl) P"
    let ?e = "\<lparr>fe_digest = take 16 sha, fe_route = route, fe_phase = of_nat (phase_num phase),
            fe_opcode = of_nat opcode, fe_expires = now + ttl\<rparr>"
    have "promised ?Q ?e" using assms(2) Insert by (intro promised_insert) simp_all
    then have "\<forall>x\<in>set (es[i := ?e]). promised ?Q x" for i
      using es(2) promised_mono [of P _ ?Q] set_update_subset_insert [of es i ?e] by blast
    then show ?thesis
      using es promised_mono [of P _ ?Q] Insert Some by (auto simp: cache_ok_def fcache_insert_def split: option.split)
  qed
qed

lemma cache_ok_run:
  "cache_ok P fc \<Longrightarrow> \<forall>ev\<in>set evs. fc_ok ev \<Longrightarrow>
   cache_ok (P \<union> (\<Union>ev\<in>set evs. promise_of ev)) (fold fc_step evs fc)"
proof (induction evs arbitrary: P fc)
  case (Cons ev evs)
  then show ?case using Cons.IH [OF cache_ok_step [OF Cons.prems(1), of ev]] by (simp add: Un_assoc)
qed simp

lemma cache_ok_zero: "cache_ok {} (Some fcache_zero)"
  by (simp add: cache_ok_def fcache_zero_def promised_def)

lemma promise_of_event:
  "(route, phase, opcode, digest, until) \<in> promise_of ev \<Longrightarrow>
   \<exists>now sha ttl. ev = Insert now route phase opcode sha ttl \<and> digest = take 16 sha \<and> until = now + ttl"
  by (cases ev) (auto split: if_splits)

text \<open>
  C27: A frame skips its inspection only on a promise that holds: whatever insertions and lookups of
  all workers came before, a hit means that this very key (route, direction, opcode and the first
  half of the digest) was inserted and that its time has not run out.
\<close>

theorem fcache_hit_is_promised:
  assumes "\<forall>ev\<in>set evs. fc_ok ev" "length sha = 32"
    and "fst (fcache_lookup now route phase opcode sha (fold fc_step evs (Some fcache_zero))) = NGX_OK"
  shows "\<exists>t sha' ttl. Insert t route phase opcode sha' ttl \<in> set evs
           \<and> take 16 sha' = take 16 sha \<and> msec_diff (t + ttl) now > 0"
proof -
  let ?P = "\<Union>ev\<in>set evs. promise_of ev"
  have ok: "cache_ok ?P (fold fc_step evs (Some fcache_zero))" using cache_ok_run [OF cache_ok_zero assms(1)] by simp
  then obtain es where es: "fold fc_step evs (Some fcache_zero) = Some es" "length es = FCACHE_ENTRIES" "\<forall>e\<in>set es. promised ?P e"
    using assms(3) by (cases "fold fc_step evs (Some fcache_zero)") (auto simp: cache_ok_def fcache_lookup_def)
  obtain es' where hit: "fcache_find now route phase opcode sha (fcache_probe sha) es = (NGX_OK, es')"
    using assms(3) es(1) by (auto simp: fcache_lookup_def split: prod.splits)
  have bound: "\<forall>i\<in>set (fcache_probe sha). i < length es" using probe_bound es(2) by simp
  obtain e where e: "e \<in> set es'" "fe_expires e \<noteq> 0" "fe_match route phase opcode sha e" "msec_diff (fe_expires e) now > 0"
    using fcache_find_hit [OF hit bound] by blast
  have "promised ?P e" using fcache_find_promised [OF es(3) bound, of now route phase opcode sha] hit e(1) by simp
  then obtain r p oc dg where q: "(r, p, oc, dg, fe_expires e) \<in> ?P" "fe_match r p oc dg e" "length dg = 16"
    using e(2) unfolding promised_def by blast
  have k: "r = route" "p = phase" "oc = opcode" "dg = take 16 sha"
    using fe_match_key [OF e(3) q(2)] q(3) by auto
  obtain ev where ev: "ev \<in> set evs" "(r, p, oc, dg, fe_expires e) \<in> promise_of ev" using q(1) by blast
  show ?thesis using promise_of_event [OF ev(2)] ev(1) e(4) k by metis
qed

lemma fcache_find_live:
  "i \<in> set is \<Longrightarrow> i < length es \<Longrightarrow> fe_expires (es ! i) \<noteq> 0 \<Longrightarrow> fe_match route phase opcode sha (es ! i) \<Longrightarrow>
   msec_diff (fe_expires (es ! i)) now > 0 \<Longrightarrow> fst (fcache_find now route phase opcode sha is es) = NGX_OK"
proof (induction "is" arbitrary: es)
  case (Cons j "is")
  then show ?case by (cases "j = i") (auto simp: Let_def)
qed simp

lemma fcache_victim_probed:
  "set_option free \<union> set_option soonest \<union> set is \<subseteq> A \<Longrightarrow> is \<noteq> [] \<or> free \<noteq> None \<or> soonest \<noteq> None \<Longrightarrow>
   \<exists>i\<in>A. fcache_victim now route phase opcode sha es is free soonest = Some i"
proof (induction "is" arbitrary: free soonest)
  case Nil
  then show ?case by (cases free; cases soonest) auto
next
  case (Cons j "is")
  show ?case
    using Cons.prems Cons.IH [of "if free = None then Some j else free" soonest]
      Cons.IH [of free "case soonest of None \<Rightarrow> Some j
           | Some s \<Rightarrow> if msec_diff (fe_expires (es ! j)) (fe_expires (es ! s)) < 0 then Some j else soonest"]
    by (auto simp: Let_def split: option.splits if_splits)
qed

lemma fcache_insert_entry:
  assumes "length es = FCACHE_ENTRIES" "ttl \<noteq> 0"
  obtains i where "i \<in> set (fcache_probe sha)" "i < FCACHE_ENTRIES"
    "fcache_insert now route phase opcode sha ttl (Some es) =
       Some (es[i := \<lparr>fe_digest = take 16 sha, fe_route = route, fe_phase = of_nat (phase_num phase),
                      fe_opcode = of_nat opcode, fe_expires = now + ttl\<rparr>])"
proof -
  have "fcache_probe sha \<noteq> []" by (simp add: fcache_probe_def)
  then obtain i where i: "i \<in> set (fcache_probe sha)"
      "fcache_victim now route phase opcode sha es (fcache_probe sha) None None = Some i"
    using fcache_victim_probed [of None None "fcache_probe sha" "set (fcache_probe sha)" now route phase opcode sha es] by auto
  show thesis using that [OF i(1) probe_bound [OF i(1)]] i(2) assms(2) by (simp add: fcache_insert_def)
qed

text \<open>
  The cache remembers: in a cache of any content, a key that was just inserted is found until its
  time runs out, also when the clock wraps in between.
\<close>

theorem fcache_remembers:
  assumes "length es = FCACHE_ENTRIES" "opcode < 16" "length sha = 32"
    and "ttl \<noteq> 0" "now + ttl \<noteq> 0" "msec_diff (now + ttl) later > 0"
  shows "fst (fcache_lookup later route phase opcode sha
                (fcache_insert now route phase opcode sha ttl (Some es))) = NGX_OK"
proof -
  let ?e = "\<lparr>fe_digest = take 16 sha, fe_route = route, fe_phase = of_nat (phase_num phase),
             fe_opcode = of_nat opcode, fe_expires = now + ttl\<rparr>"
  obtain i where i: "i \<in> set (fcache_probe sha)" "i < FCACHE_ENTRIES"
      "fcache_insert now route phase opcode sha ttl (Some es) = Some (es[i := ?e])"
    using fcache_insert_entry [OF assms(1,4)] .
  have "fe_match route phase opcode sha ?e"
    using assms(2) phase_num_less [of phase] by (simp add: fe_match_def unat_of_nat)
  then have "fst (fcache_find later route phase opcode sha (fcache_probe sha) (es[i := ?e])) = NGX_OK"
    using i(1,2) assms(1,5,6) by (intro fcache_find_live [OF i(1)]) simp_all
  then show ?thesis by (simp add: fcache_lookup_def i(3) split_beta)
qed

theorem fcache_remembers_witness:
  "fst (fcache_lookup 5 7 PH_FRAME_C2S 1 (replicate 32 9)
          (fcache_insert (- 10) 7 PH_FRAME_C2S 1 (replicate 32 9) 100 (Some fcache_zero))) = NGX_OK"
  by (rule fcache_remembers) (simp_all add: fcache_zero_def msec_diff_def)

theorem fcache_hit_is_promised_witness:
  "\<exists>t sha' ttl. Insert t 7 PH_FRAME_C2S 1 sha' ttl \<in> set [Insert 0 7 PH_FRAME_C2S 1 (replicate 32 9) 100]
     \<and> take 16 sha' = take 16 (replicate 32 9) \<and> msec_diff (t + ttl) 5 > 0"
proof (rule fcache_hit_is_promised)
  obtain i where i: "i \<in> set (fcache_probe (replicate 32 9))" "i < FCACHE_ENTRIES"
      "fcache_insert 0 7 PH_FRAME_C2S 1 (replicate 32 9) 100 (Some fcache_zero) =
       Some (fcache_zero[i := \<lparr>fe_digest = take 16 (replicate 32 9), fe_route = 7, fe_phase = of_nat (phase_num PH_FRAME_C2S),
                      fe_opcode = of_nat 1, fe_expires = 0 + 100\<rparr>])"
    by (rule fcache_insert_entry [of fcache_zero 100 "replicate 32 9" 0 7 PH_FRAME_C2S 1]) (simp_all add: fcache_zero_def)
  have "fst (fcache_find 5 7 PH_FRAME_C2S 1 (replicate 32 9) (fcache_probe (replicate 32 9))
     (fcache_zero[i := \<lparr>fe_digest = take 16 (replicate 32 9), fe_route = 7, fe_phase = of_nat (phase_num PH_FRAME_C2S),
                      fe_opcode = of_nat 1, fe_expires = 0 + 100\<rparr>])) = NGX_OK"
    using i(1,2) by (intro fcache_find_live [OF i(1)]) (simp_all add: fcache_zero_def fe_match_def msec_diff_def)
  then show "fst (fcache_lookup 5 7 PH_FRAME_C2S 1 (replicate 32 9)
      (fold fc_step [Insert 0 7 PH_FRAME_C2S 1 (replicate 32 9) 100] (Some fcache_zero))) = NGX_OK"
    by (simp only: fold_simps fc_step.simps i(3) fcache_lookup_def Let_def option.case split_beta fst_conv comp_apply id_apply)
qed simp_all

end
