(* ===== verification/Sha256.thy ===== *)
theory Sha256
  imports Waf_Prelude
begin

text \<open>
  SHA-256 (\<open>src/module/src/body/ngx_http_waf_sha256.c\<close>), fed in pieces: the digest of the
  frames in the verdict cache and of the objects of the store. The reference is the hash of the
  whole message: padding, cutting into blocks and compressing one block after the other.
\<close>

subsection \<open>The compression of a block\<close>

definition sha256_k :: "u32 list" where
  "sha256_k = concat
    [[0x428a2f98, 0x71374491, 0xb5c0fbcf, 0xe9b5dba5],
     [0x3956c25b, 0x59f111f1, 0x923f82a4, 0xab1c5ed5],
     [0xd807aa98, 0x12835b01, 0x243185be, 0x550c7dc3],
     [0x72be5d74, 0x80deb1fe, 0x9bdc06a7, 0xc19bf174],
     [0xe49b69c1, 0xefbe4786, 0x0fc19dc6, 0x240ca1cc],
     [0x2de92c6f, 0x4a7484aa, 0x5cb0a9dc, 0x76f988da],
     [0x983e5152, 0xa831c66d, 0xb00327c8, 0xbf597fc7],
     [0xc6e00bf3, 0xd5a79147, 0x06ca6351, 0x14292967],
     [0x27b70a85, 0x2e1b2138, 0x4d2c6dfc, 0x53380d13],
     [0x650a7354, 0x766a0abb, 0x81c2c92e, 0x92722c85],
     [0xa2bfe8a1, 0xa81a664b, 0xc24b8b70, 0xc76c51a3],
     [0xd192e819, 0xd6990624, 0xf40e3585, 0x106aa070],
     [0x19a4c116, 0x1e376c08, 0x2748774c, 0x34b0bcb5],
     [0x391c0cb3, 0x4ed8aa4a, 0x5b9cca4f, 0x682e6ff3],
     [0x748f82ee, 0x78a5636f, 0x84c87814, 0x8cc70208],
     [0x90befffa, 0xa4506ceb, 0xbef9a3f7, 0xc67178f2]]"

definition ror :: "u32 \<Rightarrow> nat \<Rightarrow> u32" where
  "ror x n = drop_bit n x OR push_bit (32 - n) x"

definition s0 :: "u32 \<Rightarrow> u32" where "s0 x = ror x 2 XOR ror x 13 XOR ror x 22"
definition s1 :: "u32 \<Rightarrow> u32" where "s1 x = ror x 6 XOR ror x 11 XOR ror x 25"
definition g0 :: "u32 \<Rightarrow> u32" where "g0 x = ror x 7 XOR ror x 18 XOR drop_bit 3 x"
definition g1 :: "u32 \<Rightarrow> u32" where "g1 x = ror x 17 XOR ror x 19 XOR drop_bit 10 x"

text \<open>The first sixteen words are the block, big-endian; the others follow from the earlier ones.\<close>

definition be32 :: "bytes \<Rightarrow> nat \<Rightarrow> u32" where
  "be32 p i =
     push_bit 24 (ucast (p ! (i * 4))) OR push_bit 16 (ucast (p ! (i * 4 + 1)))
     OR push_bit 8 (ucast (p ! (i * 4 + 2))) OR ucast (p ! (i * 4 + 3))"

definition schedule_next :: "u32 list \<Rightarrow> nat \<Rightarrow> u32 list" where
  "schedule_next w i = w @ [g1 (w ! (i - 2)) + w ! (i - 7) + g0 (w ! (i - 15)) + w ! (i - 16)]"

definition schedule :: "bytes \<Rightarrow> u32 list" where
  "schedule p = foldl schedule_next (map (be32 p) [0..<16]) [16..<64]"

type_synonym regs = "u32 \<times> u32 \<times> u32 \<times> u32 \<times> u32 \<times> u32 \<times> u32 \<times> u32"

definition sha256_round :: "u32 list \<Rightarrow> regs \<Rightarrow> nat \<Rightarrow> regs" where
  "sha256_round w v i =
     (case v of (a, b, c, d, e, f, g, h) \<Rightarrow>
        let t1 = h + s1 e + ((e AND f) XOR (NOT e AND g)) + sha256_k ! i + w ! i;
            t2 = s0 a + ((a AND b) XOR (a AND c) XOR (b AND c))
        in (t1 + t2, a, b, c, d + t1, e, f, g))"

record sha256 =
  sha_bytes :: u64
  sha_h :: regs
  sha_block :: bytes
  sha_used :: nat

definition add_regs :: "regs \<Rightarrow> regs \<Rightarrow> regs" where
  "add_regs x y =
     (case (x, y) of ((a, b, c, d, e, f, g, h), (a', b', c', d', e', f', g', h')) \<Rightarrow>
        (a + a', b + b', c + c', d + d', e + e', f + f', g + g', h + h'))"

definition compress :: "regs \<Rightarrow> bytes \<Rightarrow> regs" where
  "compress v p = add_regs v (foldl (sha256_round (schedule p)) v [0..<64])"

definition sha256_block :: "bytes \<Rightarrow> sha256 \<Rightarrow> sha256" where
  "sha256_block p sha = sha\<lparr>sha_h := compress (sha_h sha) p\<rparr>"

subsection \<open>The streaming interface\<close>

definition h0 :: regs where
  "h0 = (0x6a09e667, 0xbb67ae85, 0x3c6ef372, 0xa54ff53a, 0x510e527f, 0x9b05688c, 0x1f83d9ab, 0x5be0cd19)"

text \<open>The structure lies on the stack: its block holds whatever was there.\<close>

definition sha256_init :: "sha256 \<Rightarrow> sha256" where
  "sha256_init sha = sha\<lparr>sha_bytes := 0, sha_used := 0, sha_h := h0\<rparr>"

text \<open>\<open>ngx_memcpy (dst + off, src, len)\<close> on the block.\<close>

definition blit :: "nat \<Rightarrow> bytes \<Rightarrow> bytes \<Rightarrow> bytes" where
  "blit off src dst = take off dst @ src @ drop (off + length src) dst"

function sha256_whole :: "bytes \<Rightarrow> sha256 \<Rightarrow> bytes \<times> sha256" where
  "sha256_whole data sha =
     (if length data \<ge> 64 then sha256_whole (drop 64 data) (sha256_block (take 64 data) sha)
      else (data, sha))"
  by pat_completeness auto
termination by (relation "measure (\<lambda>(data, _). length data)") auto

declare sha256_whole.simps [simp del]

definition sha256_tail :: "bytes \<Rightarrow> sha256 \<Rightarrow> sha256" where
  "sha256_tail data sha =
     (let (data, sha) = sha256_whole data sha in
      if data \<noteq> [] then sha\<lparr>sha_block := blit 0 data (sha_block sha), sha_used := length data\<rparr>
      else sha)"

definition sha256_update :: "bytes \<Rightarrow> sha256 \<Rightarrow> sha256" where
  "sha256_update data sha =
     (let sha = sha\<lparr>sha_bytes := sha_bytes sha + of_nat (length data)\<rparr>; used = sha_used sha in
      if used \<noteq> 0
      then
        let n = 64 - used in
        if n > length data
        then sha\<lparr>sha_block := blit used data (sha_block sha), sha_used := used + length data\<rparr>
        else
          let sha = sha\<lparr>sha_block := blit used (take n data) (sha_block sha)\<rparr>;
              sha = sha256_block (sha_block sha) sha
          in sha256_tail (drop n data) (sha\<lparr>sha_used := 0\<rparr>)
      else sha256_tail data sha)"

text \<open>The eight bytes of a 64-bit number and the four of a 32-bit number, most significant first.\<close>

definition be64 :: "u64 \<Rightarrow> bytes" where
  "be64 v = map (\<lambda>i. ucast (drop_bit (56 - 8 * i) v)) [0..<8]"

definition be_word :: "u32 \<Rightarrow> bytes" where
  "be_word v = map (\<lambda>i. ucast (drop_bit (24 - 8 * i) v)) [0..<4]"

definition digest_of :: "regs \<Rightarrow> bytes" where
  "digest_of v = (case v of (a, b, c, d, e, f, g, h) \<Rightarrow> concat (map be_word [a, b, c, d, e, f, g, h]))"

definition sha256_final :: "sha256 \<Rightarrow> bytes" where
  "sha256_final sha =
     (let bits = sha_bytes sha * 8;
          used = sha_used sha;
          sha = sha\<lparr>sha_block := blit used [0x80] (sha_block sha)\<rparr>;
          used = used + 1;
          (used, sha) =
            (if used > 56
             then
               let sha = sha\<lparr>sha_block := blit used (replicate (64 - used) 0) (sha_block sha)\<rparr>
               in (0, sha256_block (sha_block sha) sha)
             else (used, sha));
          sha = sha\<lparr>sha_block := blit used (replicate (56 - used) 0) (sha_block sha)\<rparr>;
          sha = sha\<lparr>sha_block := blit 56 (be64 bits) (sha_block sha)\<rparr>
      in digest_of (sha_h (sha256_block (sha_block sha) sha)))"

subsection \<open>The hash of a whole message\<close>

definition pad :: "bytes \<Rightarrow> bytes" where
  "pad msg =
     msg @ [0x80] @ replicate ((119 - length msg mod 64) mod 64) 0 @ be64 (of_nat (8 * length msg))"

fun blocks :: "nat \<Rightarrow> bytes \<Rightarrow> bytes list" where
  "blocks 0 p = []"
| "blocks (Suc n) p = take 64 p # blocks n (drop 64 p)"

definition sha256_ref :: "bytes \<Rightarrow> bytes" where
  "sha256_ref msg = digest_of (foldl compress h0 (blocks (length (pad msg) div 64) (pad msg)))"

subsection \<open>Streaming computes the hash\<close>

lemma blocks_append: "length p = 64 * n \<Longrightarrow> blocks (n + m) (p @ q) = blocks n p @ blocks m q"
  by (induction n arbitrary: p) auto

lemma blocks_take: "64 * n \<le> length p \<Longrightarrow> blocks n (p @ q) = blocks n p"
  by (induction n arbitrary: p) auto

lemma blocks_snoc: "length p = 64 * n \<Longrightarrow> length q = 64 \<Longrightarrow> blocks (Suc n) (p @ q) = blocks n p @ [q]"
  using blocks_append [of p n 1 q] by simp

lemma whole_blocks:
  "sha256_whole data sha =
     (drop (64 * (length data div 64)) data,
      sha\<lparr>sha_h := foldl compress (sha_h sha) (blocks (length data div 64) data)\<rparr>)"
proof (induction data sha rule: sha256_whole.induct)
  case (1 data sha)
  show ?case
  proof (cases "64 \<le> length data")
    case True
    then have d: "length data div 64 = Suc ((length data - 64) div 64)" by (simp add: le_div_geq)
    show ?thesis
      using "1.IH" [OF True] True by (subst sha256_whole.simps) (simp add: d sha256_block_def add.commute)
  qed (simp add: sha256_whole.simps)
qed

text \<open>The state after the bytes \<open>msg\<close>: whole blocks are compressed, the rest waits in the block.\<close>

definition absorbed :: "bytes \<Rightarrow> sha256 \<Rightarrow> bool" where
  "absorbed msg sha \<longleftrightarrow>
     length (sha_block sha) = 64 \<and> sha_used sha = length msg mod 64
     \<and> take (sha_used sha) (sha_block sha) = drop (64 * (length msg div 64)) msg
     \<and> sha_h sha = foldl compress h0 (blocks (length msg div 64) msg)"

lemma length_blit: "off + length src \<le> length dst \<Longrightarrow> length (blit off src dst) = length dst"
  by (simp add: blit_def)

lemma take_blit: "off + length src \<le> length dst \<Longrightarrow> take (off + length src) (blit off src dst) = take off dst @ src"
  by (simp add: blit_def)

lemma absorbed_append_whole:
  assumes "absorbed msg sha" "length msg mod 64 = 0"
  shows "absorbed (msg @ data) (sha256_tail data sha)"
proof -
  let ?n = "length msg div 64" and ?m = "length data div 64"
  have len: "length msg = 64 * ?n" using assms(2) by auto
  have div: "length (msg @ data) div 64 = ?n + ?m"
    using len div_mult_self4 [of 64 ?n "length data"] by simp
  have mod: "length (msg @ data) mod 64 = length data mod 64" using assms(2) by (simp add: mod_add_eq [symmetric])
  have h: "foldl compress (sha_h sha) (blocks ?m data) = foldl compress h0 (blocks (?n + ?m) (msg @ data))"
    using assms(1) blocks_append [OF len, of ?m data] by (simp add: absorbed_def)
  have rest: "drop (64 * (?n + ?m)) (msg @ data) = drop (64 * ?m) data" using len by (simp add: algebra_simps)
  have lr: "length (drop (64 * ?m) data) = length data mod 64" by (simp add: minus_mult_div_eq_mod)
  show ?thesis
  proof (cases "drop (64 * ?m) data = []")
    case True
    then have "length data mod 64 = 0" using lr by simp
    then show ?thesis
      using assms True div mod h rest by (simp add: sha256_tail_def whole_blocks absorbed_def)
  next
    case False
    have lt: "length data mod 64 \<le> 64" by (simp add: order_less_imp_le)
    have bl: "length (sha_block sha) = 64" using assms(1) by (simp add: absorbed_def)
    show ?thesis
      using False assms(1) div mod h rest lr lt bl
        length_blit [of 0 "drop (64 * ?m) data" "sha_block sha"] take_blit [of 0 "drop (64 * ?m) data" "sha_block sha"]
      by (simp add: sha256_tail_def whole_blocks absorbed_def)
  qed
qed

lemma absorbed_bytes [simp]: "absorbed msg (sha\<lparr>sha_bytes := n\<rparr>) = absorbed msg sha"
  by (simp add: absorbed_def)

text \<open>Bytes that fill up the waiting block.\<close>

lemma absorbed_fill:
  assumes "absorbed msg sha" "sha_used sha + length data < 64"
  shows "absorbed (msg @ data)
           (sha\<lparr>sha_block := blit (sha_used sha) data (sha_block sha), sha_used := sha_used sha + length data\<rparr>)"
proof -
  let ?n = "length msg div 64"
  have u: "sha_used sha = length msg mod 64" "length (sha_block sha) = 64"
      "take (sha_used sha) (sha_block sha) = drop (64 * ?n) msg" "sha_h sha = foldl compress h0 (blocks ?n msg)"
    using assms(1) unfolding absorbed_def by auto
  have d: "(length msg + length data) div 64 = ?n"
    and m: "(length msg + length data) mod 64 = sha_used sha + length data"
  proof -
    have eq: "length msg + length data = 64 * ?n + (sha_used sha + length data)"
      using u(1) mult_div_mod_eq [of 64 "length msg"] by linarith
    show "(length msg + length data) div 64 = ?n" by (subst eq) (use assms(2) in simp)
    show "(length msg + length data) mod 64 = sha_used sha + length data"
      by (subst eq) (use assms(2) in simp)
  qed
  have "take (sha_used sha + length data) (blit (sha_used sha) data (sha_block sha)) = drop (64 * ?n) msg @ data"
    using take_blit [of "sha_used sha" data "sha_block sha"] assms(2) u(2,3) by simp
  moreover have "length (blit (sha_used sha) data (sha_block sha)) = 64" using assms(2) u(2) by (simp add: length_blit)
  moreover have "blocks ?n (msg @ data) = blocks ?n msg" by (rule blocks_take) simp
  ultimately show ?thesis using u(4) by (simp add: absorbed_def d m)
qed

lemma absorbed_block:
  assumes "absorbed msg sha" "sha_used sha + length data = 64"
  shows "absorbed (msg @ data)
           ((sha256_block (blit (sha_used sha) data (sha_block sha))
              (sha\<lparr>sha_block := blit (sha_used sha) data (sha_block sha)\<rparr>))\<lparr>sha_used := 0\<rparr>)"
proof -
  let ?n = "length msg div 64"
  have u: "sha_used sha = length msg mod 64" "length (sha_block sha) = 64"
      "take (sha_used sha) (sha_block sha) = drop (64 * ?n) msg"
    using assms(1) unfolding absorbed_def by auto
  have len: "length (msg @ data) = 64 * Suc ?n" 
    using assms(2) u(1) mult_div_mod_eq [of 64 "length msg"] by (simp only: length_append mult_Suc_right)
  have b: "blit (sha_used sha) data (sha_block sha) = drop (64 * ?n) msg @ data"
    using assms(2) u by (simp add: blit_def)
  have "length (take (64 * ?n) msg) = 64 * ?n" "length (drop (64 * ?n) msg @ data) = 64" using len by simp_all
  from blocks_snoc [OF this]
  have "blocks (Suc ?n) (msg @ data) = blocks ?n (take (64 * ?n) msg) @ [drop (64 * ?n) msg @ data]"
    by (simp only: append_assoc [symmetric] append_take_drop_id)
  moreover have "blocks ?n (take (64 * ?n) msg) = blocks ?n msg"
    using blocks_take [of ?n "take (64 * ?n) msg" "drop (64 * ?n) msg"] by simp
  ultimately have "foldl compress h0 (blocks (Suc ?n) (msg @ data)) = compress (sha_h sha) (drop (64 * ?n) msg @ data)"
    using assms(1) by (simp add: absorbed_def)
  moreover have "length (drop (64 * ?n) msg @ data) = 64" using len by simp
  ultimately show ?thesis using len unfolding absorbed_def b sha256_block_def by simp
qed

lemma absorbed_update:
  assumes "absorbed msg sha" shows "absorbed (msg @ data) (sha256_update data sha)"
proof -
  let ?s = "sha\<lparr>sha_bytes := sha_bytes sha + of_nat (length data)\<rparr>" and ?n = "64 - sha_used sha"
  have a: "absorbed msg ?s" using assms by simp
  have u: "sha_used sha = length msg mod 64" using assms by (simp add: absorbed_def)
  then have lt: "sha_used sha < 64" by simp
  consider (zero) "sha_used sha = 0" | (fill) "sha_used sha \<noteq> 0" "?n > length data" | (over) "sha_used sha \<noteq> 0" "?n \<le> length data"
    by linarith
  then show ?thesis
  proof cases
    case zero
    then show ?thesis using absorbed_append_whole [OF a] u by (simp add: sha256_update_def Let_def)
  next
    case fill
    then show ?thesis using absorbed_fill [OF a, of data] lt by (simp add: sha256_update_def Let_def)
  next
    case over
    let ?b = "(sha256_block (blit (sha_used ?s) (take ?n data) (sha_block ?s))
              (?s\<lparr>sha_block := blit (sha_used ?s) (take ?n data) (sha_block ?s)\<rparr>))\<lparr>sha_used := 0\<rparr>"
    have b: "absorbed (msg @ take ?n data) ?b"
      by (rule absorbed_block [OF a]) (use over lt in simp)
    have "length (msg @ take ?n data) mod 64 = 0" using b by (simp add: absorbed_def sha256_block_def)
    from absorbed_append_whole [OF b this, of "drop ?n data"]
    show ?thesis using over by (simp add: sha256_update_def Let_def)
  qed
qed

lemma sha256_update_bytes: "sha_bytes (sha256_update data sha) = sha_bytes sha + of_nat (length data)"
  by (simp add: sha256_update_def sha256_tail_def whole_blocks sha256_block_def Let_def split: prod.split)

text \<open>Padding: one block, or two when the length does not fit behind the rest.\<close>

lemma length_be64 [simp]: "length (be64 v) = 8"
  by (simp add: be64_def)

lemma blit_full: "off + length src = length dst \<Longrightarrow> blit off src dst = take off dst @ src"
  by (simp add: blit_def)

lemma blit_blit: "off + length xs \<le> length dst \<Longrightarrow> blit (off + length xs) ys (blit off xs dst) = blit off (xs @ ys) dst"
  by (simp add: blit_def drop_drop add.assoc add.commute add.left_commute)

lemma final_digest:
  assumes "absorbed msg sha" "sha_bytes sha = of_nat (length msg)"
  shows "sha256_final sha = sha256_ref msg"
proof -
  define r where "r = length msg mod 64"
  have u: "sha_used sha = r" "length (sha_block sha) = 64" "r < 64"
    using assms(1) by (simp_all add: absorbed_def r_def)
  let ?len = "be64 (of_nat (8 * length msg))"
  have bits: "sha_bytes sha * 8 = of_nat (8 * length msg)" using assms(2) by (simp add: mult.commute)
  show ?thesis
  proof (cases "r + 1 \<le> 56")
    case True
    let ?data = "[0x80] @ replicate (55 - r) 0 @ ?len" and ?b = "blit r ([0x80] @ replicate (55 - r) 0 @ ?len) (sha_block sha)"
    have "(119 - r) mod 64 = 55 - r" using True by (subst mod_if) (auto simp: mod_if)
    then have pad: "pad msg = msg @ ?data" unfolding pad_def r_def [symmetric] by simp
    have 1: "blit 56 ?len (blit (r + 1) (replicate (55 - r) 0) (blit r [0x80] (sha_block sha))) = ?b"
      using u True blit_blit [of r "[0x80]" "sha_block sha" "replicate (55 - r) 0"]
        blit_blit [of r "[0x80] @ replicate (55 - r) 0" "sha_block sha" ?len] by simp
    have "sha_used sha + length ?data = 64" using u True by simp
    note abs = absorbed_block [OF assms(1) this]
    have "compress (sha_h sha) ?b = foldl compress h0 (blocks (length (pad msg) div 64) (pad msg))"
      using abs unfolding pad absorbed_def u sha256_block_def by simp
    then show ?thesis
      using True 1 by (simp add: sha256_final_def sha256_ref_def Let_def u bits sha256_block_def)
  next
    case False
    let ?d1 = "[0x80] @ replicate (63 - r) 0" and ?d2 = "replicate 56 0 @ ?len"
    let ?b1 = "blit r ([0x80] @ replicate (63 - r) 0) (sha_block sha)"
    have "(119 - r) mod 64 = (63 - r) + 56" using False u(3) by simp
    then have "replicate ((119 - r) mod 64) (0 :: byte) = replicate (63 - r) 0 @ replicate 56 0"
      by (simp only: replicate_add)
    then have pad: "pad msg = (msg @ ?d1) @ ?d2" unfolding pad_def r_def [symmetric] by simp
    have 1: "blit (r + 1) (replicate (63 - r) 0) (blit r [0x80] (sha_block sha)) = ?b1"
      using u False blit_blit [of r "[0x80]" "sha_block sha" "replicate (63 - r) 0"] by simp
    have l1: "length ?b1 = 64" using u False by (simp add: length_blit)
    have 2: "blit 56 ?len (blit 0 (replicate 56 0) ?b1) = blit 0 ?d2 ?b1"
      using l1 blit_blit [of 0 "replicate 56 0" ?b1 ?len] by simp
    have "sha_used sha + length ?d1 = 64" using u False by simp
    note a1 = absorbed_block [OF assms(1) this]
    note a2 = absorbed_block [OF a1, of ?d2]
    have "compress (compress (sha_h sha) ?b1) (blit 0 ?d2 ?b1) = foldl compress h0 (blocks (length (pad msg) div 64) (pad msg))"
      using a2 unfolding pad absorbed_def u sha256_block_def by simp
    then show ?thesis
      using False 1 2 by (simp add: sha256_final_def sha256_ref_def Let_def u bits sha256_block_def)
  qed
qed

lemma absorbed_init: "length (sha_block sha) = 64 \<Longrightarrow> absorbed [] (sha256_init sha)"
  by (simp add: absorbed_def sha256_init_def)

lemma absorbed_updates:
  "absorbed msg sha \<Longrightarrow> sha_bytes sha = of_nat (length msg) \<Longrightarrow>
   absorbed (msg @ concat ds) (fold sha256_update ds sha)
   \<and> sha_bytes (fold sha256_update ds sha) = of_nat (length (msg @ concat ds))"
proof (induction ds arbitrary: msg sha)
  case (Cons d ds)
  from Cons.IH [OF absorbed_update [OF Cons.prems(1), of d]] Cons.prems(2)
  show ?case by (simp add: sha256_update_bytes)
qed simp



end
