(* ===== verification/Frame_Conn.thy ===== *)
theory Frame_Conn
  imports Frame Frame_Cache Sha256 Handler
begin

text \<open>
  A WebSocket connection (\<open>src/module/src/stream/ngx_http_waf_frame.c\<close>): the two directions, the
  frame that is being inspected, and what becomes of it. The state holds what the functions share: the
  request context, the verdict cache and the clock.

  The local checks, the waves of a frame phase and the end of a phase belong to the handler, and the
  object store to the drivers; what they return here are parameters (record \<open>frame_env\<close>). They are
  functions on the connection, because a wave can come back into the connection before it returns.
\<close>

datatype side = C2S | S2C

text \<open>The return codes a phase hands to a frame: those of nginx and \<open>NGX_ABORT\<close>.\<close>

datatype frc = FRC rc | NGX_ABORT

record frame_conn =
  fc_dir :: "side \<Rightarrow> frame_dir"
  fc_cur :: "side option"
  fc_pool :: bool
  fc_body :: bytes
  fc_rewrite_index :: nat
  fc_close_code :: nat
  fc_close_reason :: bytes
  fc_close_why :: "string option"
  fc_settled :: bool
  fc_fetching :: bool
  fc_in_stack :: bool
  fc_closing :: bool
  fc_route_hash :: u32
  fc_sha256 :: bytes
  fc_sha_set :: bool
  fc_is_cached :: bool
  fc_saved_actions :: "action list"
  fc_saved_markers :: "bytes list"
  fc_conn_ctl :: "phase \<Rightarrow> control"
  fc_conn_audit :: audit_ovr
  fc_ctl_init :: bool
  fc_ctx :: ctx
  fc_cache :: fcache
  fc_now :: msec

record frame_env =
  fv_pool :: bool
  fv_copy :: bool
  fv_arrays :: bool
  fv_checks :: "frame_conn \<Rightarrow> frc \<times> frame_conn"
  fv_waves :: "frame_conn \<Rightarrow> frc \<times> frame_conn"
  fv_finish :: "frame_conn \<Rightarrow> frc \<times> frame_conn"
  fv_resume :: "frame_conn \<Rightarrow> frc \<times> frame_conn"
  fv_store :: "bytes \<Rightarrow> rc \<times> (rc \<times> bytes) option"
  fv_out :: bool
  fv_stack :: sha256
  fv_deny :: "(nat \<times> bytes) option"
  fv_reason :: "nat \<Rightarrow> bytes"
  fv_extras :: "nat \<Rightarrow> bool"

definition upd_dir :: "side \<Rightarrow> (frame_dir \<Rightarrow> frame_dir) \<Rightarrow> frame_conn \<Rightarrow> frame_conn" where
  "upd_dir s f fc = fc\<lparr>fc_dir := (fc_dir fc)(s := f (fc_dir fc s))\<rparr>"

definition upd_fctx :: "(ctx \<Rightarrow> ctx) \<Rightarrow> frame_conn \<Rightarrow> frame_conn" where
  "upd_fctx f fc = fc\<lparr>fc_ctx := f (fc_ctx fc)\<rparr>"

subsection \<open>Closing\<close>

definition frame_set_close :: "nat \<Rightarrow> bytes \<Rightarrow> string \<Rightarrow> frame_conn \<Rightarrow> frame_conn" where
  "frame_set_close code reason why fc =
     fc\<lparr>fc_close_reason := take WS_REASON_MAX reason, fc_close_code := code, fc_close_why := Some why,
        fc_closing := True\<rparr>"

definition frame_deny_close :: "frame_env \<Rightarrow> frame_conn \<Rightarrow> frame_conn" where
  "frame_deny_close v fc =
     (case fv_deny v of
        Some (code, reason) \<Rightarrow> frame_set_close code reason ''policy'' fc
      | None \<Rightarrow>
          let c = fc_ctx fc;
              code = (if c_by_local c \<and> c_local_rule c \<noteq> [] then Some (c_local_rule c)
                      else case p_decisive (ph c) of
                        Some i \<Rightarrow> if fv_reason v i \<noteq> [] then Some (fv_reason v i) else None
                      | None \<Rightarrow> None)
          in case code of
               Some code \<Rightarrow> frame_set_close WS_CLOSE_POLICY code ''policy'' fc
             | None \<Rightarrow> frame_set_close WS_CLOSE_POLICY (ascii ''policy violation'') ''policy'' fc)"

text \<open>The close frame sent to the client at the end.\<close>

definition frame_close_bytes :: "frame_conn \<Rightarrow> bytes" where
  "frame_close_bytes fc =
     [0x80 OR of_nat WS_OP_CLOSE, of_nat (2 + length (fc_close_reason fc)),
      of_nat (fc_close_code fc div 256), of_nat (fc_close_code fc)]
     @ fc_close_reason fc"

subsection \<open>The frame being inspected\<close>

definition frame_phase0 :: phase_ctx where
  "frame_phase0 = phase_ctx0\<lparr>p_body_policy := None, p_agent_settled := True\<rparr>"

definition frame_begin :: "frame_env \<Rightarrow> side \<Rightarrow> bytes \<Rightarrow> bytes option \<Rightarrow> frame_conn \<Rightarrow> rc \<times> frame_conn" where
  "frame_begin v s payload key fc =
     (if \<not> fv_pool v
      then (NGX_ERROR, frame_set_close WS_CLOSE_INTERNAL (ascii ''internal error'') ''frame pool allocation failed'' fc)
      else if \<not> fv_copy v
      then (NGX_ERROR, frame_set_close WS_CLOSE_INTERNAL (ascii ''internal error'') ''frame copy allocation failed''
                         (fc\<lparr>fc_pool := False\<rparr>))
      else
        let fc = fc\<lparr>fc_pool := True,
                    fc_body := (case key of Some k \<Rightarrow> ws_mask k 0 payload | None \<Rightarrow> payload)\<rparr>;
            fc = (case key of Some k \<Rightarrow> upd_dir s (fd_mask_update (\<lambda>_. k)) fc | None \<Rightarrow> fc);
            phase = fd_phase (fc_dir fc s);
            fc = upd_fctx (\<lambda>c. (phase_enter phase (c\<lparr>c_phases := (c_phases c)(phase := frame_phase0)\<rparr>))
                   \<lparr>c_state := ST_INIT, c_waiting := False, c_by_local := False, c_finish_how := FINISH_APPLY,
                     c_rid_hex := replicate RID_HEX_LEN 0x2d, c_local_rule := [], c_local_response := []\<rparr>) fc;
            fc = fc\<lparr>fc_saved_actions := c_actions (fc_ctx fc), fc_saved_markers := c_markers (fc_ctx fc)\<rparr>;
            fc = (if \<not> fc_ctl_init fc
                  then fc\<lparr>fc_conn_ctl := c_ctl (fc_ctx fc), fc_conn_audit := c_audit_ovr (fc_ctx fc) OVR_REQUEST,
                          fc_ctl_init := True\<rparr>
                  else fc);
            fc = upd_fctx (\<lambda>c. c\<lparr>c_ctl := fc_conn_ctl fc,
                                 c_audit_ovr := (c_audit_ovr c)(OVR_REQUEST := fc_conn_audit fc),
                                 c_actions := (if fv_arrays v then fc_saved_actions fc else []),
                                 c_markers := (if fv_arrays v then fc_saved_markers fc else [])\<rparr>) fc
        in (NGX_OK, fc))"

definition frame_end :: "frame_conn \<Rightarrow> frame_conn" where
  "frame_end fc =
     (case (fc_pool fc, fc_cur fc) of
        (True, Some s) \<Rightarrow>
          let phase = fd_phase (fc_dir fc s);
              fc = upd_fctx (\<lambda>c. c\<lparr>c_timer := None, c_actions := fc_saved_actions fc,
                                   c_markers := fc_saved_markers fc,
                                   c_phases := (c_phases c)(phase := frame_phase0)\<rparr>) fc
          in fc\<lparr>fc_saved_actions := [], fc_saved_markers := [], fc_pool := False, fc_cur := None\<rparr>
      | _ \<Rightarrow> fc\<lparr>fc_cur := None\<rparr>)"

definition frame_cacheable :: "frame_env \<Rightarrow> frame_conn \<Rightarrow> bool" where
  "frame_cacheable v fc \<longleftrightarrow>
     (case fc_cur fc of
        None \<Rightarrow> False
      | Some s \<Rightarrow>
          let c = fc_ctx fc; p = ph c in
          \<not> (fc_is_cached fc \<or> \<not> fc_sha_set fc \<or> fc_closing fc \<or> c_by_local c \<or> fd_drop (fc_dir fc s) \<noteq> 0)
          \<and> p_verdict p = V_ALLOW \<and> p_score p = 0 \<and> p_shadow p = 0 \<and> p_fail p = CODE_NONE
          \<and> \<not> p_fail_blocked p \<and> p_skipped p = 0 \<and> p_controlled p = 0 \<and> p_published p \<noteq> 0
          \<and> p_got p = p_published p
          \<and> (case p_replies p of
               None \<Rightarrow> False
             | Some rs \<Rightarrow>
                 list_all (\<lambda>i. r_received (rs ! i) \<and> \<not> fv_extras v i \<and> \<not> r_rewrite_has (rs ! i)
                               \<and> r_verdict (rs ! i) = V_ALLOW \<and> r_actions (rs ! i) = [])
                   (bits_of (p_published p))))"

text \<open>A frame that may go on.\<close>

definition frame_clear :: "frame_dir \<Rightarrow> frame_dir" where
  "frame_clear d = d\<lparr>fd_cleared := fd_cleared d + fd_held d, fd_held := 0\<rparr>"

definition frame_settle :: "frame_conf \<Rightarrow> frame_env \<Rightarrow> frc \<Rightarrow> frame_conn \<Rightarrow> frame_conn" where
  "frame_settle cf v r fc =
     (let fc = fc\<lparr>fc_settled := True, fc_fetching := False\<rparr> in
      case fc_cur fc of
        None \<Rightarrow> fc
      | Some s \<Rightarrow>
          let fc = (if r \<noteq> FRC NGX_OK
                    then
                      let fc = (if fc_close_code fc = 0
                                then frame_set_close WS_CLOSE_INTERNAL (ascii ''internal error'') ''frame wave failed'' fc
                                else fc)
                      in upd_dir s (fd_denied_update (\<lambda>n. n + 1)) fc
                    else fc);
              fc = (if r = FRC NGX_OK \<and> frame_cacheable v fc
                    then fc\<lparr>fc_cache := fcache_insert (fc_now fc) (fc_route_hash fc) (fd_phase (fc_dir fc s))
                                         (fd_opcode (fc_dir fc s)) (fc_sha256 fc)
                                         (fk_cache_ttl cf (fd_phase (fc_dir fc s))) (fc_cache fc)\<rparr>
                    else fc);
              fc = (if r = FRC NGX_OK then upd_dir s frame_clear fc else fc)
          in frame_end fc)"

subsection \<open>Rewriting\<close>

definition out_size :: "frame_conf \<Rightarrow> phase \<Rightarrow> nat" where
  "out_size cf phase = max FRAME_BUF_MIN (fk_limit cf phase + WS_HEADER_MAX)"

text \<open>The new frame in place of the held one.\<close>

definition frame_new :: "frame_dir \<Rightarrow> bytes \<Rightarrow> bytes" where
  "frame_new d data =
     ws_head (fd_fin d) (fd_opcode d) (length data) (fd_masked d) (fd_mask d)
     @ (if fd_masked d then ws_mask (fd_mask d) 0 data else data)"

definition frame_replace :: "bytes \<Rightarrow> frame_dir \<Rightarrow> frame_dir" where
  "frame_replace data d =
     d\<lparr>fd_out := Some (frame_new d data), fd_drop := fd_held d, fd_held := 0, fd_rewritten := fd_rewritten d + 1\<rparr>"

definition frame_swap :: "frame_conf \<Rightarrow> frame_env \<Rightarrow> bytes \<Rightarrow> frame_conn \<Rightarrow> rc \<times> frame_conn" where
  "frame_swap cf v data fc =
     (case fc_cur fc of
        None \<Rightarrow> (NGX_ERROR, fc)
      | Some s \<Rightarrow>
          let d = fc_dir fc s;
              reply = (case p_replies (ph (fc_ctx fc)) of Some rs \<Rightarrow> rs ! fc_rewrite_index fc | None \<Rightarrow> reply0)
          in if int (length data) \<noteq> r_rewrite_size reply then (NGX_ERROR, fc)
             else if r_rewrite_sha256_set reply
                  \<and> sha256_final (sha256_update data (sha256_init (fv_stack v))) \<noteq> r_rewrite_sha256 reply
             then (NGX_ERROR, fc)
             else if fd_out d = None \<and> \<not> fv_out v then (NGX_ERROR, fc)
             else if 2 + (if length data < 126 then 0 else if length data \<le> 65535 then 2 else 8)
                       + (if fd_masked d then 4 else 0) + length data > out_size cf (fd_phase d)
             then (NGX_ERROR, upd_dir s (\<lambda>d. if fd_out d = None then d\<lparr>fd_out := Some []\<rparr> else d) fc)
             else (NGX_OK, upd_dir s (frame_replace data) fc))"

definition frame_rewrite_fail :: "frame_conf \<Rightarrow> frame_env \<Rightarrow> frame_conn \<Rightarrow> frame_conn" where
  "frame_rewrite_fail cf v fc =
     (let deny = (case fc_cur fc of
                    Some s \<Rightarrow> fk_exc_body cf (fd_phase (fc_dir fc s)) = POLICY_BLOCK | None \<Rightarrow> False);
          i = fc_rewrite_index fc
      in if \<not> deny then fc
         else
           let fc = upd_fctx (\<lambda>c. (upd_ph (\<lambda>p. p\<lparr>
                      p_replies := map_option (\<lambda>rs. rs[i := (rs ! i)\<lparr>r_verdict := V_DENY, r_response_name := []\<rparr>]) (p_replies p),
                      p_verdict := V_DENY, p_decisive := Some i, p_decisive_index := i, p_code := CODE_INSPECTOR\<rparr>) c)
                      \<lparr>c_state := ST_DENY\<rparr>) fc
           in frame_deny_close (v\<lparr>fv_reason := (fv_reason v)(i := ascii ''REWRITE_FAILED'')\<rparr>) fc)"

definition frame_rewrite :: "frame_conf \<Rightarrow> frame_env \<Rightarrow> frame_conn \<Rightarrow> rc \<times> frame_conn" where
  "frame_rewrite cf v fc =
     (let p = ph (fc_ctx fc) in
      case (fc_cur fc, p_replies p) of
        (Some s, Some rs) \<Rightarrow>
          let phase = fd_phase (fc_dir fc s);
              found = (if p_live p \<noteq> None then p_rewrite_last p else MAX_INSPECTORS)
          in if found = MAX_INSPECTORS then (NGX_DECLINED, fc)
             else
               let fc = upd_fctx (\<lambda>c. c\<lparr>c_timer := None\<rparr>) (fc\<lparr>fc_rewrite_index := found\<rparr>);
                   cap = fk_limit cf phase
               in if \<not> fk_send_store cf phase then (NGX_DECLINED, fc)
                  else if r_rewrite_size (rs ! found) > int cap then (NGX_DECLINED, frame_rewrite_fail cf v fc)
                  else if (case p_locator p of Some l \<Rightarrow> l_truncated l | None \<Rightarrow> False)
                  then (NGX_DECLINED, frame_rewrite_fail cf v fc)
                  else (case fv_store v (r_rewrite_key (rs ! found)) of
                          (NGX_AGAIN, _) \<Rightarrow> (NGX_AGAIN, fc)
                        | (NGX_OK, Some (NGX_OK, data)) \<Rightarrow>
                            let (r, fc) = frame_swap cf v data fc
                            in (NGX_DECLINED, if r \<noteq> NGX_OK then frame_rewrite_fail cf v fc else fc)
                        | _ \<Rightarrow> (NGX_DECLINED, frame_rewrite_fail cf v fc))
      | _ \<Rightarrow> (NGX_DECLINED, fc))"

definition frame_apply :: "frame_conf \<Rightarrow> frame_env \<Rightarrow> frc \<Rightarrow> frame_conn \<Rightarrow> frame_conn" where
  "frame_apply cf v r fc =
     (if r = FRC NGX_OK \<or> r = FRC NGX_DECLINED
      then
        let (q, fc) = frame_rewrite cf v fc in
        if q = NGX_AGAIN then fc\<lparr>fc_fetching := True\<rparr>
        else frame_settle cf v (if fc_closing fc then FRC NGX_ERROR else FRC NGX_OK) fc
      else frame_settle cf v r fc)"

definition frame_outcome :: "frame_conf \<Rightarrow> frame_env \<Rightarrow> frc \<Rightarrow> frame_conn \<Rightarrow> rc \<times> frame_conn" where
  "frame_outcome cf v r fc =
     (if r = FRC NGX_DONE then (if fc_settled fc then NGX_OK else NGX_AGAIN, fc)
      else if fc_settled fc then (NGX_OK, fc)
      else let fc = frame_apply cf v r fc in (if fc_closing fc then NGX_ERROR else NGX_OK, fc))"

subsection \<open>Inspecting and journalling\<close>

definition frame_enter :: "side \<Rightarrow> frame_conn \<Rightarrow> frame_conn" where
  "frame_enter s fc =
     fc\<lparr>fc_cur := Some s, fc_settled := False, fc_fetching := False, fc_is_cached := False, fc_sha_set := False,
        fc_in_stack := True\<rparr>"

definition frame_inspect :: "frame_conf \<Rightarrow> frame_env \<Rightarrow> side \<Rightarrow> bytes \<Rightarrow> bytes option \<Rightarrow> frame_conn \<Rightarrow> rc \<times> frame_conn" where
  "frame_inspect cf v s payload key fc =
     (let (r, fc) = frame_begin v s payload key fc in
      if r \<noteq> NGX_OK then (NGX_ERROR, fc)
      else
        let fc = upd_dir s (fd_inspected_update (\<lambda>n. n + 1)) (frame_enter s fc);
            (r, fc) = fv_checks v fc
        in if r \<noteq> FRC NGX_DECLINED then frame_outcome cf v r (fc\<lparr>fc_in_stack := False\<rparr>)
           else
             let d = fc_dir fc s;
                 ttl = fk_cache_ttl cf (fd_phase d);
                 fc = (if ttl \<noteq> 0
                       then fc\<lparr>fc_sha256 := sha256_final (sha256_update (fc_body fc) (sha256_init (fv_stack v))),
                               fc_sha_set := True\<rparr>
                       else fc);
                 (hit, cache) = (if ttl \<noteq> 0
                                 then fcache_lookup (fc_now fc) (fc_route_hash fc) (fd_phase d) (fd_opcode d)
                                        (fc_sha256 fc) (fc_cache fc)
                                 else (NGX_DECLINED, fc_cache fc));
                 fc = fc\<lparr>fc_cache := cache\<rparr>
             in if hit = NGX_OK
                then
                  let fc = upd_dir s (fd_cached_update (\<lambda>n. n + 1)) (fc\<lparr>fc_is_cached := True\<rparr>);
                      fc = upd_fctx (\<lambda>c. (upd_ph (p_verdict_update (\<lambda>_. V_ALLOW)) c)
                             \<lparr>c_by_local := True, c_local_rule := ascii ''FRAME_CACHE'', c_state := ST_DONE\<rparr>) fc;
                      (r, fc) = fv_finish v fc
                  in frame_outcome cf v r (fc\<lparr>fc_in_stack := False\<rparr>)
                else
                  let (r, fc) = fv_waves v fc in frame_outcome cf v r (fc\<lparr>fc_in_stack := False\<rparr>))"

definition frame_journal :: "frame_conf \<Rightarrow> frame_env \<Rightarrow> side \<Rightarrow> bytes \<Rightarrow> bytes option \<Rightarrow> frame_conn \<Rightarrow> rc \<times> frame_conn" where
  "frame_journal cf v s payload key fc =
     (let (r, fc) = frame_begin v s payload key fc in
      if r \<noteq> NGX_OK then (NGX_ERROR, fc)
      else
        let fc = upd_dir s frame_clear (frame_enter s fc);
            fc = upd_fctx (\<lambda>c. (upd_ph (\<lambda>p. p\<lparr>p_body_ready := True, p_agent_settled := True\<rparr>) c)\<lparr>c_state := ST_DONE\<rparr>) fc;
            (r, fc) = fv_finish v fc
        in frame_outcome cf v r (fc\<lparr>fc_in_stack := False\<rparr>))"

text \<open>The end of a frame phase, as the handler calls it.\<close>

definition frame_finish :: "frame_env \<Rightarrow> finish_how \<Rightarrow> frame_conn \<Rightarrow> frc \<times> frame_conn" where
  "frame_finish v how fc =
     (if fc_cur fc = None then (FRC NGX_OK, fc)
      else case how of
        FINISH_APPLY \<Rightarrow>
          if p_verdict (ph (fc_ctx fc)) \<in> {V_DENY, V_REDIRECT} then (NGX_ABORT, frame_deny_close v fc)
          else (FRC NGX_OK, fc)
      | FINISH_OVERRIDES \<Rightarrow> (FRC NGX_OK, fc)
      | FINISH_FAIL \<Rightarrow>
          (NGX_ABORT, frame_set_close WS_CLOSE_INTERNAL (ascii ''inspection unavailable'') ''no verdict, policy block'' fc))"

text \<open>What the caller does next: nothing, pump both directions, or end the connection.\<close>

datatype frame_next = F_WAIT | F_RUN | F_FINALIZE rc

definition close_rc :: "frame_conn \<Rightarrow> rc" where
  "close_rc fc = (if fc_close_code fc \<noteq> 0 then NGX_OK else NGX_ERROR)"

definition frame_resume :: "frame_conf \<Rightarrow> frame_env \<Rightarrow> frame_conn \<Rightarrow> frame_next \<times> frame_conn" where
  "frame_resume cf v fc =
     (let fc = upd_fctx (\<lambda>c. c\<lparr>c_waiting := False\<rparr>) fc in
      if fc_settled fc \<or> fc_cur fc = None then (F_WAIT, fc)
      else
        let (r, fc) = fv_resume v fc in
        if r = FRC NGX_DONE then (F_WAIT, fc)
        else
          let fc = frame_apply cf v r fc
          in (if fc_in_stack fc \<or> fc_fetching fc then F_WAIT else F_RUN, fc))"

text \<open>The answer of the store: its status and the object.\<close>

definition frame_fetched :: "frame_conf \<Rightarrow> frame_env \<Rightarrow> rc \<Rightarrow> bytes \<Rightarrow> frame_conn \<Rightarrow> frame_next \<times> frame_conn" where
  "frame_fetched cf v status data fc =
     (if \<not> fc_fetching fc \<or> fc_cur fc = None then (F_WAIT, fc)
      else
        let fc = (if status = NGX_OK
                  then let (r, fc) = frame_swap cf v data fc
                       in if r \<noteq> NGX_OK then frame_rewrite_fail cf v fc else fc
                  else frame_rewrite_fail cf v fc);
            fc = frame_settle cf v (if fc_closing fc then FRC NGX_ERROR else FRC NGX_OK) fc
        in (if fc_in_stack fc then F_WAIT else if fc_closing fc then F_FINALIZE (close_rc fc) else F_RUN, fc))"

subsection \<open>The parser on a connection\<close>

definition conn_audit_set :: "frame_conn \<Rightarrow> set_mode" where
  "conn_audit_set fc =
     (if fc_ctl_init fc then o_set (ovr_audit (fc_conn_audit fc))
      else o_set (ovr_audit (c_audit_ovr (fc_ctx fc) OVR_REQUEST)))"

text \<open>\<open>None\<close> when the loop of the parser does not end.\<close>

definition frame_parse_conn :: "frame_conf \<Rightarrow> frame_env \<Rightarrow> side \<Rightarrow> frame_conn \<Rightarrow> (rc \<times> frame_conn) option" where
  "frame_parse_conn cf v s fc =
     (case frame_parse cf (fc_now fc) (conn_audit_set fc) (fc_dir fc s) of
        None \<Rightarrow> None
      | Some (act, d) \<Rightarrow>
          let fc = upd_dir s (\<lambda>_. d) fc in
          Some (case act of
                  A_AGAIN \<Rightarrow> (NGX_AGAIN, fc)
                | A_CLOSE code reason why \<Rightarrow> (NGX_OK, frame_set_close code (ascii reason) why fc)
                | A_JOURNAL payload key \<Rightarrow> (NGX_OK, snd (frame_journal cf v s payload key fc))
                | A_INSPECT payload key \<Rightarrow> (NGX_OK, snd (frame_inspect cf v s payload key fc))))"

subsection \<open>Pumping bytes\<close>

text \<open>The steps of a turn of \<open>ngx_http_waf_frame_pump\<close> on a direction: what the receiver took of the
  cleared bytes, the replaced frame that goes, what it took of the new one, moving the rest to the
  front, and what arrives.\<close>

definition pump_sent :: "nat \<Rightarrow> frame_dir \<Rightarrow> frame_dir" where
  "pump_sent n d = d\<lparr>fd_pos := fd_pos d + n, fd_bytes := fd_bytes d + n\<rparr>"

definition pump_drop :: "frame_dir \<Rightarrow> frame_dir" where
  "pump_drop d =
     (if fd_drop d \<noteq> 0 \<and> fd_pos d = fd_cleared d
      then d\<lparr>fd_pos := fd_pos d + fd_drop d, fd_cleared := fd_pos d + fd_drop d, fd_drop := 0\<rparr>
      else d)"

definition out_bytes :: "frame_dir \<Rightarrow> bytes" where
  "out_bytes d = (case fd_out d of Some xs \<Rightarrow> xs | None \<Rightarrow> [])"

definition pump_out :: "nat \<Rightarrow> frame_dir \<Rightarrow> frame_dir" where
  "pump_out n d = d\<lparr>fd_out := map_option (drop n) (fd_out d), fd_bytes := fd_bytes d + n\<rparr>"

definition pump_compact :: "bool \<Rightarrow> frame_dir \<Rightarrow> frame_dir" where
  "pump_compact current d =
     (if fd_pos d = fd_cleared d \<and> \<not> current \<and> fd_drop d = 0 \<and> fd_pos d \<noteq> 0
      then d\<lparr>fd_buf := drop (fd_pos d) (fd_buf d), fd_pos := 0, fd_cleared := 0\<rparr>
      else d)"

definition pump_room :: "frame_dir \<Rightarrow> nat" where
  "pump_room d =
     (let size = fd_end d - length (fd_buf d) in if size > FRAME_SLACK then size - FRAME_SLACK else 0)"

definition pump_recv :: "bytes \<Rightarrow> frame_dir \<Rightarrow> frame_dir" where
  "pump_recv data d = d\<lparr>fd_buf := fd_buf d @ data\<rparr>"

definition pump_parses :: "bool \<Rightarrow> frame_dir \<Rightarrow> bool" where
  "pump_parses idle d \<longleftrightarrow> (idle \<or> fd_mode d = FRAME_PASS) \<and> fd_drop d = 0 \<and> out_bytes d = []"

definition frame_idle :: "frame_conn \<Rightarrow> side \<Rightarrow> bool" where
  "frame_idle fc s \<longleftrightarrow>
     fc_cur fc \<noteq> Some s \<and> fd_drop (fc_dir fc s) = 0 \<and> fd_pos (fc_dir fc s) = fd_cleared (fc_dir fc s)
     \<and> out_bytes (fc_dir fc s) = []"

text \<open>What the sockets answer in one turn: the bytes there are to read (none when the source is not ready,
  at its end or broken); of a send the outer \<open>None\<close> is an error and \<open>Some None\<close> a socket that is not ready.\<close>

record pump_io =
  io_send :: "nat option option"
  io_send_out :: "nat option option"
  io_recv :: bytes

datatype pump_end = PUMP_GO | PUMP_BREAK | PUMP_RETURN

definition pump_fail :: "side \<Rightarrow> frame_conn \<Rightarrow> frame_conn" where
  "pump_fail s fc =
     fc\<lparr>fc_close_why := Some (if s = C2S then ''upstream send failed'' else ''client send failed''), fc_closing := True\<rparr>"

text \<open>The part of a turn behind the parser: \<open>r\<close> is what the parser returned.\<close>

definition pump_tail :: "side \<Rightarrow> rc \<Rightarrow> pump_io \<Rightarrow> frame_conn \<Rightarrow> pump_end \<times> frame_conn" where
  "pump_tail s r io fc =
     (let fc = upd_dir s (pump_compact (fc_cur fc = Some s)) fc in
      if pump_room (fc_dir fc s) > 0 \<and> io_recv io \<noteq> []
      then (PUMP_GO, upd_dir s (pump_recv (take (pump_room (fc_dir fc s)) (io_recv io))) fc)
      else (if r = NGX_OK \<and> fc_cur fc = None then PUMP_GO else PUMP_BREAK, fc))"

definition pump_after :: "side \<Rightarrow> rc \<Rightarrow> pump_io \<Rightarrow> frame_conn \<Rightarrow> pump_end \<times> frame_conn" where
  "pump_after s r io fc =
     (let d = fc_dir fc s; size = fd_cleared d - fd_pos d in
      if size > 0 \<and> io_send io = None then (PUMP_RETURN, pump_fail s fc)
      else
        let n = (if size > 0 then case io_send io of Some (Some n) \<Rightarrow> min n size | _ \<Rightarrow> 0 else 0);
            fc = upd_dir s (pump_drop \<circ> pump_sent n) fc;
            d = fc_dir fc s;
            left = length (out_bytes d)
        in if fd_drop d = 0 \<and> left > 0
           then (case io_send_out io of
                   None \<Rightarrow> (PUMP_RETURN, pump_fail s fc)
                 | Some k \<Rightarrow>
                     let k = (case k of Some k \<Rightarrow> min k left | None \<Rightarrow> 0);
                         fc = upd_dir s (pump_out k) fc
                     in if k > 0 \<and> k = left then (PUMP_GO, fc) else pump_tail s r io fc)
           else pump_tail s r io fc)"

definition pump_turn :: "frame_conf \<Rightarrow> frame_env \<Rightarrow> side \<Rightarrow> pump_io \<Rightarrow> frame_conn \<Rightarrow> (pump_end \<times> frame_conn) option" where
  "pump_turn cf v s io fc =
     (if pump_parses (fc_cur fc = None) (fc_dir fc s)
      then (case frame_parse_conn cf v s fc of
              None \<Rightarrow> None
            | Some (r, fc) \<Rightarrow> Some (if fc_closing fc then (PUMP_RETURN, fc) else pump_after s r io fc))
      else Some (pump_after s NGX_AGAIN io fc))"

text \<open>\<open>ios\<close> are the answers of the sockets, turn by turn: \<open>None\<close> when they run out before the loop breaks.\<close>

fun frame_pump :: "frame_conf \<Rightarrow> frame_env \<Rightarrow> side \<Rightarrow> pump_io list \<Rightarrow> frame_conn \<Rightarrow> frame_conn option" where
  "frame_pump cf v s [] fc = None"
| "frame_pump cf v s (io # ios) fc =
     (case pump_turn cf v s io fc of
        None \<Rightarrow> None
      | Some (PUMP_GO, fc) \<Rightarrow> frame_pump cf v s ios fc
      | Some (_, fc) \<Rightarrow> Some fc)"

definition frame_run :: "frame_conf \<Rightarrow> frame_env \<Rightarrow> pump_io list \<Rightarrow> pump_io list \<Rightarrow> frame_conn \<Rightarrow> (frame_next \<times> frame_conn) option" where
  "frame_run cf v ios ios' fc =
     (case frame_pump cf v C2S ios fc of
        None \<Rightarrow> None
      | Some fc \<Rightarrow>
          map_option (\<lambda>fc. (if fc_closing fc then F_FINALIZE (close_rc fc) else F_WAIT, fc))
            (if \<not> fc_closing fc then frame_pump cf v S2C ios' fc else Some fc))"

end
