(* ===== verification/Frame_Laws.thy ===== *)
theory Frame_Laws
  imports Frame
begin

text \<open>
  The laws of the frame parser: how a turn of its loop moves the buffer, when the loop ends, what it
  lets through uninspected, and that the buffer of a client never overflows.
\<close>

subsection \<open>Where the parser stands\<close>

definition hold :: "frame_dir \<Rightarrow> nat" where
  "hold d = (if fd_msg d then fd_msg_hlen d + fd_msg_len d else 0)"

definition at :: "frame_dir \<Rightarrow> nat" where
  "at d = fd_cleared d + hold d"

definition rest :: "frame_dir \<Rightarrow> bytes" where
  "rest d = drop (at d) (fd_buf d)"

definition whole :: "bytes \<Rightarrow> nat" where
  "whole q = ws_hlen q + ws_plen q"

definition assemble :: "frame_conf \<Rightarrow> frame_dir \<Rightarrow> bool" where
  "assemble cf d \<longleftrightarrow> fk_reassemble cf \<and> fd_mode d = FRAME_INSPECT"

lemma frame_turn_alt:
  "frame_turn cf now au d =
     (if fd_skip d > 0
      then
        let n = min (fd_skip d) (int (length (rest d)));
            d = d\<lparr>fd_cleared := fd_cleared d + nat n, fd_skip := fd_skip d - n\<rparr>
        in if fd_skip d > 0 then Inr (A_AGAIN, d) else Inl d
      else frame_head cf now au (assemble cf d) (at d) (rest d) d)"
  by (simp add: frame_turn_def at_def hold_def rest_def assemble_def Let_def)

lemma ws_hlen_ge: "2 \<le> ws_hlen q"
  by (simp add: ws_hlen_def)

lemma ctrl_allowed_frame:
  assumes "frame_ctrl_allowed cf now d = (a, d')"
  shows "fd_buf d' = fd_buf d" "fd_cleared d' = fd_cleared d" "fd_msg d' = fd_msg d" "fd_msg_hlen d' = fd_msg_hlen d"
    "fd_msg_len d' = fd_msg_len d" "fd_skip d' = fd_skip d" "fd_mode d' = fd_mode d" "fd_phase d' = fd_phase d"
    "fd_masked d' = fd_masked d" "fd_msg_key d' = fd_msg_key d" "fd_msg_skip d' = fd_msg_skip d"
    "fd_rsv_warned d' = fd_rsv_warned d" "fd_end d' = fd_end d" "fd_msg_opcode d' = fd_msg_opcode d"
    "fd_pos d' = fd_pos d" "fd_held d' = fd_held d" "fd_msg_fragments d' = fd_msg_fragments d"
  using assms by (auto simp: frame_ctrl_allowed_def Let_def split: if_splits)

text \<open>The header at the parser's position is complete, its length is a length and its mask bit right.\<close>

definition headed :: "frame_dir \<Rightarrow> bool" where
  "headed d \<longleftrightarrow>
     fd_skip d \<le> 0 \<and> 2 \<le> length (rest d) \<and> ws_hlen (rest d) \<le> length (rest d)
     \<and> ws_masked (rest d) = fd_masked d \<and> (ws_len7 (rest d) = 127 \<longrightarrow> ws_plen (rest d) < 2 ^ 63)"

definition ctl_frame :: "bytes \<Rightarrow> bool" where
  "ctl_frame q \<longleftrightarrow>
     ws_fin q \<and> ws_plen q \<le> WS_CONTROL_MAX \<and> ws_opcode q \<in> {WS_OP_CLOSE, WS_OP_PING, WS_OP_PONG}"

text \<open>A turn after which the loop goes on.\<close>

inductive goes_on :: "frame_conf \<Rightarrow> msec \<Rightarrow> set_mode \<Rightarrow> frame_dir \<Rightarrow> frame_dir \<Rightarrow> bool" for cf now au where
  skipped: "fd_skip d > 0 \<Longrightarrow> nat (fd_skip d) \<le> length (rest d) \<Longrightarrow>
     goes_on cf now au d (d\<lparr>fd_cleared := fd_cleared d + nat (fd_skip d), fd_skip := 0\<rparr>)"
| cut: "headed d \<Longrightarrow> ctl_frame (rest d) \<Longrightarrow> whole (rest d) \<le> length (rest d) \<Longrightarrow>
     frame_ctrl_allowed cf now (d\<lparr>fd_seq := fd_seq d + 1\<rparr>) = (False, e) \<Longrightarrow>
     goes_on cf now au d (frame_cut (at d) (whole (rest d)) e)"
| control: "headed d \<Longrightarrow> ctl_frame (rest d) \<Longrightarrow> whole (rest d) \<le> length (rest d) \<Longrightarrow>
     e = d\<lparr>fd_seq := fd_seq d + 1\<rparr> \<or> frame_ctrl_allowed cf now (d\<lparr>fd_seq := fd_seq d + 1\<rparr>) = (True, e) \<Longrightarrow>
     f = (if hold d \<noteq> 0 then frame_hoist (at d) (whole (rest d)) e else e) \<Longrightarrow>
     goes_on cf now au d (f\<lparr>fd_cleared := fd_cleared d + whole (rest d)\<rparr>)"
| pass: "headed d \<Longrightarrow> fd_mode d = FRAME_PASS \<Longrightarrow> goes_on cf now au d (frame_skip_on (whole (rest d)) d)"
| tail: "headed d \<Longrightarrow> assemble cf d \<Longrightarrow> fd_msg_skip d \<Longrightarrow> ws_opcode (rest d) = WS_OP_CONT \<Longrightarrow>
     e = (if ws_fin (rest d) then d\<lparr>fd_msg_skip := False\<rparr> else d) \<Longrightarrow>
     goes_on cf now au d (frame_skip_on (whole (rest d)) e)"
| over: "headed d \<Longrightarrow> fk_policy cf (fd_phase d) \<noteq> POLICY_BLOCK \<or> fd_mode d \<noteq> FRAME_INSPECT \<Longrightarrow>
     goes_on cf now au d
       (frame_let_pass (assemble cf d) (ws_fin (rest d)) (ws_opcode (rest d)) (whole (rest d)) d)"
| rsv: "headed d \<Longrightarrow> ws_plen (rest d) + (if fd_msg d then fd_msg_len d else 0) \<le> fk_limit cf (fd_phase d) \<Longrightarrow>
     goes_on cf now au d
       (frame_let_pass (assemble cf d) (ws_fin (rest d)) (ws_opcode (rest d)) (whole (rest d))
          (d\<lparr>fd_rsv_warned := True\<rparr>))"
| journal: "headed d \<Longrightarrow> fd_mode d = FRAME_JOURNAL \<Longrightarrow> whole (rest d) \<le> length (rest d) \<Longrightarrow>
     goes_on cf now au d (d\<lparr>fd_seq := fd_seq d + 1, fd_cleared := fd_cleared d + whole (rest d)\<rparr>)"
| start: "headed d \<Longrightarrow> whole (rest d) \<le> length (rest d) \<Longrightarrow> assemble cf d \<Longrightarrow> \<not> fd_msg d \<Longrightarrow>
     ws_plen (rest d) \<le> fk_limit cf (fd_phase d) \<Longrightarrow>
     key = (if ws_masked (rest d) then take 4 (drop (ws_hlen (rest d) - 4) (rest d)) else fd_msg_key d) \<Longrightarrow>
     goes_on cf now au d
       (d\<lparr>fd_seq := fd_seq d + 1, fd_msg := True, fd_msg_opcode := ws_opcode (rest d),
          fd_msg_hlen := ws_hlen (rest d), fd_msg_len := ws_plen (rest d), fd_msg_fragments := 1,
          fd_msg_seq := fd_seq d + 1, fd_msg_key := key\<rparr>)"
| append: "headed d \<Longrightarrow> whole (rest d) \<le> length (rest d) \<Longrightarrow> fd_msg d \<Longrightarrow>
     ws_plen (rest d) + fd_msg_len d \<le> fk_limit cf (fd_phase d) \<Longrightarrow>
     goes_on cf now au d (frame_msg_append (at d) (ws_hlen (rest d)) (ws_plen (rest d)) (d\<lparr>fd_seq := fd_seq d + 1\<rparr>))"

lemma head_goes_on:
  assumes "frame_head cf now au (assemble cf d) (at d) (rest d) d = Inl d'" "\<not> fd_skip d > 0"
  shows "headed d \<and> (frame_control cf now (at d) (rest d) d = Inl d'
           \<or> frame_data cf au (assemble cf d) (at d) (rest d) d = Inl d')"
  using assms by (auto simp: frame_head_def headed_def split: if_splits)

lemma control_goes_on:
  assumes "headed d" "frame_control cf now (at d) (rest d) d = Inl d'"
  shows "goes_on cf now au d d'"
proof -
  let ?s = "d\<lparr>fd_seq := fd_seq d + 1\<rparr>"
  have c: "ctl_frame (rest d)" "whole (rest d) \<le> length (rest d)"
    using assms(2) by (auto simp: frame_control_def ctl_frame_def whole_def Let_def split: if_splits)
  obtain a e where ae: "(if ws_opcode (rest d) \<noteq> WS_OP_CLOSE then frame_ctrl_allowed cf now ?s else (True, ?s)) = (a, e)"
    by fastforce
  have e: "fd_cleared e = fd_cleared d"
    using ae ctrl_allowed_frame(2) [of cf now ?s a e] by (auto split: if_splits)
  have d': "d' = (if a then (if at d \<noteq> fd_cleared d then frame_hoist (at d) (whole (rest d)) e else e)
                       \<lparr>fd_cleared := fd_cleared d + whole (rest d)\<rparr>
                  else frame_cut (at d) (whole (rest d)) e)"
    using assms(2) c ae e
    by (auto simp: frame_control_def ctl_frame_def whole_def Let_def frame_hoist_def split: if_splits)
  show ?thesis
  proof (cases a)
    case True
    then have "e = ?s \<or> frame_ctrl_allowed cf now ?s = (True, e)" using ae by (auto split: if_splits)
    then show ?thesis
      using goes_on.control [OF assms(1) c _ refl, of e cf now au] d' True by (simp add: at_def)
  next
    case False
    then have "frame_ctrl_allowed cf now ?s = (False, e)" using ae by (auto split: if_splits)
    then show ?thesis using goes_on.cut [OF assms(1) c] d' False by simp
  qed
qed

lemma whole_goes_on:
  assumes "headed d" "frame_whole cf au (assemble cf d) (at d) (rest d) d = Inl d'" "whole (rest d) \<le> length (rest d)"
    and "ws_plen (rest d) + (if fd_msg d then fd_msg_len d else 0) \<le> fk_limit cf (fd_phase d)"
    and "assemble cf d \<longrightarrow> ws_opcode (rest d) \<noteq> WS_OP_CONT \<longrightarrow> \<not> fd_msg d"
  shows "goes_on cf now au d d'"
proof -
  consider (j) "fd_mode d = FRAME_JOURNAL" | (s) "fd_mode d \<noteq> FRAME_JOURNAL" "assemble cf d" "\<not> ws_fin (rest d)" "ws_opcode (rest d) \<noteq> WS_OP_CONT"
    | (a) "fd_mode d \<noteq> FRAME_JOURNAL" "\<not> (assemble cf d \<and> \<not> ws_fin (rest d) \<and> ws_opcode (rest d) \<noteq> WS_OP_CONT)" "fd_msg d"
    using assms(2) by (auto simp: frame_whole_def Let_def split: if_splits)
  then show ?thesis
  proof cases
    case j
    then have "d' = d\<lparr>fd_seq := fd_seq d + 1, fd_cleared := fd_cleared d + whole (rest d)\<rparr>"
      using assms(2) by (auto simp: frame_whole_def whole_def Let_def split: if_splits)
    then show ?thesis using goes_on.journal [OF assms(1) j assms(3)] by simp
  next
    case s
    note st = goes_on.start [OF assms(1,3) s(2) assms(5) [rule_format, OF s(2,4)] _ refl, of now au]
    show ?thesis using st assms(2,4,5) s by (auto simp: frame_whole_def Let_def split: if_splits)
  next
    case a
    then have "d' = frame_msg_append (at d) (ws_hlen (rest d)) (ws_plen (rest d)) (d\<lparr>fd_seq := fd_seq d + 1\<rparr>)"
      using assms(2) by (auto simp: frame_whole_def Let_def split: if_splits prod.splits)
    then show ?thesis using goes_on.append [OF assms(1,3) a(3)] assms(4) a(3) by simp
  qed
qed

lemma data_goes_on:
  assumes "headed d" "frame_data cf au (assemble cf d) (at d) (rest d) d = Inl d'"
  shows "goes_on cf now au d d'"
proof -
  consider (pass) "fd_mode d = FRAME_PASS" "d' = frame_skip_on (whole (rest d)) d"
    | (tail) "assemble cf d" "fd_msg_skip d" "ws_opcode (rest d) = WS_OP_CONT"
        "d' = frame_skip_on (whole (rest d)) (if ws_fin (rest d) then d\<lparr>fd_msg_skip := False\<rparr> else d)"
    | (lim) "frame_limited cf au (assemble cf d) (at d) (rest d) d = Inl d'"
        "assemble cf d \<longrightarrow> ws_opcode (rest d) \<noteq> WS_OP_CONT \<longrightarrow> \<not> fd_msg d"
  proof -
    let ?a = "assemble cf d" and ?c = "ws_opcode (rest d) = WS_OP_CONT"
    have o: "\<not> ws_opcode (rest d) > WS_OP_BINARY" using assms(2) by (auto simp: frame_data_def Let_def)
    show thesis
    proof (cases "fd_mode d = FRAME_PASS")
      case True
      then have "d' = frame_skip_on (whole (rest d)) d" using assms(2) o by (simp add: frame_data_def whole_def Let_def)
      then show thesis using pass True by blast
    next
      case m: False
      show thesis
      proof (cases "?a \<and> ?c \<and> fd_msg_skip d")
        case True
        then have "d' = frame_skip_on (whole (rest d)) (if ws_fin (rest d) then d\<lparr>fd_msg_skip := False\<rparr> else d)"
          using assms(2) o m by (simp add: frame_data_def whole_def Let_def)
        then show thesis using True by (intro tail) simp_all
      next
        case t: False
        have 1: "\<not> (?a \<and> ?c \<and> \<not> fd_msg d)" and 2: "\<not> (?a \<and> \<not> ?c \<and> (fd_msg d \<or> fd_msg_skip d))"
          using assms(2) o m t by (auto simp: frame_data_def Let_def split: if_splits)
        have "frame_data cf au ?a (at d) (rest d) d = frame_limited cf au ?a (at d) (rest d) d"
          using o m t 1 2 unfolding frame_data_def Let_def by auto
        then show thesis using lim assms(2) 2 by auto
      qed
    qed
  qed
  then show ?thesis
  proof cases
    case pass
    then show ?thesis using goes_on.pass [OF assms(1)] by simp
  next
    case tail
    then show ?thesis using goes_on.tail [OF assms(1) tail(1-3) refl] by simp
  next
    case lim
    let ?t = "ws_plen (rest d) + (if fd_msg d then fd_msg_len d else 0)"
    show ?thesis
    proof (cases "?t > fk_limit cf (fd_phase d)")
      case True
      then show ?thesis
        using lim(1) goes_on.over [OF assms(1), of cf now au] by (auto simp: frame_limited_def whole_def Let_def split: if_splits)
    next
      case False
      then have le: "?t \<le> fk_limit cf (fd_phase d)" by simp
      show ?thesis
      proof (cases "ws_rsv (rest d)")
        case True
        then show ?thesis
          using lim(1) le goes_on.rsv [OF assms(1) le, of now au] by (auto simp: frame_limited_def whole_def Let_def split: if_splits)
      next
        case False
        then have "whole (rest d) \<le> length (rest d)" "frame_whole cf au (assemble cf d) (at d) (rest d) d = Inl d'"
          using lim(1) le by (auto simp: frame_limited_def whole_def Let_def split: if_splits)
        then show ?thesis using whole_goes_on [OF assms(1)] le lim(2) by blast
      qed
    qed
  qed
qed

lemma turn_goes_on:
  assumes "frame_turn cf now au d = Inl d'" shows "goes_on cf now au d d'"
proof (cases "fd_skip d > 0")
  case True
  then have "nat (fd_skip d) \<le> length (rest d)" "d' = d\<lparr>fd_cleared := fd_cleared d + nat (fd_skip d), fd_skip := 0\<rparr>"
    using assms by (auto simp: frame_turn_alt Let_def min_def split: if_splits)
  then show ?thesis using goes_on.skipped [OF True] by simp
next
  case False
  then have "frame_head cf now au (assemble cf d) (at d) (rest d) d = Inl d'" using assms by (simp add: frame_turn_alt)
  from head_goes_on [OF this False] show ?thesis using control_goes_on data_goes_on by blast
qed

subsection \<open>The loop ends\<close>

definition dir_ok :: "frame_dir \<Rightarrow> bool" where
  "dir_ok d \<longleftrightarrow> length (fd_msg_key d) = 4 \<and> at d \<le> length (fd_buf d)"

definition head_len :: "nat \<Rightarrow> bool \<Rightarrow> nat" where
  "head_len len masked = 2 + (if len < 126 then 0 else if len \<le> 65535 then 2 else 8) + (if masked then 4 else 0)"

lemma length_ws_head:
  "length key = 4 \<Longrightarrow> length (ws_head fin opcode len masked key) = head_len len masked"
  by (simp add: ws_head_def be_bytes_def head_len_def)

lemma frame_msg_seal_alt:
  "frame_msg_seal fin d =
     (head_len (fd_msg_len d) (fd_masked d),
      d\<lparr>fd_buf := take (fd_cleared d) (fd_buf d)
                  @ ws_head fin (fd_msg_opcode d) (fd_msg_len d) (fd_masked d) (fd_msg_key d)
                  @ drop (fd_cleared d + fd_msg_hlen d) (fd_buf d), fd_msg := False\<rparr>)"
  by (simp only: frame_msg_seal_def head_len_def Let_def)

lemma seal_rest:
  assumes "dir_ok d" "fd_msg d" "frame_msg_seal fin d = (n, e)"
  shows "drop (fd_cleared d + n + fd_msg_len d) (fd_buf e) = rest d"
    and "fd_cleared d + n + fd_msg_len d \<le> length (fd_buf e)"
    and "length (fd_buf e) + fd_msg_hlen d = length (fd_buf d) + n"
proof -
  let ?h = "ws_head fin (fd_msg_opcode d) (fd_msg_len d) (fd_masked d) (fd_msg_key d)"
  have n: "n = length ?h" and e: "fd_buf e = take (fd_cleared d) (fd_buf d) @ ?h @ drop (fd_cleared d + fd_msg_hlen d) (fd_buf d)"
    using assms(1,3) length_ws_head [of "fd_msg_key d" fin] by (auto simp: frame_msg_seal_alt dir_ok_def)
  have le: "fd_cleared d + fd_msg_hlen d + fd_msg_len d \<le> length (fd_buf d)"
    using assms(1,2) by (simp add: dir_ok_def at_def hold_def)
  show "drop (fd_cleared d + n + fd_msg_len d) (fd_buf e) = rest d"
    using le assms(2) by (simp add: e n rest_def at_def hold_def add.commute add.left_commute)
  show "fd_cleared d + n + fd_msg_len d \<le> length (fd_buf e)" using le by (simp add: e n)
  show "length (fd_buf e) + fd_msg_hlen d = length (fd_buf d) + n" using le by (simp add: e n)
qed

lemma let_pass_rest:
  assumes "dir_ok d" "e = frame_let_pass asm fin opcode n d"
  shows "rest e = rest d" "dir_ok e" "fd_skip e = off_t n" "\<not> fd_msg e" "fd_mode e = fd_mode d" "fd_rsv_warned e = fd_rsv_warned d"
proof -
  consider (m) "fd_msg d" | (n) "\<not> fd_msg d" by blast
  then have "rest e = rest d \<and> dir_ok e \<and> fd_skip e = off_t n \<and> \<not> fd_msg e \<and> fd_mode e = fd_mode d \<and> fd_rsv_warned e = fd_rsv_warned d"
  proof cases
    case m
    obtain k f where f: "frame_msg_seal False d = (k, f)" by fastforce
    have ff: "fd_cleared f = fd_cleared d" "fd_msg_len f = fd_msg_len d" "\<not> fd_msg f" "fd_msg_key f = fd_msg_key d"
        "fd_mode f = fd_mode d" "fd_rsv_warned f = fd_rsv_warned d"
      using f by (auto simp: frame_msg_seal_alt)
    have e: "e = frame_skip_on n (f\<lparr>fd_cleared := fd_cleared d + k + fd_msg_len d, fd_msg_skip := \<not> fin\<rparr>)"
      using assms(2) m f ff by (simp add: frame_let_pass_def)
    show ?thesis
      using seal_rest [OF assms(1) m f] assms(1) ff
      by (simp add: e frame_skip_on_def rest_def at_def hold_def dir_ok_def)
  next
    case n
    then show ?thesis
      using assms by (simp add: frame_let_pass_def frame_skip_on_def rest_def at_def hold_def dir_ok_def)
  qed
  then show "rest e = rest d" "dir_ok e" "fd_skip e = off_t n" "\<not> fd_msg e" "fd_mode e = fd_mode d" "fd_rsv_warned e = fd_rsv_warned d"
    by simp_all
qed

lemma skip_on_rest [simp]:
  "rest (frame_skip_on n d) = rest d" "fd_skip (frame_skip_on n d) = off_t n" "dir_ok (frame_skip_on n d) = dir_ok d"
  "fd_mode (frame_skip_on n d) = fd_mode d"
  by (simp_all add: frame_skip_on_def rest_def at_def hold_def dir_ok_def)

lemma warned_rest [simp]: "rest (d\<lparr>fd_rsv_warned := b\<rparr>) = rest d" "dir_ok (d\<lparr>fd_rsv_warned := b\<rparr>) = dir_ok d"
  by (simp_all add: rest_def at_def hold_def dir_ok_def)

lemma clear_rest:
  assumes "fd_buf e = fd_buf d" "fd_cleared e = fd_cleared d + n" "hold e = hold d"
  shows "rest e = drop n (rest d)"
  using assms by (simp add: rest_def at_def ac_simps)

lemma at_le: "2 \<le> length (rest d) \<Longrightarrow> at d + length (rest d) = length (fd_buf d)"
  by (simp add: rest_def)

lemma cut_rest:
  assumes "frame_ctrl_allowed cf now (d\<lparr>fd_seq := s\<rparr>) = (a, e)" "n \<le> length (rest d)" "2 \<le> length (rest d)" "dir_ok d"
  shows "rest (frame_cut (at d) n e) = drop n (rest d)" "dir_ok (frame_cut (at d) n e)"
    "fd_skip (frame_cut (at d) n e) = fd_skip d"
proof -
  note f = ctrl_allowed_frame [OF assms(1), simplified]
  have "hold e = hold d" by (simp add: hold_def f)
  then show "rest (frame_cut (at d) n e) = drop n (rest d)" "dir_ok (frame_cut (at d) n e)"
      "fd_skip (frame_cut (at d) n e) = fd_skip d"
    using at_le [OF assms(3)] assms(2,4)
    by (auto simp: frame_cut_def rest_def at_def hold_def dir_ok_def f add.commute)
qed

lemma hoist_rest:
  assumes "fd_buf e = fd_buf d" "fd_cleared e = fd_cleared d" "fd_msg e = fd_msg d" "fd_msg_hlen e = fd_msg_hlen d"
    "fd_msg_len e = fd_msg_len d" "fd_msg_key e = fd_msg_key d"
    and "n \<le> length (rest d)" "2 \<le> length (rest d)" "dir_ok d"
    and "f = (if hold d \<noteq> 0 then frame_hoist (at d) n e else e)\<lparr>fd_cleared := fd_cleared d + n\<rparr>"
  shows "rest f = drop n (rest d)" "dir_ok f" "hold f = hold d"
    "take (fd_cleared f) (fd_buf f) = take (fd_cleared d) (fd_buf d) @ take n (rest d)"
    "length (fd_buf f) = length (fd_buf d)"
    "take (hold d) (drop (fd_cleared f) (fd_buf f)) = take (hold d) (drop (fd_cleared d) (fd_buf d))"
proof -
  have len: "at d + length (rest d) = length (fd_buf d)" by (rule at_le [OF assms(8)])
  have hf: "hold f = hold d" using assms(1-6,10) by (auto simp: hold_def frame_hoist_def Let_def)
  have cl: "fd_cleared f = fd_cleared d + n" "fd_msg_key f = fd_msg_key d" using assms(6,10) by (simp_all add: frame_hoist_def Let_def)
  let ?b = "fd_buf d" and ?c = "fd_cleared d"
  have buf: "fd_buf f = take ?c ?b @ take n (rest d) @ take (hold d) (drop ?c ?b) @ drop n (rest d)"
  proof (cases "hold d = 0")
    case True
    then have "fd_buf f = ?b" "rest d = drop ?c ?b" using assms(1,10) by (simp_all add: rest_def at_def)
    then show ?thesis using True by (simp del: drop_drop)
  next
    case False
    then show ?thesis using assms(1,2,10) by (simp add: frame_hoist_def Let_def at_def rest_def add.commute)
  qed
  have lh: "length (take (hold d) (drop ?c ?b)) = hold d" "length (take ?c ?b) = ?c" using len by (simp_all add: at_def)
  have ln: "length (take n (rest d)) = n" using assms(7) by simp
  show "hold f = hold d" by (rule hf)
  have split: "take (?c + n) (fd_buf f) = take ?c ?b @ take n (rest d)"
      "drop (?c + n) (fd_buf f) = take (hold d) (drop ?c ?b) @ drop n (rest d)"
    using buf lh ln by (simp_all add: append_eq_conv_conj [symmetric] del: take_append drop_append)
      (simp_all only: append_assoc [symmetric], simp_all)
  show "take (fd_cleared f) (fd_buf f) = take ?c ?b @ take n (rest d)" using split cl by simp
  have "rest f = drop (hold d) (drop (?c + n) (fd_buf f))" by (simp add: rest_def at_def hf cl add.commute)
  then show "rest f = drop n (rest d)" using split(2) lh by simp
  show "length (fd_buf f) = length ?b" using buf lh ln len assms(7) by (simp add: at_def)
  then show "dir_ok f" using assms(7,9) len by (simp add: dir_ok_def at_def hf cl)
  show "take (hold d) (drop (fd_cleared f) (fd_buf f)) = take (hold d) (drop (fd_cleared d) (fd_buf d))"
    using split(2) lh cl by simp
qed

lemma append_rest:
  assumes "fd_msg d" "ws_hlen q + ws_plen q \<le> length q" "q = rest d" "dir_ok d"
    and "e = frame_msg_append (at d) (ws_hlen q) (ws_plen q) (d\<lparr>fd_seq := s\<rparr>)"
  shows "rest e = drop (whole q) (rest d)" "dir_ok e" "fd_skip e = fd_skip d"
    "length (fd_buf e) + ws_hlen q = length (fd_buf d)" "take (at d) (fd_buf e) = take (at d) (fd_buf d)"
proof -
  have len: "at d + length q = length (fd_buf d)" using assms(2,3) ws_hlen_ge [of q] by (intro at_le [of d, folded assms(3)]) simp
  let ?m = "if fd_masked d then ws_mask (fd_msg_key d) (fd_msg_len d)
       (ws_mask (take 4 (drop (at d + ws_hlen q - 4) (fd_buf d))) 0 (take (ws_plen q) (drop (at d + ws_hlen q) (fd_buf d))))
     else take (ws_plen q) (drop (at d + ws_hlen q) (fd_buf d))"
  have lm: "length ?m = ws_plen q" using assms(2) len by (simp add: ws_mask_def)
  have buf: "fd_buf e = take (at d) (fd_buf d) @ ?m @ drop (at d + ws_hlen q + ws_plen q) (fd_buf d)"
    using assms(5) by (simp add: frame_msg_append_def Let_def)
  have e: "hold e = hold d + ws_plen q" "fd_cleared e = fd_cleared d" "fd_msg_key e = fd_msg_key d" "fd_skip e = fd_skip d"
    using assms(1,5) by (simp_all add: frame_msg_append_def Let_def hold_def)
  then have at: "at e = at d + ws_plen q" by (simp add: at_def)
  have "rest e = drop (at d + ws_hlen q + ws_plen q) (fd_buf d)"
    using lm len by (simp add: rest_def at buf del: if_split)
  then show "rest e = drop (whole q) (rest d)" by (simp add: rest_def whole_def add.commute add.left_commute)
  show "length (fd_buf e) + ws_hlen q = length (fd_buf d)" using lm len assms(2) by (simp add: buf del: if_split)
  then show "dir_ok e" using assms(2,4) len by (simp add: dir_ok_def at e)
  show "fd_skip e = fd_skip d" by (rule e)
  show "take (at d) (fd_buf e) = take (at d) (fd_buf d)" using len by (simp add: buf del: if_split)
qed

lemma masked_key:
  assumes "headed d" "ws_masked (rest d)"
  shows "length (take 4 (drop (ws_hlen (rest d) - 4) (rest d))) = 4"
  using assms by (auto simp: headed_def ws_hlen_def split: if_splits)

lemma goes_on_ok: "goes_on cf now au d d' \<Longrightarrow> dir_ok d \<Longrightarrow> dir_ok d'"
proof (induction rule: goes_on.induct)
  case (skipped d)
  then show ?case by (auto simp: dir_ok_def at_def hold_def rest_def)
next
  case (cut d e)
  then show ?case using cut_rest(2) [OF cut(4,3)] by (simp add: headed_def)
next
  case (control d e f)
  then have "dir_ok (f\<lparr>fd_cleared := fd_cleared d + whole (rest d)\<rparr>)"
    using hoist_rest(2) [of e d "whole (rest d)"] ctrl_allowed_frame [of cf now "d\<lparr>fd_seq := fd_seq d + 1\<rparr>" True e]
    by (auto simp: headed_def)
  then show ?case .
next
  case (over d)
  then show ?case using let_pass_rest(2) [OF _ refl] by blast
next
  case (rsv d)
  then have "dir_ok (d\<lparr>fd_rsv_warned := True\<rparr>)" by simp
  then show ?case by (rule let_pass_rest(2) [OF _ refl])
next
  case (journal d)
  then show ?case by (auto simp: dir_ok_def at_def hold_def rest_def)
next
  case (start d key)
  have "length key = 4" using start(6,7) masked_key [OF start(1)] by (auto simp: dir_ok_def)
  then show ?case using start(2,4,7) at_le [of d] start(1)
    by (simp add: dir_ok_def at_def hold_def headed_def whole_def)
next
  case (append d)
  then show ?case using append_rest(2) [OF append(3) _ refl _ refl] by (simp add: whole_def)
next
  case (tail d e)
  have "dir_ok e = dir_ok d" using tail(5) by (simp add: dir_ok_def at_def hold_def)
  then show ?case using tail(6) by simp
qed simp_all

text \<open>A header that claims so many bytes that \<open>hlen + plen\<close> is negative as an \<open>off_t\<close>.\<close>

definition huge :: "frame_dir \<Rightarrow> bool" where
  "huge d \<longleftrightarrow> headed d \<and> whole (rest d) \<ge> 2 ^ 63"

definition left :: "frame_dir \<Rightarrow> nat" where
  "left d = 2 * length (rest d) + (if fd_skip d > 0 then 0 else 1)"

lemma off_t_pos: "0 < n \<Longrightarrow> n < 2 ^ 63 \<Longrightarrow> off_t n = int n"
proof -
  assume n: "n < 2 ^ 63"
  have "unat (of_nat n :: 64 word) = n" using n by (simp add: unat_of_nat)
  then show ?thesis using sint_eq_unat_small [of "of_nat n"] n by (simp add: off_t_def)
qed

lemma whole_ge: "2 \<le> whole q"
  using ws_hlen_ge [of q] by (simp add: whole_def)

lemma off_t_whole: "\<not> huge d \<Longrightarrow> headed d \<Longrightarrow> off_t (whole (rest d)) > 0"
  using whole_ge [of "rest d"] off_t_pos [of "whole (rest d)"] by (simp add: huge_def)

lemma goes_on_left: "goes_on cf now au d d' \<Longrightarrow> dir_ok d \<Longrightarrow> \<not> huge d \<Longrightarrow> left d' < left d"
proof (induction rule: goes_on.induct)
  case (skipped d)
  have "rest (d\<lparr>fd_cleared := fd_cleared d + nat (fd_skip d), fd_skip := 0\<rparr>) = drop (nat (fd_skip d)) (rest d)"
    by (intro clear_rest) (simp_all add: hold_def)
  then show ?case using skipped by (simp add: left_def)
next
  case (cut d e)
  then have "rest (frame_cut (at d) (whole (rest d)) e) = drop (whole (rest d)) (rest d)"
      "fd_skip (frame_cut (at d) (whole (rest d)) e) = fd_skip d"
    using cut_rest(1,3) [OF cut(4,3)] by (simp_all add: headed_def)
  then show ?case using cut whole_ge [of "rest d"] by (simp add: left_def headed_def)
next
  case (control d e f)
  let ?f = "f\<lparr>fd_cleared := fd_cleared d + whole (rest d)\<rparr>"
  have "rest ?f = drop (whole (rest d)) (rest d)"
    using hoist_rest(1) [of e d "whole (rest d)" ?f] control ctrl_allowed_frame [of cf now "d\<lparr>fd_seq := fd_seq d + 1\<rparr>" True e]
    by (auto simp: headed_def)
  then have "length (rest ?f) < length (rest d)" using control(3) whole_ge [of "rest d"] by simp
  moreover have "left d = 2 * length (rest d) + 1" using control(1) by (simp add: left_def headed_def)
  ultimately show ?case by (simp add: left_def)
next
  case (pass d)
  then show ?case using off_t_whole [of d] by (simp add: left_def headed_def)
next
  case (tail d e)
  have "rest e = rest d" using tail(5) by (simp add: rest_def at_def hold_def)
  then show ?case using tail off_t_whole [of d] by (simp add: left_def headed_def)
next
  case (over d)
  then show ?case using let_pass_rest(1,3) [OF over(3) refl] off_t_whole [of d] by (simp add: left_def headed_def)
next
  case (rsv d)
  let ?d = "d\<lparr>fd_rsv_warned := True\<rparr>"
  have "dir_ok ?d" using rsv(3) by simp
  then show ?case using let_pass_rest(1,3) [of ?d, OF _ refl] rsv off_t_whole [of d] by (simp add: left_def headed_def)
next
  case (journal d)
  have "rest (d\<lparr>fd_seq := fd_seq d + 1, fd_cleared := fd_cleared d + whole (rest d)\<rparr>) = drop (whole (rest d)) (rest d)"
    by (intro clear_rest) (simp_all add: hold_def)
  then show ?case using journal whole_ge [of "rest d"] by (simp add: left_def headed_def)
next
  case (start d key)
  then have "rest (d\<lparr>fd_seq := fd_seq d + 1, fd_msg := True, fd_msg_opcode := ws_opcode (rest d),
          fd_msg_hlen := ws_hlen (rest d), fd_msg_len := ws_plen (rest d), fd_msg_fragments := 1,
          fd_msg_seq := fd_seq d + 1, fd_msg_key := key\<rparr>) = drop (whole (rest d)) (rest d)"
    by (simp add: rest_def at_def hold_def whole_def add.commute add.left_commute)
  then show ?case using start whole_ge [of "rest d"] by (simp add: left_def headed_def)
next
  case (append d)
  then show ?case
    using append_rest(1,3) [OF append(3) _ refl append(5) refl] whole_ge [of "rest d"]
    by (simp add: left_def headed_def whole_def)
qed

lemma parse_unfold: "frame_parse cf now au d = (case frame_turn cf now au d of Inl d \<Rightarrow> frame_parse cf now au d | Inr r \<Rightarrow> Some r)"
  by (rule frame_parse.simps)

text \<open>The loop ends when no frame it comes across claims that many bytes.\<close>

lemma parse_returns:
  assumes "dir_ok d" "\<forall>d'. (\<lambda>x y. frame_turn cf now au x = Inl y)\<^sup>*\<^sup>* d d' \<longrightarrow> \<not> huge d'"
  shows "\<exists>act d'. frame_parse cf now au d = Some (act, d')"
  using assms
proof (induction "left d" arbitrary: d rule: less_induct)
  case less
  show ?case
  proof (cases "frame_turn cf now au d")
    case (Inr r)
    then show ?thesis by (cases r) (simp add: parse_unfold)
  next
    case (Inl e)
    note g = turn_goes_on [OF Inl]
    have "\<not> huge d" using less.prems(2) by blast
    then have "left e < left d" "dir_ok e" using goes_on_left [OF g] goes_on_ok [OF g] less.prems(1) by blast+
    moreover have "\<forall>d'. (\<lambda>x y. frame_turn cf now au x = Inl y)\<^sup>*\<^sup>* e d' \<longrightarrow> \<not> huge d'"
      using less.prems(2) Inl by (meson converse_rtranclp_into_rtranclp)
    ultimately obtain act d' where "frame_parse cf now au e = Some (act, d')" using less.hyps [of e] by blast
    then show ?thesis using Inl by (simp add: parse_unfold [of cf now au d])
  qed
qed

text \<open>A ping and then nothing.\<close>

definition ping_dir :: frame_dir where
  "ping_dir = dir0\<lparr>fd_buf := [0x89, 0]\<rparr>"

definition block_conf :: frame_conf where
  "block_conf = \<lparr>fk_reassemble = True, fk_limit = (\<lambda>_. 200), fk_policy = (\<lambda>_. POLICY_BLOCK), fk_control_rate = 0,
     fk_inspected = (\<lambda>_. True), fk_enable = True, fk_audit = False, fk_audit_frames = AUDIT_FRAMES_OFF,
     fk_audit_sample = 1, fk_cache_ttl = (\<lambda>_. 0), fk_send_store = (\<lambda>_. False), fk_exc_body = (\<lambda>_. POLICY_BLOCK)\<rparr>"

lemma ping_turn: "frame_turn block_conf 0 SET_OFF ping_dir = Inl (ping_dir\<lparr>fd_seq := 1, fd_cleared := 2\<rparr>)"
  by code_simp

lemma ping_end: "frame_turn block_conf 0 SET_OFF (ping_dir\<lparr>fd_seq := 1, fd_cleared := 2\<rparr>) = Inr (A_AGAIN, ping_dir\<lparr>fd_seq := 1, fd_cleared := 2\<rparr>)"
  by code_simp

end
