(* ===== verification/Frame_Props.thy ===== *)
theory Frame_Props
  imports Frame_Laws
begin

text \<open>
  The properties of the frame parser: when it returns and when it does not, that an inspected direction
  lets nothing but control frames through, and that the buffer of a client is large enough.
\<close>

subsection \<open>The loop that does not end\<close>

lemma off_t_negative:
  assumes "2 ^ 63 \<le> n" "n < 2 ^ 64" shows "off_t n < 0"
proof -
  have u: "uint (of_nat n :: 64 word) = int n" using assms(2) by (simp add: uint_nat unat_of_nat)
  have d: "int n div 2 ^ 63 = 1" using assms by (intro int_div_pos_eq [of _ _ _ "int n - 2 ^ 63"]) auto
  have "int n mod 2 ^ 63 = int n - 2 ^ 63"
    using minus_div_mult_eq_mod [of "int n" "2 ^ 63"] by (simp only: d)
  then have "signed_take_bit 63 (int n) = int n - 2 ^ 64"
    using d assms(2) by (simp add: signed_take_bit_eq_take_bit_minus bit_iff_odd take_bit_eq_mod)
  then show ?thesis using assms(2) by (simp add: off_t_def sint_uint u)
qed

text \<open>The frames that hold the parser up: in a direction that only passes frames on, a data frame with
  the largest lengths the header check accepts.\<close>

definition stuck :: "frame_dir \<Rightarrow> bool" where
  "stuck d \<longleftrightarrow> fd_mode d = FRAME_PASS \<and> huge d \<and> ws_opcode (rest d) \<le> WS_OP_BINARY"

lemma len7_less: "ws_len7 q < 128"
proof -
  have "ws_len7 q = unat (take_bit 7 (q ! 1))"
    using take_bit_eq_mask [of 7 "q ! 1"] by (simp add: ws_len7_def mask_eq_exp_minus_1)
  then show ?thesis using take_bit_nat_less_exp [of 7] by (simp add: unsigned_take_bit_eq)
qed

lemma be_nat_less: "be_nat xs < 256 ^ length xs"
proof (induction xs rule: rev_induct)
  case (snoc b xs)
  have "unat b < 256" using unsigned_less [of b] by simp
  then show ?case using snoc by (simp add: be_nat_def)
qed (simp add: be_nat_def)

lemma whole_less: "headed d \<Longrightarrow> whole (rest d) < 2 ^ 63 + 14"
proof -
  assume h: "headed d"
  have "ws_hlen (rest d) \<le> 14" by (simp add: ws_hlen_def)
  moreover have "ws_plen (rest d) < 2 ^ 63"
  proof (cases "ws_len7 (rest d) = 127")
    case True
    then show ?thesis using h by (simp add: headed_def)
  next
    case False
    from be_nat_less [of "take 2 (drop 2 (rest d))"]
    have "be_nat (take 2 (drop 2 (rest d))) < 2 ^ 63"
      by (rule order_less_le_trans) (use power_increasing [of "length (take 2 (drop 2 (rest d)))" 2 "256 :: nat"] in simp)
    then show ?thesis using False len7_less [of "rest d"] by (simp add: ws_plen_def)
  qed
  ultimately show ?thesis by (simp add: whole_def)
qed

lemma stuck_turn:
  assumes "stuck d"
  shows "frame_turn cf now au d = Inl (frame_skip_on (whole (rest d)) d)" "stuck (frame_skip_on (whole (rest d)) d)"
proof -
  have h: "headed d" "fd_mode d = FRAME_PASS" "\<not> fd_skip d > 0" "ws_opcode (rest d) \<le> 2"
    using assms by (simp_all add: stuck_def huge_def headed_def)
  show "frame_turn cf now au d = Inl (frame_skip_on (whole (rest d)) d)"
    using h by (auto simp: frame_turn_alt frame_head_def frame_data_def headed_def whole_def Let_def)
  have "off_t (whole (rest d)) < 0"
    using assms whole_less [OF h(1)] by (intro off_t_negative) (simp_all add: stuck_def huge_def)
  moreover have "fd_masked (frame_skip_on n d) = fd_masked d" for n by (simp add: frame_skip_on_def)
  ultimately show "stuck (frame_skip_on (whole (rest d)) d)"
    using assms by (simp add: stuck_def huge_def headed_def)
qed

lemma returns_not_stuck: "frame_parse cf now au d = Some y \<Longrightarrow> \<not> stuck d"
proof (rule frame_parse.raw_induct [where P = "\<lambda>cf now au d y. \<not> stuck d"])
  fix parse and cf :: frame_conf and now au d y
  assume IH: "\<And>cf now au d y. parse cf now au d = Some y \<Longrightarrow> \<not> stuck d"
    and step: "(case frame_turn cf now au d of Inl d \<Rightarrow> parse cf now au d | Inr r \<Rightarrow> Some r) = Some y"
  show "\<not> stuck d"
  proof
    assume s: "stuck d"
    then have "parse cf now au (frame_skip_on (whole (rest d)) d) = Some y" using step by (simp add: stuck_turn(1))
    then have "\<not> stuck (frame_skip_on (whole (rest d)) d)" by (rule IH)
    then show False using stuck_turn(2) [OF s] by blast
  qed
qed assumption

lemma parse_hangs: "stuck d \<Longrightarrow> frame_parse cf now au d = None"
  using returns_not_stuck by (cases "frame_parse cf now au d") blast+

text \<open>
  C31: When a call of the parser returns. It does from any state of a direction in which the parser's
  positions lie inside the buffer, unless one of the frames it comes across claims \<open>2 ^ 63\<close> bytes or more
  with its header. It does not return on such a data frame in a direction that only passes frames on: the
  number of bytes to skip is negative as an \<open>off_t\<close>, and the loop reads the same header again.
\<close>

theorem frame_parse_returns:
  "(dir_ok d \<and> (\<forall>d'. (\<lambda>x y. frame_turn cf now au x = Inl y)\<^sup>*\<^sup>* d d' \<longrightarrow> \<not> huge d')
      \<longrightarrow> (\<exists>act d'. frame_parse cf now au d = Some (act, d')))
   \<and> (stuck d \<longrightarrow> frame_parse cf now au d = None)"
  using parse_returns parse_hangs by blast

definition hang_frame :: bytes where
  "hang_frame = [0x82, 0x7f, 0x7f, 0xff, 0xff, 0xff, 0xff, 0xff, 0xff, 0xff]"

theorem frame_parse_returns_witness:
  "(\<exists>act d'. frame_parse block_conf 0 SET_OFF ping_dir = Some (act, d'))
   \<and> frame_parse block_conf 0 SET_OFF (dir0\<lparr>fd_mode := FRAME_PASS, fd_buf := hang_frame\<rparr>) = None"
proof
  have "dir_ok ping_dir" by code_simp
  moreover have "\<not> huge ping_dir" "\<not> huge (ping_dir\<lparr>fd_seq := 1, fd_cleared := 2\<rparr>)"
    by (simp_all add: ping_dir_def dir0_def huge_def headed_def rest_def at_def hold_def whole_def ws_hlen_def ws_plen_def
        ws_len7_def ws_masked_def)
  moreover have "d = ping_dir \<or> d = ping_dir\<lparr>fd_seq := 1, fd_cleared := 2\<rparr>"
    if "(\<lambda>x y. frame_turn block_conf 0 SET_OFF x = Inl y)\<^sup>*\<^sup>* ping_dir d" for d
    using that by (induction rule: rtranclp_induct) (auto simp: ping_turn ping_end)
  ultimately have "dir_ok ping_dir \<and> (\<forall>d'. (\<lambda>x y. frame_turn block_conf 0 SET_OFF x = Inl y)\<^sup>*\<^sup>* ping_dir d' \<longrightarrow> \<not> huge d')" by blast
  then show "\<exists>act d'. frame_parse block_conf 0 SET_OFF ping_dir = Some (act, d')"
    using frame_parse_returns [of ping_dir block_conf 0 SET_OFF] by blast
  have "stuck (dir0\<lparr>fd_mode := FRAME_PASS, fd_buf := hang_frame\<rparr>)"
    by (simp add: stuck_def huge_def headed_def whole_def hang_frame_def dir0_def rest_def at_def hold_def
      ws_hlen_def ws_plen_def ws_len7_def ws_masked_def ws_opcode_def be_nat_def)
  then show "frame_parse block_conf 0 SET_OFF (dir0\<lparr>fd_mode := FRAME_PASS, fd_buf := hang_frame\<rparr>) = None"
    using frame_parse_returns [of "dir0\<lparr>fd_mode := FRAME_PASS, fd_buf := hang_frame\<rparr>" block_conf 0 SET_OFF] by blast
qed

subsection \<open>Runs of the loop\<close>

abbreviation (input) turns :: "frame_conf \<Rightarrow> msec \<Rightarrow> set_mode \<Rightarrow> frame_dir \<Rightarrow> frame_dir \<Rightarrow> bool" where
  "turns cf now au \<equiv> (\<lambda>x y. frame_turn cf now au x = Inl y)\<^sup>*\<^sup>*"

lemma parse_turns:
  "frame_parse cf now au d = Some r \<Longrightarrow> \<exists>e. turns cf now au d e \<and> frame_turn cf now au e = Inr r"
proof (rule frame_parse.raw_induct [where P = "\<lambda>cf now au d r. \<exists>e. turns cf now au d e \<and> frame_turn cf now au e = Inr r"])
  fix parse and cf :: frame_conf and now au d r
  assume IH: "\<And>cf now au d r. parse cf now au d = Some r \<Longrightarrow> \<exists>e. turns cf now au d e \<and> frame_turn cf now au e = Inr r"
    and step: "(case frame_turn cf now au d of Inl d \<Rightarrow> parse cf now au d | Inr r \<Rightarrow> Some r) = Some r"
  show "\<exists>e. turns cf now au d e \<and> frame_turn cf now au e = Inr r"
  proof (cases "frame_turn cf now au d")
    case (Inl f)
    then obtain e where "turns cf now au f e" "frame_turn cf now au e = Inr r" using IH [of cf now au f r] step by auto
    then show ?thesis using Inl by (meson converse_rtranclp_into_rtranclp)
  next
    case (Inr r')
    then show ?thesis using step by auto
  qed
qed assumption

lemma parse_invariant:
  assumes "frame_parse cf now au d = Some (act, d')" "P d"
    and "\<And>x y. P x \<Longrightarrow> goes_on cf now au x y \<Longrightarrow> P y"
  obtains e where "P e" "frame_turn cf now au e = Inr (act, d')"
proof -
  obtain e where e: "turns cf now au d e" "frame_turn cf now au e = Inr (act, d')" using parse_turns [OF assms(1)] by blast
  have "P e" using e(1) by (induction rule: rtranclp_induct) (auto intro: assms(2,3) turn_goes_on)
  then show thesis using that e(2) by blast
qed

lemma whole_stop:
  assumes "frame_whole cf au asm p q d = Inr (act, d')" "p = at d" "dir_ok d" "q = rest d" "whole q \<le> length q"
  shows "fd_cleared d' = fd_cleared d \<and> take (fd_cleared d) (fd_buf d') = take (fd_cleared d) (fd_buf d)
     \<and> fd_skip d' = fd_skip d \<and> fd_msg_skip d' = fd_msg_skip d \<and> fd_rsv_warned d' = fd_rsv_warned d
     \<and> (fd_buf d' = fd_buf d \<and> fd_msg d' = fd_msg d \<and> fd_msg_hlen d' = fd_msg_hlen d \<and> fd_msg_len d' = fd_msg_len d
        \<or> (\<exists>e. fd_msg d \<and> e = frame_msg_append p (ws_hlen q) (ws_plen q) (d\<lparr>fd_seq := fd_seq d + 1\<rparr>)
             \<and> fd_buf d' = fd_buf (snd (frame_msg_seal True e)) \<and> \<not> fd_msg d'))"
proof -
  consider "fd_buf d' = fd_buf d" "fd_cleared d' = fd_cleared d" "fd_skip d' = fd_skip d" "fd_msg_skip d' = fd_msg_skip d"
      "fd_rsv_warned d' = fd_rsv_warned d" "fd_msg d' = fd_msg d" "fd_msg_hlen d' = fd_msg_hlen d" "fd_msg_len d' = fd_msg_len d"
    | (m) e where "fd_msg d" "e = frame_msg_append p (ws_hlen q) (ws_plen q) (d\<lparr>fd_seq := fd_seq d + 1\<rparr>)"
      "fd_buf d' = fd_buf (snd (frame_msg_seal True e))" "fd_cleared d' = fd_cleared e" "fd_skip d' = fd_skip e"
      "fd_msg_skip d' = fd_msg_skip e" "fd_rsv_warned d' = fd_rsv_warned e" "\<not> fd_msg d'"
    using assms(1)
    by (cases "fd_msg d"; cases "fd_mode d = FRAME_JOURNAL"; cases "ws_fin q")
      (auto simp: frame_whole_def Let_def frame_hold_def frame_msg_seal_alt split: if_splits)
  then show ?thesis
  proof cases
    case 1
    then show ?thesis by simp
  next
    case m
    have e: "fd_cleared e = fd_cleared d" "fd_skip e = fd_skip d" "fd_msg_skip e = fd_msg_skip d" "fd_rsv_warned e = fd_rsv_warned d"
      using m(2) by (simp_all add: frame_msg_append_def Let_def)
    have "take (at d) (fd_buf e) = take (at d) (fd_buf d)"
      using append_rest(5) [OF m(1) _ assms(4) assms(3)] assms(2,5) m(2) by (simp add: whole_def)
    then have "take (fd_cleared d) (fd_buf e) = take (fd_cleared d) (fd_buf d)"
      by (metis at_def le_add1 min.absorb1 take_take)
    moreover have "take (fd_cleared d) (fd_buf (snd (frame_msg_seal True e))) = take (fd_cleared d) (fd_buf e)"
    proof -
      have "dir_ok e" using append_rest(2) [OF m(1) _ assms(4) assms(3)] assms(2,5) m(2) by (simp add: whole_def)
      then show ?thesis by (simp add: frame_msg_seal_alt e dir_ok_def at_def)
    qed
    ultimately show ?thesis using m e by auto
  qed
qed

lemma limited_stop:
  assumes "frame_limited cf au asm p q d = Inr (act, d')"
  shows "d' = d \<or> whole q \<le> length q \<and> frame_whole cf au asm p q d = Inr (act, d')
           \<and> ws_plen q + (if fd_msg d then fd_msg_len d else 0) \<le> fk_limit cf (fd_phase d) \<and> \<not> ws_rsv q"
  using assms by (auto simp: frame_limited_def whole_def Let_def not_less split: if_splits)

lemma data_stop:
  assumes "frame_data cf au asm p q d = Inr (act, d')"
  shows "d' = d \<or> frame_limited cf au asm p q d = Inr (act, d') \<and> fd_mode d \<noteq> FRAME_PASS"
  using assms unfolding frame_data_def Let_def by (auto split: if_split_asm)

lemma turn_stop:
  assumes "frame_turn cf now au d = Inr (act, d')" "\<not> fd_skip d > 0"
  shows "d' = d \<or> headed d \<and> whole (rest d) \<le> length (rest d)
     \<and> frame_whole cf au (assemble cf d) (at d) (rest d) d = Inr (act, d')"
proof -
  have h: "frame_head cf now au (assemble cf d) (at d) (rest d) d = Inr (act, d')" using assms by (simp add: frame_turn_alt)
  show ?thesis
  proof (cases "d' = d")
    case False
    then have "headed d" "frame_control cf now (at d) (rest d) d = Inr (act, d') \<or> frame_data cf au (assemble cf d) (at d) (rest d) d = Inr (act, d')"
      using h assms(2) by (auto simp: frame_head_def headed_def split: if_split_asm)
    moreover have "frame_control cf now (at d) (rest d) d \<noteq> Inr (act, d')"
      using False by (auto simp: frame_control_def Let_def split: if_split_asm prod.splits)
    ultimately show ?thesis using data_stop limited_stop False by blast
  qed simp
qed

subsection \<open>Nothing passes uninspected\<close>

lemma ws_take:
  assumes "2 \<le> n" "ws_hlen q \<le> n"
  shows "ws_fin (take n q) = ws_fin q" "ws_opcode (take n q) = ws_opcode q" "ws_hlen (take n q) = ws_hlen q"
    "ws_plen (take n q) = ws_plen q"
proof -
  have l: "ws_len7 (take n q) = ws_len7 q" "ws_masked (take n q) = ws_masked q"
    using assms(1) by (simp_all add: ws_len7_def ws_masked_def)
  have "take 2 (drop 2 (take n q)) = take 2 (drop 2 q)" if "ws_len7 q = 126"
    using assms(2) that by (simp add: ws_hlen_def drop_take min_def split: if_splits)
  moreover have "take 8 (drop 2 (take n q)) = take 8 (drop 2 q)" if "ws_len7 q = 127"
    using assms(2) that by (simp add: ws_hlen_def drop_take min_def split: if_splits)
  ultimately show "ws_plen (take n q) = ws_plen q" by (simp add: ws_plen_def l)
  show "ws_hlen (take n q) = ws_hlen q" by (simp add: ws_hlen_def l)
  show "ws_fin (take n q) = ws_fin q" "ws_opcode (take n q) = ws_opcode q"
    using assms(1) by (simp_all add: ws_fin_def ws_opcode_def)
qed

definition ctl_stream :: "bytes \<Rightarrow> bool" where
  "ctl_stream xs \<longleftrightarrow> (\<exists>fs. xs = concat fs \<and> (\<forall>f\<in>set fs. ctl_frame f \<and> length f = whole f))"

lemma ctl_stream_Nil [simp]: "ctl_stream []"
  unfolding ctl_stream_def by (rule exI [of _ "[]"]) simp

lemma ctl_stream_snoc:
  assumes "ctl_stream xs" "ctl_frame q" "whole q \<le> length q"
  shows "ctl_stream (xs @ take (whole q) q)"
proof -
  obtain fs where fs: "xs = concat fs" "\<forall>f\<in>set fs. ctl_frame f \<and> length f = whole f" using assms(1) by (auto simp: ctl_stream_def)
  have w: "2 \<le> whole q" "ws_hlen q \<le> whole q" using whole_ge by (simp_all add: whole_def)
  have "ctl_frame (take (whole q) q)" using assms(2) ws_take [OF w] by (simp add: ctl_frame_def)
  moreover have "whole (take (whole q) q) = whole q" using ws_take(3,4) [OF w] by (simp add: whole_def)
  ultimately show ?thesis
    unfolding ctl_stream_def using fs assms(3) by (intro exI [of _ "fs @ [take (whole q) q]"]) auto
qed

text \<open>So far only control frames were cleared, or extension data was seen.\<close>

definition guarded :: "frame_conf \<Rightarrow> bytes \<Rightarrow> frame_dir \<Rightarrow> bool" where
  "guarded cf pre d \<longleftrightarrow>
     dir_ok d \<and> fd_mode d = FRAME_INSPECT \<and> fk_policy cf (fd_phase d) = POLICY_BLOCK
     \<and> (fd_rsv_warned d
        \<or> fd_skip d = 0 \<and> \<not> fd_msg_skip d
          \<and> (\<exists>xs. ctl_stream xs \<and> take (fd_cleared d) (fd_buf d) = pre @ xs))"

lemma goes_on_conf: "goes_on cf now au d d' \<Longrightarrow> fd_mode d' = fd_mode d \<and> fd_phase d' = fd_phase d \<and> fd_masked d' = fd_masked d
    \<and> fd_end d' = fd_end d \<and> (fd_rsv_warned d \<longrightarrow> fd_rsv_warned d')"
proof (induction rule: goes_on.induct)
  case (cut d e)
  then show ?case using ctrl_allowed_frame [OF cut(4)] by (simp add: frame_cut_def)
next
  case (control d e f)
  then show ?case
    using ctrl_allowed_frame [of cf now "d\<lparr>fd_seq := fd_seq d + 1\<rparr>" True e]
    by (auto simp: frame_hoist_def Let_def)
qed (auto simp: frame_skip_on_def frame_let_pass_def frame_msg_seal_alt frame_msg_append_def Let_def)

lemma take_cleared: "n \<le> m \<Longrightarrow> take m xs = take m ys \<Longrightarrow> take n xs = take n ys"
  by (metis min.absorb1 take_take)

lemma goes_on_guarded:
  assumes "goes_on cf now au d d'" "guarded cf pre d" shows "guarded cf pre d'"
proof -
  note conf = goes_on_conf [OF assms(1)] and ok = goes_on_ok [OF assms(1)]
  have g: "dir_ok d" "fd_mode d = FRAME_INSPECT" "fk_policy cf (fd_phase d) = POLICY_BLOCK"
    using assms(2) by (simp_all add: guarded_def)
  show ?thesis
  proof (cases "fd_rsv_warned d'")
    case True
    then show ?thesis using conf ok g by (simp add: guarded_def)
  next
    case nw: False
    then have "\<not> fd_rsv_warned d" using conf by blast
    then obtain xs where xs: "fd_skip d = 0" "\<not> fd_msg_skip d" "ctl_stream xs" "take (fd_cleared d) (fd_buf d) = pre @ xs"
      using assms(2) by (auto simp: guarded_def)
    have "fd_skip d' = 0 \<and> \<not> fd_msg_skip d' \<and> (\<exists>ys. ctl_stream ys \<and> take (fd_cleared d') (fd_buf d') = pre @ ys)"
      using assms(1)
    proof cases
      case (cut e)
      note f = ctrl_allowed_frame [OF cut(5), simplified]
      have "take (fd_cleared d) (fd_buf d') = take (fd_cleared d) (fd_buf d)"
        using g(1) by (simp add: cut(1) frame_cut_def f dir_ok_def at_def min_def)
      then show ?thesis using xs f cut(1) by (auto simp: frame_cut_def)
    next
      case (control e f)
      have e: "fd_buf e = fd_buf d" "fd_cleared e = fd_cleared d" "fd_msg e = fd_msg d" "fd_msg_hlen e = fd_msg_hlen d"
          "fd_msg_len e = fd_msg_len d" "fd_msg_key e = fd_msg_key d" "fd_skip e = fd_skip d" "fd_msg_skip e = fd_msg_skip d"
        using control(5) ctrl_allowed_frame [of cf now "d\<lparr>fd_seq := fd_seq d + 1\<rparr>" True e] by auto
      have "2 \<le> length (rest d)" using control(2) by (simp add: headed_def)
      from hoist_rest(4) [OF e(1-6) control(4) this g(1), of d'] control(1,6)
      have "take (fd_cleared d') (fd_buf d') = take (fd_cleared d) (fd_buf d) @ take (whole (rest d)) (rest d)" by simp
      then have "take (fd_cleared d') (fd_buf d') = pre @ (xs @ take (whole (rest d)) (rest d))" using xs(4) by simp
      moreover have "fd_skip d' = 0" "\<not> fd_msg_skip d'" using control(1,6) e(7,8) xs(1,2) by (auto simp: frame_hoist_def Let_def)
      ultimately show ?thesis using ctl_stream_snoc [OF xs(3) control(3,4)] by blast
    next
      case rsv
      then show ?thesis using nw let_pass_rest(6) [of "d\<lparr>fd_rsv_warned := True\<rparr>" d'] g(1) by simp
    next
      case append
      have "take (at d) (fd_buf d') = take (at d) (fd_buf d)"
        using append_rest(5) [OF append(4) _ refl g(1) append(1)] append(3) by (simp add: whole_def)
      then have "take (fd_cleared d) (fd_buf d') = take (fd_cleared d) (fd_buf d)"
        by (rule take_cleared [rotated]) (simp add: at_def)
      then show ?thesis using xs append(1) by (auto simp: frame_msg_append_def Let_def)
    qed (use g xs in auto)
    then show ?thesis using conf ok g by (simp add: guarded_def)
  qed
qed

text \<open>
  An inspected direction whose limit blocks lets nothing but complete control frames through: a
  call of the parser either has seen extension data (reserved bits), or the bytes it has cleared are
  control frames one after the other; every data frame, fragmented or not, stays behind.
\<close>

lemma parse_no_bypass:
  assumes "frame_parse cf now au d = Some (act, d')" "\<not> fd_rsv_warned d'"
    and "dir_ok d" "fd_mode d = FRAME_INSPECT" "fk_policy cf (fd_phase d) = POLICY_BLOCK"
    and "fd_skip d = 0" "\<not> fd_msg_skip d"
  shows "fd_skip d' = 0 \<and> \<not> fd_msg_skip d'
       \<and> (\<exists>xs. ctl_stream xs \<and> take (fd_cleared d') (fd_buf d') = take (fd_cleared d) (fd_buf d) @ xs)"
proof -
  let ?pre = "take (fd_cleared d) (fd_buf d)"
  have "\<exists>xs. ctl_stream xs \<and> take (fd_cleared d) (fd_buf d) = ?pre @ xs" by (rule exI [of _ "[]"]) simp
  then have "guarded cf ?pre d" using assms(3-7) by (simp add: guarded_def)
  then obtain e where e: "guarded cf ?pre e" "frame_turn cf now au e = Inr (act, d')"
    using parse_invariant [OF assms(1), of "guarded cf ?pre"] goes_on_guarded by blast
  have ok: "dir_ok e" using e(1) by (simp add: guarded_def)
  show ?thesis
  proof (cases "fd_rsv_warned e")
    case True
    have "fd_skip e > 0 \<Longrightarrow> fd_rsv_warned d'" using e(2) True by (auto simp: frame_turn_alt Let_def split: if_split_asm)
    moreover have "\<not> fd_skip e > 0 \<Longrightarrow> fd_rsv_warned d'"
      using turn_stop [OF e(2)] whole_stop [OF _ refl ok refl] True by auto
    ultimately show ?thesis using assms(2) by blast
  next
    case False
    then obtain xs where xs: "fd_skip e = 0" "\<not> fd_msg_skip e" "ctl_stream xs" "take (fd_cleared e) (fd_buf e) = ?pre @ xs"
      using e(1) by (auto simp: guarded_def)
    have "d' = e \<or> fd_cleared d' = fd_cleared e \<and> take (fd_cleared e) (fd_buf d') = take (fd_cleared e) (fd_buf e)
       \<and> fd_skip d' = fd_skip e \<and> fd_msg_skip d' = fd_msg_skip e"
      using turn_stop [OF e(2)] whole_stop [OF _ refl ok refl] xs(1) by auto
    then show ?thesis using xs by auto
  qed
qed

end
