(* ===== verification/Frame_Run.thy ===== *)
theory Frame_Run
  imports Frame_Conn Frame_Props
begin

text \<open>
  The life of a direction: every sequence of parsing, verdicts, sending, moving and receiving. What is
  forwarded is made of control frames and of frames a verdict let go, and the buffer of a client never
  overflows.
\<close>

inductive dir_run :: "frame_conf \<Rightarrow> frame_dir \<Rightarrow> frame_dir \<Rightarrow> bytes list \<Rightarrow> bytes \<Rightarrow> bool" for cf d0 where
  r_init: "dir_run cf d0 d0 [] []"
| r_parse: "dir_run cf d0 d g sent \<Longrightarrow> fd_held d = 0 \<Longrightarrow> pump_parses True d \<Longrightarrow>
     frame_parse cf now au d = Some (act, d') \<Longrightarrow> dir_run cf d0 d' g sent"
| r_ok: "dir_run cf d0 d g sent \<Longrightarrow> fd_held d \<noteq> 0 \<Longrightarrow>
     dir_run cf d0 (frame_clear d) (g @ [take (fd_held d) (drop (fd_cleared d) (fd_buf d))]) sent"
| r_replace: "dir_run cf d0 d g sent \<Longrightarrow> fd_held d \<noteq> 0 \<Longrightarrow>
     dir_run cf d0 (frame_replace data d) (g @ [frame_new d data]) sent"
| r_sent: "dir_run cf d0 d g sent \<Longrightarrow> n \<le> fd_cleared d - fd_pos d \<Longrightarrow>
     dir_run cf d0 (pump_sent n d) g (sent @ take n (drop (fd_pos d) (fd_buf d)))"
| r_drop: "dir_run cf d0 d g sent \<Longrightarrow> dir_run cf d0 (pump_drop d) g sent"
| r_out: "dir_run cf d0 d g sent \<Longrightarrow> fd_drop d = 0 \<Longrightarrow> n \<le> length (out_bytes d) \<Longrightarrow>
     dir_run cf d0 (pump_out n d) g (sent @ take n (out_bytes d))"
| r_compact: "dir_run cf d0 d g sent \<Longrightarrow> dir_run cf d0 (pump_compact (fd_held d \<noteq> 0) d) g sent"
| r_recv: "dir_run cf d0 d g sent \<Longrightarrow> length data \<le> pump_room d \<Longrightarrow> dir_run cf d0 (pump_recv data d) g sent"

subsection \<open>What the parser leaves alone\<close>

definition pumped :: "frame_dir \<Rightarrow> nat \<times> nat \<times> bytes option \<times> nat \<times> frame_mode \<times> phase \<times> bool \<times> nat" where
  "pumped d = (fd_pos d, fd_drop d, fd_out d, fd_held d, fd_mode d, fd_phase d, fd_masked d, fd_end d)"

lemma ctrl_allowed_pumped: "frame_ctrl_allowed cf now d = (a, e) \<Longrightarrow> pumped e = pumped d"
  by (auto simp: frame_ctrl_allowed_def Let_def pumped_def split: if_splits)

lemma goes_on_pumped: "goes_on cf now au d d' \<Longrightarrow> pumped d' = pumped d"
proof (induction rule: goes_on.induct)
  case (cut d e)
  then show ?case using ctrl_allowed_pumped [OF cut(4)] by (simp add: frame_cut_def pumped_def)
next
  case (control d e f)
  then have "pumped e = pumped d" using ctrl_allowed_pumped [of cf now "d\<lparr>fd_seq := fd_seq d + 1\<rparr>" True e] by (auto simp: pumped_def)
  then show ?case using control(5) by (auto simp: frame_hoist_def Let_def pumped_def)
qed (auto simp: pumped_def frame_skip_on_def frame_let_pass_def frame_msg_seal_alt frame_msg_append_def Let_def)

text \<open>Where a call of the parser in an inspected direction stops: it left the frame to later, or it holds a
  whole frame right behind the cleared bytes.\<close>

lemma whole_held:
  assumes "frame_whole cf au asm (at d) (rest d) d = Inr (act, d')" "dir_ok d" "whole (rest d) \<le> length (rest d)"
    and "fd_mode d \<noteq> FRAME_JOURNAL"
  shows "\<not> fd_msg d' \<and> dir_ok d' \<and> fd_cleared d' + fd_held d' \<le> length (fd_buf d')
       \<and> fd_pos d' = fd_pos d \<and> fd_drop d' = fd_drop d \<and> fd_out d' = fd_out d
       \<and> fd_mode d' = fd_mode d \<and> fd_phase d' = fd_phase d \<and> fd_masked d' = fd_masked d"
proof (cases "fd_msg d")
  case True
  let ?e = "frame_msg_append (at d) (ws_hlen (rest d)) (ws_plen (rest d)) (d\<lparr>fd_seq := fd_seq d + 1\<rparr>)"
  have ok: "dir_ok ?e" using append_rest(2) [OF True _ refl assms(2) refl] assms(3) by (simp add: whole_def)
  have e: "fd_msg ?e" "fd_pos ?e = fd_pos d" "fd_drop ?e = fd_drop d" "fd_out ?e = fd_out d" "fd_mode ?e = fd_mode d"
      "fd_phase ?e = fd_phase d" "fd_masked ?e = fd_masked d"
    using True by (simp_all add: frame_msg_append_def Let_def)
  obtain k f where f: "frame_msg_seal True ?e = (k, f)" by fastforce
  have d': "d' = (frame_hold (k + fd_msg_len f) (fd_msg_opcode f) True (fd_msg_fragments f) (fd_msg_seq f) f)
                   \<lparr>fd_reassembled := fd_reassembled f + 1\<rparr>"
    using assms(1,4) True f
    by (cases "ws_fin (rest d)") (auto simp: frame_whole_def Let_def frame_hold_def split: if_splits)
  have ff: "fd_cleared f = fd_cleared ?e" "fd_msg_len f = fd_msg_len ?e" "\<not> fd_msg f" "fd_msg_key f = fd_msg_key ?e"
      "fd_pos f = fd_pos ?e" "fd_drop f = fd_drop ?e" "fd_out f = fd_out ?e" "fd_mode f = fd_mode ?e"
      "fd_phase f = fd_phase ?e" "fd_masked f = fd_masked ?e"
    using f by (auto simp: frame_msg_seal_alt)
  have "fd_cleared f + (k + fd_msg_len f) \<le> length (fd_buf f)" using seal_rest(2) [OF ok e(1) f] ff by simp
  then show ?thesis using ff e ok by (simp add: d' frame_hold_def dir_ok_def at_def hold_def)
next
  case False
  then have "d' = frame_hold (whole (rest d)) (ws_opcode (rest d)) (ws_fin (rest d)) 1 (fd_seq d + 1) (d\<lparr>fd_seq := fd_seq d + 1\<rparr>)"
    using assms(1,4) by (auto simp: frame_whole_def whole_def Let_def split: if_splits)
  then show ?thesis
    using False assms(2,3) at_le [of d] whole_ge [of "rest d"] by (simp add: frame_hold_def dir_ok_def at_def hold_def)
qed

lemma parse_held:
  assumes "frame_parse cf now au d = Some (act, d')" "dir_ok d" "fd_mode d \<noteq> FRAME_JOURNAL" "fd_held d = 0"
  shows "dir_ok d' \<and> fd_pos d' = fd_pos d \<and> fd_drop d' = fd_drop d \<and> fd_out d' = fd_out d
       \<and> fd_mode d' = fd_mode d \<and> fd_phase d' = fd_phase d \<and> fd_masked d' = fd_masked d
       \<and> (fd_held d' \<noteq> 0 \<longrightarrow> \<not> fd_msg d' \<and> fd_cleared d' + fd_held d' \<le> length (fd_buf d'))"
proof -
  obtain e where e: "dir_ok e \<and> pumped e = pumped d" "frame_turn cf now au e = Inr (act, d')"
    using parse_invariant [OF assms(1), of "\<lambda>e. dir_ok e \<and> pumped e = pumped d"] goes_on_ok goes_on_pumped assms(2) by metis
  show ?thesis
  proof (cases "fd_skip e > 0")
    case True
    then show ?thesis
      using e assms(4) by (auto simp: frame_turn_alt Let_def pumped_def dir_ok_def at_def hold_def rest_def split: if_split_asm)
  next
    case False
    from turn_stop [OF e(2) False] show ?thesis
    proof
      assume "headed e \<and> whole (rest e) \<le> length (rest e) \<and> frame_whole cf au (assemble cf e) (at e) (rest e) e = Inr (act, d')"
      then show ?thesis using whole_held [of cf au "assemble cf e" e act d'] e(1) assms(3) by (auto simp: pumped_def)
    qed (use e assms(4) in \<open>auto simp: pumped_def\<close>)
  qed
qed

lemma goes_on_cleared: "goes_on cf now au d d' \<Longrightarrow> fd_cleared d \<le> fd_cleared d'"
proof (induction rule: goes_on.induct)
  case (cut d e)
  then show ?case using ctrl_allowed_frame(2) [OF cut(4)] by (simp add: frame_cut_def)
qed (auto simp: frame_skip_on_def frame_let_pass_def frame_msg_seal_alt frame_msg_append_def Let_def)

lemma parse_monotone:
  assumes "frame_parse cf now au d = Some (act, d')" "dir_ok d"
  shows "fd_cleared d \<le> fd_cleared d' \<and> (fd_rsv_warned d \<longrightarrow> fd_rsv_warned d')"
proof -
  let ?P = "\<lambda>e. dir_ok e \<and> fd_cleared d \<le> fd_cleared e \<and> (fd_rsv_warned d \<longrightarrow> fd_rsv_warned e)"
  have step: "?P y" if "?P x" "goes_on cf now au x y" for x y
    using that goes_on_ok [OF that(2)] goes_on_cleared [OF that(2)] goes_on_conf [OF that(2)] by auto
  obtain e where e: "?P e" "frame_turn cf now au e = Inr (act, d')"
    using parse_invariant [OF assms(1), of ?P] step assms(2) by blast
  show ?thesis
  proof (cases "fd_skip e > 0")
    case True
    then show ?thesis using e by (auto simp: frame_turn_alt Let_def split: if_split_asm)
  next
    case False
    then show ?thesis using turn_stop [OF e(2)] whole_stop [OF _ refl _ refl] e(1) by auto
  qed
qed

subsection \<open>What is forwarded\<close>

definition approved :: "bytes list \<Rightarrow> bytes \<Rightarrow> bool" where
  "approved g xs \<longleftrightarrow> (\<exists>ps. xs = concat ps \<and> (\<forall>p\<in>set ps. ctl_frame p \<and> length p = whole p \<or> p \<in> set g))"

lemma approved_Nil: "approved g []"
  unfolding approved_def by (rule exI [of _ "[]"]) simp

lemma approved_more: "approved g xs \<Longrightarrow> approved (g @ g') xs"
  unfolding approved_def by fastforce

lemma approvedI: "xs = concat ps \<Longrightarrow> \<forall>p\<in>set ps. ctl_frame p \<and> length p = whole p \<or> p \<in> set g \<Longrightarrow> approved g xs"
  unfolding approved_def by blast

lemma approved_granted:
  assumes "approved g xs" shows "approved (g @ [p]) (xs @ p)"
proof -
  obtain ps where "xs = concat ps" "\<forall>q\<in>set ps. ctl_frame q \<and> length q = whole q \<or> q \<in> set g"
    using assms by (auto simp: approved_def)
  then show ?thesis by (intro approvedI [of _ "ps @ [p]"]) auto
qed

lemma approved_control:
  assumes "approved g xs" "ctl_stream ys" shows "approved g (xs @ ys)"
proof -
  obtain ps fs where "xs = concat ps" "\<forall>q\<in>set ps. ctl_frame q \<and> length q = whole q \<or> q \<in> set g"
      "ys = concat fs" "\<forall>f\<in>set fs. ctl_frame f \<and> length f = whole f"
    using assms by (auto simp: approved_def ctl_stream_def)
  then show ?thesis by (intro approvedI [of _ "ps @ fs"]) auto
qed

text \<open>The bytes that are on their way out.\<close>

definition pending :: "frame_dir \<Rightarrow> bytes" where
  "pending d = drop (fd_pos d) (take (fd_cleared d) (fd_buf d)) @ out_bytes d"

definition run_ok :: "frame_dir \<Rightarrow> bool" where
  "run_ok d \<longleftrightarrow>
     dir_ok d \<and> fd_mode d = FRAME_INSPECT \<and> fd_pos d \<le> fd_cleared d
     \<and> (fd_held d \<noteq> 0 \<longrightarrow> \<not> fd_msg d \<and> fd_drop d = 0 \<and> out_bytes d = [] \<and> fd_cleared d + fd_held d \<le> length (fd_buf d))
     \<and> (fd_drop d \<noteq> 0 \<longrightarrow> \<not> fd_msg d \<and> fd_cleared d + fd_drop d \<le> length (fd_buf d))
     \<and> (out_bytes d \<noteq> [] \<longrightarrow> fd_drop d \<noteq> 0 \<or> fd_pos d = fd_cleared d)"

definition forwards :: "frame_conf \<Rightarrow> frame_dir \<Rightarrow> bytes list \<Rightarrow> bytes \<Rightarrow> bool" where
  "forwards cf d g sent \<longleftrightarrow>
     fk_policy cf (fd_phase d) = POLICY_BLOCK
     \<and> (fd_rsv_warned d \<or> fd_skip d = 0 \<and> \<not> fd_msg_skip d \<and> approved g (sent @ pending d))"

lemma run_ok_parse:
  assumes "run_ok d" "fd_held d = 0" "pump_parses True d" "frame_parse cf now au d = Some (act, d')"
  shows "run_ok d' \<and> (forwards cf d g sent \<longrightarrow> forwards cf d' g sent)"
proof -
  have d: "dir_ok d" "fd_mode d = FRAME_INSPECT" "fd_pos d \<le> fd_cleared d" "fd_drop d = 0" "out_bytes d = []"
    using assms(1,3) by (auto simp: run_ok_def pump_parses_def)
  have jm: "fd_mode d \<noteq> FRAME_JOURNAL" using d(2) by simp
  note h = parse_held [OF assms(4) d(1) jm assms(2)]
  have out: "out_bytes d' = []" using h d(5) by (simp add: out_bytes_def)
  have warn: "fd_rsv_warned d \<longrightarrow> fd_rsv_warned d'" and cl: "fd_cleared d \<le> fd_cleared d'"
    using parse_monotone [OF assms(4) d(1)] by simp_all
  have ok: "run_ok d'" using h d out cl by (auto simp: run_ok_def)
  have "forwards cf d' g sent" if f: "forwards cf d g sent" "\<not> fd_rsv_warned d'"
  proof -
    have sk: "fd_skip d = 0" "\<not> fd_msg_skip d" "approved g (sent @ pending d)" "fk_policy cf (fd_phase d) = POLICY_BLOCK"
      using f warn by (auto simp: forwards_def)
    from parse_no_bypass [OF assms(4) f(2) d(1,2) sk(4,1,2)]
    obtain xs where xs: "fd_skip d' = 0" "\<not> fd_msg_skip d'" "ctl_stream xs"
        "take (fd_cleared d') (fd_buf d') = take (fd_cleared d) (fd_buf d) @ xs" by blast
    have "fd_cleared d \<le> length (fd_buf d)" using d(1) by (simp add: dir_ok_def at_def)
    then have "pending d' = pending d @ xs" using xs(4) h d(3,5) out by (simp add: pending_def)
    then show ?thesis using approved_control [OF sk(3) xs(3)] xs(1,2) sk(4) h by (simp add: forwards_def)
  qed
  then show ?thesis using ok h by (auto simp: forwards_def)
qed

lemma run_ok_clear:
  assumes "run_ok d" "fd_held d \<noteq> 0"
  shows "run_ok (frame_clear d)"
    and "forwards cf d g sent \<Longrightarrow> forwards cf (frame_clear d) (g @ [take (fd_held d) (drop (fd_cleared d) (fd_buf d))]) sent"
proof -
  let ?p = "take (fd_held d) (drop (fd_cleared d) (fd_buf d))"
  show "run_ok (frame_clear d)" using assms by (auto simp: run_ok_def frame_clear_def dir_ok_def at_def hold_def out_bytes_def)
  have c: "fd_pos d \<le> fd_cleared d" "fd_cleared d + fd_held d \<le> length (fd_buf d)" "out_bytes d = []"
    using assms by (auto simp: run_ok_def)
  have "take (fd_cleared d + fd_held d) (fd_buf d) = take (fd_cleared d) (fd_buf d) @ ?p" by (rule take_add)
  then have "pending (frame_clear d) = pending d @ ?p" using c by (simp add: pending_def frame_clear_def out_bytes_def)
  then show "forwards cf d g sent \<Longrightarrow> forwards cf (frame_clear d) (g @ [?p]) sent"
    using approved_granted [of g "sent @ pending d" ?p] by (auto simp: forwards_def frame_clear_def)
qed

lemma run_ok_replace:
  assumes "run_ok d" "fd_held d \<noteq> 0"
  shows "run_ok (frame_replace data d)"
    and "forwards cf d g sent \<Longrightarrow> forwards cf (frame_replace data d) (g @ [frame_new d data]) sent"
proof -
  show "run_ok (frame_replace data d)"
    using assms by (auto simp: run_ok_def frame_replace_def dir_ok_def at_def hold_def out_bytes_def)
  have "pending (frame_replace data d) = pending d @ frame_new d data"
    using assms by (simp add: pending_def frame_replace_def out_bytes_def run_ok_def)
  then show "forwards cf d g sent \<Longrightarrow> forwards cf (frame_replace data d) (g @ [frame_new d data]) sent"
    using approved_granted [of g "sent @ pending d" "frame_new d data"] by (auto simp: forwards_def frame_replace_def)
qed

lemma run_ok_sent:
  assumes "run_ok d" "n \<le> fd_cleared d - fd_pos d"
  shows "run_ok (pump_sent n d)"
    and "forwards cf d g sent \<Longrightarrow> forwards cf (pump_sent n d) g (sent @ take n (drop (fd_pos d) (fd_buf d)))"
proof -
  show "run_ok (pump_sent n d)"
    using assms by (auto simp: run_ok_def pump_sent_def dir_ok_def at_def hold_def out_bytes_def)
  have "drop (fd_pos d) (take (fd_cleared d) (fd_buf d))
        = take n (drop (fd_pos d) (fd_buf d)) @ drop (fd_pos d + n) (take (fd_cleared d) (fd_buf d))"
    using assms append_take_drop_id [of n "drop (fd_pos d) (take (fd_cleared d) (fd_buf d))"]
    by (simp add: drop_take take_take add.commute min_def run_ok_def)
  then show "forwards cf d g sent \<Longrightarrow> forwards cf (pump_sent n d) g (sent @ take n (drop (fd_pos d) (fd_buf d)))"
    by (simp add: forwards_def pending_def pump_sent_def out_bytes_def)
qed

lemma run_ok_drop:
  assumes "run_ok d" shows "run_ok (pump_drop d)" and "forwards cf d g sent \<Longrightarrow> forwards cf (pump_drop d) g sent"
proof -
  show "run_ok (pump_drop d)"
    using assms by (auto simp: run_ok_def pump_drop_def dir_ok_def at_def hold_def out_bytes_def)
  show "forwards cf d g sent \<Longrightarrow> forwards cf (pump_drop d) g sent"
    by (auto simp: forwards_def pump_drop_def pending_def out_bytes_def)
qed

lemma run_ok_out:
  assumes "run_ok d" "fd_drop d = 0" "n \<le> length (out_bytes d)"
  shows "run_ok (pump_out n d)" and "forwards cf d g sent \<Longrightarrow> forwards cf (pump_out n d) g (sent @ take n (out_bytes d))"
proof -
  have o: "out_bytes (pump_out n d) = drop n (out_bytes d)" by (simp add: out_bytes_def pump_out_def split: option.split)
  then show "run_ok (pump_out n d)"
    using assms by (auto simp: run_ok_def pump_out_def dir_ok_def at_def hold_def)
  have "sent @ pending d = sent @ take n (out_bytes d) @ pending (pump_out n d)"
  proof (cases "out_bytes d = []")
    case True
    then show ?thesis using o by (simp add: pending_def pump_out_def)
  next
    case False
    then have "fd_pos d = fd_cleared d" using assms(1,2) by (auto simp: run_ok_def)
    then show ?thesis using o by (simp add: pending_def pump_out_def)
  qed
  then show "forwards cf d g sent \<Longrightarrow> forwards cf (pump_out n d) g (sent @ take n (out_bytes d))"
    by (auto simp: forwards_def pump_out_def)
qed

lemma run_ok_compact:
  assumes "run_ok d"
  shows "run_ok (pump_compact (fd_held d \<noteq> 0) d)" and "forwards cf d g sent \<Longrightarrow> forwards cf (pump_compact (fd_held d \<noteq> 0) d) g sent"
proof -
  show "run_ok (pump_compact (fd_held d \<noteq> 0) d)"
    using assms by (auto simp: run_ok_def pump_compact_def dir_ok_def at_def hold_def out_bytes_def)
  show "forwards cf d g sent \<Longrightarrow> forwards cf (pump_compact (fd_held d \<noteq> 0) d) g sent"
    by (auto simp: forwards_def pump_compact_def pending_def out_bytes_def)
qed

lemma run_ok_recv:
  assumes "run_ok d"
  shows "run_ok (pump_recv data d)" and "forwards cf d g sent \<Longrightarrow> forwards cf (pump_recv data d) g sent"
proof -
  show "run_ok (pump_recv data d)"
    using assms by (auto simp: run_ok_def pump_recv_def dir_ok_def at_def hold_def out_bytes_def)
  have "fd_cleared d \<le> length (fd_buf d)" using assms by (simp add: run_ok_def dir_ok_def at_def)
  then show "forwards cf d g sent \<Longrightarrow> forwards cf (pump_recv data d) g sent"
    by (simp add: forwards_def pump_recv_def pending_def out_bytes_def)
qed

lemma dir_run_forwards:
  assumes "dir_run cf d0 d g sent" "run_ok d0" "forwards cf d0 [] []"
  shows "run_ok d \<and> forwards cf d g sent"
  using assms
proof (induction rule: dir_run.induct)
  case (r_parse d g sent now au act d')
  then show ?case using run_ok_parse by blast
next
  case (r_compact d g sent)
  then show ?case using run_ok_compact by blast
qed (auto intro: run_ok_clear run_ok_replace run_ok_sent run_ok_drop run_ok_out run_ok_recv)


text \<open>A ping and a text frame from the upstream, let go and sent.\<close>

definition ping_text :: bytes where
  "ping_text = [0x89, 0, 0x81, 1, 0x61]"

definition upstream_dir :: frame_dir where
  "upstream_dir = dir0\<lparr>fd_phase := PH_FRAME_S2C, fd_mode := FRAME_INSPECT, fd_end := 4096, fd_buf := ping_text\<rparr>"

definition upstream_held :: frame_dir where
  "upstream_held = upstream_dir\<lparr>fd_cleared := 2, fd_held := 3, fd_seq := 2, fd_opcode := 1, fd_fin := True, fd_fragments := 1,
     fd_held_seq := 2\<rparr>"

lemma upstream_parsed: "frame_parse block_conf 0 SET_OFF upstream_dir = Some (A_INSPECT [0x61] None, upstream_held)"
  by code_simp


subsection \<open>The buffer is large enough\<close>

text \<open>How many bytes of payload a header of a given length can announce.\<close>

lemma plen_bound:
  assumes "ws_masked q"
  shows "ws_hlen q = 6 \<and> ws_plen q < 126 \<or> ws_hlen q = 8 \<and> ws_plen q \<le> 65535 \<or> ws_hlen q = 14"
proof -
  have "be_nat (take 2 (drop 2 q)) < 65536"
    using be_nat_less [of "take 2 (drop 2 q)"] power_increasing [of "length (take 2 (drop 2 q))" 2 "256 :: nat"] by simp
  then show ?thesis using assms len7_less [of q] by (auto simp: ws_hlen_def ws_plen_def)
qed

text \<open>The buffer holds what is in it, and also the header with which the message would be sealed.\<close>

definition room_ok :: "frame_dir \<Rightarrow> bool" where
  "room_ok d \<longleftrightarrow>
     length (fd_buf d) \<le> fd_end d
     \<and> (fd_msg d \<longrightarrow> 6 \<le> fd_msg_hlen d
                    \<and> length (fd_buf d) + head_len (fd_msg_len d) True \<le> fd_end d + fd_msg_hlen d)"

lemma head_len_grows:
  assumes "ws_masked q" shows "head_len (n + ws_plen q) True \<le> head_len n True + ws_hlen q"
  using plen_bound [OF assms] by (auto simp: head_len_def)

lemma head_len_minimal: "ws_masked q \<Longrightarrow> head_len (ws_plen q) True \<le> ws_hlen q"
  using plen_bound [of q] by (auto simp: head_len_def)

lemma let_pass_room:
  assumes "dir_ok d" "room_ok d" "fd_masked d" shows "room_ok (frame_let_pass asm fin opcode n d)"
proof (cases "fd_msg d")
  case True
  obtain k f where f: "frame_msg_seal False d = (k, f)" by fastforce
  have "k = head_len (fd_msg_len d) True" "fd_end f = fd_end d" "\<not> fd_msg f" "fd_cleared f = fd_cleared d"
    using f assms(3) by (auto simp: frame_msg_seal_alt)
  then show ?thesis
    using seal_rest(3) [OF assms(1) True f] assms(2) True f
    by (simp add: frame_let_pass_def frame_skip_on_def room_ok_def)
next
  case False
  then show ?thesis using assms(2) by (simp add: frame_let_pass_def frame_skip_on_def room_ok_def)
qed

lemma append_room:
  assumes "fd_msg d" "whole (rest d) \<le> length (rest d)" "dir_ok d" "room_ok d" "ws_masked (rest d)"
  shows "room_ok (frame_msg_append (at d) (ws_hlen (rest d)) (ws_plen (rest d)) (d\<lparr>fd_seq := s\<rparr>))"
proof -
  let ?e = "frame_msg_append (at d) (ws_hlen (rest d)) (ws_plen (rest d)) (d\<lparr>fd_seq := s\<rparr>)"
  have l: "length (fd_buf ?e) + ws_hlen (rest d) = length (fd_buf d)"
    using append_rest(4) [OF assms(1) _ refl assms(3) refl, of s] assms(2) by (simp add: whole_def)
  have "fd_msg_len ?e = fd_msg_len d + ws_plen (rest d)" "fd_msg_hlen ?e = fd_msg_hlen d" "fd_end ?e = fd_end d" "fd_msg ?e"
    using assms(1) by (simp_all add: frame_msg_append_def Let_def)
  then show ?thesis
    using l assms(1,4) head_len_grows [OF assms(5), of "fd_msg_len d"] by (simp add: room_ok_def)
qed

lemma goes_on_room:
  assumes "goes_on cf now au d d'" "room_ok d" "dir_ok d" "fd_masked d" shows "room_ok d'"
  using assms(1)
proof cases
  case skipped
  then show ?thesis using assms(2) by (simp add: room_ok_def)
next
  case (cut e)
  note f = ctrl_allowed_frame [OF cut(5), simplified]
  have "length (fd_buf d') \<le> length (fd_buf d)" by (simp add: cut(1) frame_cut_def f)
  then show ?thesis using assms(2) cut(1) f by (auto simp: room_ok_def frame_cut_def)
next
  case (control e f)
  have e: "fd_buf e = fd_buf d" "fd_cleared e = fd_cleared d" "fd_msg e = fd_msg d" "fd_msg_hlen e = fd_msg_hlen d"
      "fd_msg_len e = fd_msg_len d" "fd_msg_key e = fd_msg_key d" "fd_end e = fd_end d"
    using control(5) ctrl_allowed_frame [of cf now "d\<lparr>fd_seq := fd_seq d + 1\<rparr>" True e] by auto
  have "2 \<le> length (rest d)" using control(2) by (simp add: headed_def)
  from hoist_rest(5) [OF e(1-6) control(4) this assms(3), of d'] control(1,6)
  have "length (fd_buf d') = length (fd_buf d)" by simp
  then show ?thesis using assms(2) control(1,6) e by (auto simp: room_ok_def frame_hoist_def Let_def)
next
  case (tail e)
  then show ?thesis using assms(2) by (auto simp: room_ok_def frame_skip_on_def)
next
  case rsv
  have "room_ok (d\<lparr>fd_rsv_warned := True\<rparr>)" using assms(2) by (simp add: room_ok_def)
  then show ?thesis using rsv(1) let_pass_room assms(3,4) by simp
next
  case (start key)
  have "ws_masked (rest d)" using start(2) assms(4) by (simp add: headed_def)
  then show ?thesis using start(1) assms(2) head_len_minimal [of "rest d"] plen_bound [of "rest d"] by (auto simp: room_ok_def)
next
  case append
  have "ws_masked (rest d)" using append(2) assms(4) by (simp add: headed_def)
  then show ?thesis using append(1) append_room [OF append(4,3) assms(3,2)] by simp
qed (use assms let_pass_room in \<open>auto simp: room_ok_def frame_skip_on_def\<close>)

lemma append_end: "fd_end (frame_msg_append p h n d) = fd_end d"
  by (simp add: frame_msg_append_def Let_def)

lemma whole_end: "frame_whole cf au asm p q d = Inr (act, d') \<Longrightarrow> fd_end d' = fd_end d"
  by (cases "fd_msg d"; cases "fd_mode d = FRAME_JOURNAL"; cases "ws_fin q")
    (auto simp: frame_whole_def Let_def frame_hold_def frame_msg_seal_alt append_end split: if_splits)

lemma turn_stop_room:
  assumes "frame_turn cf now au d = Inr (act, d')" "room_ok d" "dir_ok d" "fd_masked d"
  shows "room_ok d'"
proof (cases "fd_skip d > 0")
  case True
  then show ?thesis using assms(1,2) by (auto simp: frame_turn_alt Let_def room_ok_def split: if_split_asm)
next
  case False
  from turn_stop [OF assms(1) False] show ?thesis
  proof
    assume w: "headed d \<and> whole (rest d) \<le> length (rest d) \<and> frame_whole cf au (assemble cf d) (at d) (rest d) d = Inr (act, d')"
    have end': "fd_end d' = fd_end d"
      using w whole_end by blast
    from whole_stop [of cf au "assemble cf d" "at d" "rest d" d act d'] w assms(3)
    consider "fd_buf d' = fd_buf d" "fd_msg d' = fd_msg d" "fd_msg_hlen d' = fd_msg_hlen d" "fd_msg_len d' = fd_msg_len d"
      | (m) e where "fd_msg d" "e = frame_msg_append (at d) (ws_hlen (rest d)) (ws_plen (rest d)) (d\<lparr>fd_seq := fd_seq d + 1\<rparr>)"
          "fd_buf d' = fd_buf (snd (frame_msg_seal True e))" "\<not> fd_msg d'"
      by auto
    then show "room_ok d'"
    proof cases
      case 1
      then show ?thesis using assms(2) end' by (simp add: room_ok_def)
    next
      case m
      have "ws_masked (rest d)" using w assms(4) by (simp add: headed_def)
      then have r: "room_ok e" using append_room [OF m(1) _ assms(3,2)] w m(2) by simp
      have ok: "dir_ok e" using append_rest(2) [OF m(1) _ refl assms(3) m(2)] w by (simp add: whole_def)
      have e: "fd_msg e" "fd_end e = fd_end d" "fd_masked e" using m(1,2) assms(4) by (simp_all add: frame_msg_append_def Let_def)
      obtain k f where f: "frame_msg_seal True e = (k, f)" by fastforce
      then have "k = head_len (fd_msg_len e) True" using e(3) by (auto simp: frame_msg_seal_alt)
      then show ?thesis using seal_rest(3) [OF ok e(1) f] r e m(3,4) f end' by (simp add: room_ok_def)
    qed
  qed (use assms(2) in simp)
qed

lemma recv_room:
  assumes "room_ok d" "length data \<le> pump_room d" shows "room_ok (pump_recv data d)"
proof -
  have "head_len (fd_msg_len d) True \<le> 14" by (simp add: head_len_def)
  then show ?thesis
    using assms
    by (cases "data = []") (auto simp: room_ok_def pump_recv_def pump_room_def Let_def split: if_splits)
qed

lemma dir_run_room:
  assumes "dir_run cf d0 d g sent" "run_ok d0" "room_ok d0" "fd_masked d0"
  shows "run_ok d \<and> fd_masked d \<and> room_ok d"
  using assms
proof (induction rule: dir_run.induct)
  case (r_parse d g sent now au act d')
  then have d: "dir_ok d" "room_ok d" "fd_masked d" "fd_mode d \<noteq> FRAME_JOURNAL" by (auto simp: run_ok_def)
  let ?P = "\<lambda>e. dir_ok e \<and> room_ok e \<and> fd_masked e"
  obtain e where e: "?P e" "frame_turn cf now au e = Inr (act, d')"
    using parse_invariant [OF r_parse(4), of ?P] goes_on_ok goes_on_room goes_on_conf d by metis
  then have "room_ok d'" using turn_stop_room by blast
  then show ?case using r_parse run_ok_parse [of d cf now au act d'] parse_held [OF r_parse(4) d(1,4)] by auto
next
  case (r_ok d g sent)
  then show ?case using run_ok_clear(1) by (auto simp: frame_clear_def room_ok_def)
next
  case (r_replace d g sent data)
  then show ?case using run_ok_replace(1) by (auto simp: frame_replace_def room_ok_def)
next
  case (r_sent d g sent n)
  then show ?case using run_ok_sent(1) [of d n] by (auto simp: pump_sent_def room_ok_def)
next
  case (r_drop d g sent)
  then show ?case using run_ok_drop(1) [of d] by (auto simp: pump_drop_def room_ok_def)
next
  case (r_out d g sent n)
  then show ?case using run_ok_out(1) [of d n] by (auto simp: pump_out_def room_ok_def)
next
  case (r_compact d g sent)
  then show ?case using run_ok_compact(1) [of d] by (auto simp: pump_compact_def room_ok_def)
next
  case (r_recv d g sent data)
  then show ?case using run_ok_recv(1) [of d data] recv_room [of d data] by (auto simp: pump_recv_def)
qed simp

text \<open>
  C29: The buffer of an inspected client never overflows. Whatever the client sends, fragmented or not,
  and in whatever way parsing, verdicts, sending and receiving follow each other, the bytes in the
  buffer stay within what was allocated, also when a reassembled message is given its own header.
\<close>

theorem client_buffer_never_overflows:
  assumes "frame_dir_init cf phase FRAME_INSPECT True seed True = Some d0" "dir_run cf d0 d g sent"
  shows "length (fd_buf d) \<le> fd_end d"
proof -
  have d0: "d0 = dir0\<lparr>fd_phase := phase, fd_mode := FRAME_INSPECT, fd_end := dir_size cf phase FRAME_INSPECT seed,
                     fd_buf := seed, fd_masked := True\<rparr>" "length seed \<le> dir_size cf phase FRAME_INSPECT seed"
    using assms(1) by (auto simp: frame_dir_init_def Let_def split: if_splits)
  have "run_ok d0" "room_ok d0" "fd_masked d0"
    using d0(2) by (simp_all add: d0(1) run_ok_def room_ok_def dir_ok_def at_def hold_def dir0_def out_bytes_def)
  then show ?thesis using dir_run_room [OF assms(2)] by (simp add: room_ok_def)
qed

theorem client_buffer_never_overflows_witness:
  "length (fd_buf (pump_recv [0x81, 0x80] (dir0\<lparr>fd_phase := PH_FRAME_C2S, fd_end := 4096, fd_masked := True\<rparr>))) \<le> 4096"
proof -
  let ?d = "dir0\<lparr>fd_phase := PH_FRAME_C2S, fd_mode := FRAME_INSPECT, fd_end := 4096, fd_buf := [], fd_masked := True\<rparr>"
  have init: "frame_dir_init block_conf PH_FRAME_C2S FRAME_INSPECT True [] True = Some ?d" by code_simp
  have "length [0x81, 0x80 :: byte] \<le> pump_room ?d" by code_simp
  from client_buffer_never_overflows [OF init r_recv [OF r_init this]]
  show ?thesis by (simp add: dir0_def pump_recv_def)
qed

end
