(* ===== verification/Frame_Verdict.thy ===== *)
theory Frame_Verdict
  imports Frame_Conn Frame_Laws
begin

text \<open>
  What a verdict does to the frame it is about: it goes on as it is, it goes on rewritten, it waits for
  its new content, or it stays where it is and the connection is closed.
\<close>

text \<open>The operations around a verdict that do not touch the directions.\<close>

lemma set_close_simps [simp]:
  "fc_dir (frame_set_close code reason why fc) = fc_dir fc" "fc_cur (frame_set_close code reason why fc) = fc_cur fc"
  "fc_closing (frame_set_close code reason why fc)" "fc_close_code (frame_set_close code reason why fc) = code"
  "fc_cache (frame_set_close code reason why fc) = fc_cache fc"
  by (simp_all add: frame_set_close_def)

lemma upd_fctx_simps [simp]:
  "fc_dir (upd_fctx f fc) = fc_dir fc" "fc_cur (upd_fctx f fc) = fc_cur fc" "fc_closing (upd_fctx f fc) = fc_closing fc"
  "fc_close_code (upd_fctx f fc) = fc_close_code fc" "fc_fetching (upd_fctx f fc) = fc_fetching fc"
  "fc_cache (upd_fctx f fc) = fc_cache fc"
  by (simp_all add: upd_fctx_def)

lemma upd_dir_simps [simp]:
  "fc_dir (upd_dir s f fc) = (fc_dir fc)(s := f (fc_dir fc s))" "fc_cur (upd_dir s f fc) = fc_cur fc"
  "fc_closing (upd_dir s f fc) = fc_closing fc" "fc_close_code (upd_dir s f fc) = fc_close_code fc"
  "fc_fetching (upd_dir s f fc) = fc_fetching fc" "fc_cache (upd_dir s f fc) = fc_cache fc"
  by (simp_all add: upd_dir_def)

lemma deny_close_simps [simp]:
  "fc_dir (frame_deny_close v fc) = fc_dir fc" "fc_cur (frame_deny_close v fc) = fc_cur fc" "fc_closing (frame_deny_close v fc)"
  by (auto simp: frame_deny_close_def Let_def split: option.split)

lemma frame_end_simps [simp]:
  "fc_dir (frame_end fc) = fc_dir fc" "fc_closing (frame_end fc) = fc_closing fc" "fc_close_code (frame_end fc) = fc_close_code fc"
  "fc_cur (frame_end fc) = None" "fc_fetching (frame_end fc) = fc_fetching fc" "fc_settled (frame_end fc) = fc_settled fc"
  by (auto simp: frame_end_def Let_def upd_fctx_def split: option.split bool.split)

lemma rewrite_fail_simps [simp]:
  "fc_dir (frame_rewrite_fail cf v fc) = fc_dir fc" "fc_cur (frame_rewrite_fail cf v fc) = fc_cur fc"
  by (auto simp: frame_rewrite_fail_def Let_def split: option.split)

lemma rewrite_fail_closes:
  "fc_cur fc = Some s \<Longrightarrow>
     fc_closing (frame_rewrite_fail cf v fc) = (fc_closing fc \<or> fk_exc_body cf (fd_phase (fc_dir fc s)) = POLICY_BLOCK)"
  by (auto simp: frame_rewrite_fail_def Let_def)

lemma rewrite_fail_code:
  "(fc_closing fc \<longrightarrow> fc_closing (frame_rewrite_fail cf v fc))
     \<and> (fc_close_code (frame_rewrite_fail cf v fc) \<noteq> 0 \<longrightarrow> fc_closing (frame_rewrite_fail cf v fc) \<or> fc_close_code fc \<noteq> 0)"
  by (auto simp: frame_rewrite_fail_def Let_def split: option.split)

text \<open>A direction with an output buffer.\<close>

definition with_out :: "frame_dir \<Rightarrow> frame_dir" where
  "with_out d = (if fd_out d = None then d\<lparr>fd_out := Some []\<rparr> else d)"

text \<open>The content of a rewritten frame is what the inspector announced, and it fits the output buffer.\<close>

definition content_ok :: "frame_conf \<Rightarrow> frame_env \<Rightarrow> reply \<Rightarrow> frame_dir \<Rightarrow> bytes \<Rightarrow> bool" where
  "content_ok cf v reply d data \<longleftrightarrow>
     int (length data) = r_rewrite_size reply
     \<and> (r_rewrite_sha256_set reply \<longrightarrow> sha256_final (sha256_update data (sha256_init (fv_stack v))) = r_rewrite_sha256 reply)
     \<and> length (frame_new d data) \<le> out_size cf (fd_phase d)"

lemma length_frame_new:
  assumes "length (fd_mask d) = 4"
  shows "length (frame_new d data) =
     2 + (if length data < 126 then 0 else if length data \<le> 65535 then 2 else 8) + (if fd_masked d then 4 else 0) + length data"
  using assms by (simp add: frame_new_def ws_head_def ws_mask_def be_bytes_def Let_def)

text \<open>What may have happened to the frame of a direction.\<close>

definition stays :: "frame_dir \<Rightarrow> frame_dir \<Rightarrow> bool" where
  "stays d d' \<longleftrightarrow> d' = d \<or> d' = with_out d"

lemma frame_swap_outcome:
  assumes "frame_swap cf v data fc = (q, fc')" "fc_cur fc = Some s" "length (fd_mask (fc_dir fc s)) = 4"
    and "p_replies (ph (fc_ctx fc)) = Some rs"
  shows "q = NGX_OK \<Longrightarrow> content_ok cf v (rs ! fc_rewrite_index fc) (fc_dir fc s) data \<and> fc' = upd_dir s (frame_replace data) fc"
    and "q \<noteq> NGX_OK \<Longrightarrow> fc' = fc \<or> fc' = upd_dir s with_out fc"
  using assms(1) unfolding frame_swap_def assms(2,4) option.case Let_def content_ok_def length_frame_new [OF assms(3)] with_out_def
  by (simp_all split: if_split_asm)

text \<open>The rewrite of a frame, up to the store: the frame is left alone, or replaced.\<close>

definition rewritten :: "frame_conf \<Rightarrow> frame_env \<Rightarrow> reply \<Rightarrow> frame_dir \<Rightarrow> frame_dir \<Rightarrow> bool" where
  "rewritten cf v reply d d' \<longleftrightarrow> (\<exists>data. content_ok cf v reply d data \<and> d' = frame_replace data d)"

lemma stays_upd:
  "fc' = fc \<or> fc' = upd_dir s with_out fc \<Longrightarrow> fc_dir fc' = (fc_dir fc)(s := fc_dir fc' s) \<and> stays (fc_dir fc s) (fc_dir fc' s)"
  by (auto simp: stays_def)

lemma swapped:
  assumes "frame_swap cf v data fc = (q, fc')" "fc_cur fc = Some s" "length (fd_mask (fc_dir fc s)) = 4"
    and "p_replies (ph (fc_ctx fc)) = Some rs" "fc'' = (if q \<noteq> NGX_OK then frame_rewrite_fail cf v fc' else fc')"
  shows "fc_dir fc'' = (fc_dir fc)(s := fc_dir fc'' s) \<and> fc_cur fc'' = Some s
     \<and> (fc_closing fc \<longrightarrow> fc_closing fc'') \<and> (fc_close_code fc'' \<noteq> 0 \<longrightarrow> fc_closing fc'' \<or> fc_close_code fc \<noteq> 0)
     \<and> (stays (fc_dir fc s) (fc_dir fc'' s)
        \<or> fc_closing fc'' = fc_closing fc \<and> rewritten cf v (rs ! fc_rewrite_index fc) (fc_dir fc s) (fc_dir fc'' s))"
proof (cases "q = NGX_OK")
  case True
  then show ?thesis using frame_swap_outcome(1) [OF assms(1-4)] assms(2,5) by (auto simp: rewritten_def)
next
  case False
  then show ?thesis using frame_swap_outcome(2) [OF assms(1-4)] stays_upd [of fc' fc s] assms(2,5) rewrite_fail_code [of fc' cf v] by auto
qed

lemma frame_rewrite_outcome:
  assumes "frame_rewrite cf v fc = (q, fc')" "fc_cur fc = Some s" "length (fd_mask (fc_dir fc s)) = 4" "p_replies (ph (fc_ctx fc)) = Some rs"
  shows "fc_dir fc' = (fc_dir fc)(s := fc_dir fc' s) \<and> fc_cur fc' = Some s
     \<and> (stays (fc_dir fc s) (fc_dir fc' s)
        \<or> q = NGX_DECLINED \<and> fc_closing fc' = fc_closing fc
          \<and> rewritten cf v (rs ! p_rewrite_last (ph (fc_ctx fc))) (fc_dir fc s) (fc_dir fc' s))
     \<and> (q = NGX_AGAIN \<longrightarrow> fc_closing fc' = fc_closing fc \<and> fc_dir fc' s = fc_dir fc s)
     \<and> (fc_closing fc \<longrightarrow> fc_closing fc') \<and> (fc_close_code fc' \<noteq> 0 \<longrightarrow> fc_closing fc' \<or> fc_close_code fc \<noteq> 0)"
proof -
  let ?p = "ph (fc_ctx fc)"
  let ?i = "if p_live ?p \<noteq> None then p_rewrite_last ?p else MAX_INSPECTORS"
  let ?f = "upd_fctx (\<lambda>c. c\<lparr>c_timer := None\<rparr>) (fc\<lparr>fc_rewrite_index := ?i\<rparr>)"
  have f: "fc_cur ?f = Some s" "fc_dir ?f = fc_dir fc" "fc_closing ?f = fc_closing fc" "p_replies (ph (fc_ctx ?f)) = Some rs"
      "fc_rewrite_index ?f = ?i" "fc_close_code ?f = fc_close_code fc"
    using assms(2,4) by (auto simp: upd_fctx_def)
  have fail: "fc_dir (frame_rewrite_fail cf v ?f) = fc_dir fc" "fc_cur (frame_rewrite_fail cf v ?f) = Some s" using f by simp_all
  consider "fc' = fc" "q = NGX_DECLINED" | "fc' = ?f" "q \<in> {NGX_DECLINED, NGX_AGAIN}" | "fc' = frame_rewrite_fail cf v ?f" "q = NGX_DECLINED"
    | (swap) data r g where "?i \<noteq> MAX_INSPECTORS" "frame_swap cf v data ?f = (r, g)" "fc' = (if r \<noteq> NGX_OK then frame_rewrite_fail cf v g else g)"
        "q = NGX_DECLINED"
    using assms(1) unfolding frame_rewrite_def Let_def assms(2,4)
    by (auto split: if_split_asm prod.split_asm rc.split_asm option.split_asm)
  then show ?thesis
  proof cases
    case swap
    have i: "?i = p_rewrite_last ?p" using swap(1) by (simp split: if_splits)
    show ?thesis using swapped [OF swap(2) f(1) _ f(4) swap(3)] assms(3) swap(4) f i by simp
  qed (use f fail assms(2) rewrite_fail_code [of ?f cf v] in \<open>auto simp: stays_def\<close>)
qed

lemma rewrite_any:
  assumes "frame_rewrite cf v fc = (q, fc')" "fc_cur fc = Some s" "length (fd_mask (fc_dir fc s)) = 4"
  shows "fc_dir fc' = (fc_dir fc)(s := fc_dir fc' s) \<and> fc_cur fc' = Some s \<and> (q = NGX_AGAIN \<longrightarrow> fc_dir fc' s = fc_dir fc s)
     \<and> (fc_close_code fc' \<noteq> 0 \<longrightarrow> fc_closing fc' \<or> fc_close_code fc \<noteq> 0)
     \<and> (stays (fc_dir fc s) (fc_dir fc' s)
        \<or> (\<exists>rs. p_replies (ph (fc_ctx fc)) = Some rs
             \<and> rewritten cf v (rs ! p_rewrite_last (ph (fc_ctx fc))) (fc_dir fc s) (fc_dir fc' s)) \<and> fc_closing fc' = fc_closing fc)"
proof (cases "p_replies (ph (fc_ctx fc))")
  case None
  then have "fc' = fc" using assms(1,2) by (simp add: frame_rewrite_def Let_def)
  then show ?thesis using assms(2) by (simp add: stays_def)
next
  case (Some rs)
  then show ?thesis using frame_rewrite_outcome [OF assms Some] by auto
qed

lemma frame_settle_outcome:
  assumes "fc_cur fc = Some s"
  shows "r = FRC NGX_OK \<Longrightarrow> fc_dir (frame_settle cf v r fc) = (fc_dir fc)(s := frame_clear (fc_dir fc s))
           \<and> fc_closing (frame_settle cf v r fc) = fc_closing fc"
    and "r \<noteq> FRC NGX_OK \<Longrightarrow> fc_dir (frame_settle cf v r fc) = (fc_dir fc)(s := (fc_dir fc s)\<lparr>fd_denied := fd_denied (fc_dir fc s) + 1\<rparr>)
           \<and> fc_close_code (frame_settle cf v r fc) \<noteq> 0
           \<and> ((fc_close_code fc \<noteq> 0 \<longrightarrow> fc_closing fc) \<longrightarrow> fc_closing (frame_settle cf v r fc))"
    and "fc_cur (frame_settle cf v r fc) = None"
  using assms by (auto simp: frame_settle_def Let_def)

lemma clear_replaced: "frame_clear (frame_replace data d) = frame_replace data d"
  by (simp add: frame_clear_def frame_replace_def)

text \<open>The frame of a direction after a verdict, when it may go on and when it may not.\<close>

definition let_go :: "frame_conf \<Rightarrow> frame_env \<Rightarrow> frame_conn \<Rightarrow> frame_dir \<Rightarrow> frame_dir \<Rightarrow> bool" where
  "let_go cf v fc d d' \<longleftrightarrow>
     (\<exists>e. stays d e \<and> d' = frame_clear e)
     \<or> (\<exists>rs. p_replies (ph (fc_ctx fc)) = Some rs \<and> rewritten cf v (rs ! p_rewrite_last (ph (fc_ctx fc))) d d')"

definition refused :: "frame_dir \<Rightarrow> frame_dir \<Rightarrow> bool" where
  "refused d d' \<longleftrightarrow> (\<exists>e. stays d e \<and> d' = e\<lparr>fd_denied := fd_denied e + 1\<rparr>)"

lemma settle_let_go:
  assumes "fc_cur f = Some s" "fc_dir f = (fc_dir fc)(s := e)" "stays (fc_dir fc s) e \<or> (\<exists>rs. p_replies (ph (fc_ctx fc)) = Some rs
      \<and> rewritten cf v (rs ! p_rewrite_last (ph (fc_ctx fc))) (fc_dir fc s) e)"
  shows "let_go cf v fc (fc_dir fc s) (fc_dir (frame_settle cf v (FRC NGX_OK) f) s)"
    "\<forall>t. t \<noteq> s \<longrightarrow> fc_dir (frame_settle cf v (FRC NGX_OK) f) t = fc_dir fc t"
proof -
  have d: "fc_dir (frame_settle cf v (FRC NGX_OK) f) = (fc_dir fc)(s := frame_clear e)"
    using frame_settle_outcome(1) [OF assms(1) refl] assms(2) by simp
  show "let_go cf v fc (fc_dir fc s) (fc_dir (frame_settle cf v (FRC NGX_OK) f) s)"
    using assms(3) clear_replaced by (auto simp: d let_go_def rewritten_def)
  show "\<forall>t. t \<noteq> s \<longrightarrow> fc_dir (frame_settle cf v (FRC NGX_OK) f) t = fc_dir fc t" by (simp add: d)
qed

lemma settle_refused:
  assumes "fc_cur f = Some s" "fc_dir f = (fc_dir fc)(s := e)" "stays (fc_dir fc s) e" "r \<noteq> FRC NGX_OK"
    and "fc_close_code f \<noteq> 0 \<longrightarrow> fc_closing f"
  shows "refused (fc_dir fc s) (fc_dir (frame_settle cf v r f) s)"
    "\<forall>t. t \<noteq> s \<longrightarrow> fc_dir (frame_settle cf v r f) t = fc_dir fc t"
    "fc_closing (frame_settle cf v r f)" "fc_close_code (frame_settle cf v r f) \<noteq> 0"
  using frame_settle_outcome(2) [OF assms(1,4)] assms(2,3,5) by (auto simp: refused_def)


text \<open>A frame of a client that was allowed.\<close>

definition held_dir :: frame_dir where
  "held_dir = dir0\<lparr>fd_buf := [0x81, 1, 0x61], fd_held := 3, fd_end := 4096\<rparr>"

definition held_conn :: frame_conn where
  "held_conn = \<lparr>fc_dir = (\<lambda>_. held_dir), fc_cur = Some S2C, fc_pool = True, fc_body = [0x61], fc_rewrite_index = 0, fc_close_code = 0,
     fc_close_reason = [], fc_close_why = None, fc_settled = False, fc_fetching = False, fc_in_stack = True, fc_closing = False,
     fc_route_hash = 0, fc_sha256 = [], fc_sha_set = False, fc_is_cached = False, fc_saved_actions = [], fc_saved_markers = [],
     fc_conn_ctl = (\<lambda>_. control0), fc_conn_audit = c_audit_ovr ctx0 OVR_REQUEST, fc_ctl_init = True, fc_ctx = ctx0, fc_cache = None,
     fc_now = 0\<rparr>"

definition still_env :: frame_env where
  "still_env = \<lparr>fv_pool = True, fv_copy = True, fv_arrays = True, fv_checks = Pair (FRC NGX_DECLINED), fv_waves = Pair (FRC NGX_OK),
     fv_finish = Pair (FRC NGX_OK), fv_resume = Pair (FRC NGX_OK), fv_store = (\<lambda>_. (NGX_ERROR, None)), fv_out = True,
     fv_stack = \<lparr>sha_bytes = 0, sha_h = h0, sha_block = [], sha_used = 0\<rparr>, fv_deny = None, fv_reason = (\<lambda>_. []), fv_extras = (\<lambda>_. False)\<rparr>"


end
