(* ===== verification/Rb_Tree.thy ===== *)
theory Rb_Tree
  imports Waf_Types "HOL-Library.Tree" "HOL-Library.List_Lexorder" "HOL-Library.Product_Lexorder"
begin

text \<open>
  Search trees in shared memory, as the rate limits and the data sets keep them. A node is an address,
  what it holds is read from a memory, and the key by which the tree is ordered is read from the node.
  The search and the descent on insertion are the module's own, one pair for every tree; the locale
  \<open>node_tree\<close> states what such a pair has to do, and holds the laws that follow once for all of them.
  The rebalancing is nginx's (\<open>ngx_rbtree.c\<close>) and a parameter.
\<close>

subsection \<open>Comparing byte strings\<close>

fun memn2cmp :: "bytes \<Rightarrow> bytes \<Rightarrow> int" where
  "memn2cmp [] [] = 0"
| "memn2cmp [] (b # ys) = -1"
| "memn2cmp (a # xs) [] = 1"
| "memn2cmp (a # xs) (b # ys) = (if a < b then -1 else if b < a then 1 else memn2cmp xs ys)"

lemma memn2cmp_less: "memn2cmp xs ys < 0 \<longleftrightarrow> xs < ys"
  by (induction xs ys rule: memn2cmp.induct) auto

lemma memn2cmp_eq: "memn2cmp xs ys = 0 \<longleftrightarrow> xs = ys"
  by (induction xs ys rule: memn2cmp.induct) auto

lemma memn2cmp_greater: "memn2cmp xs ys > 0 \<longleftrightarrow> ys < xs"
  using memn2cmp_less memn2cmp_eq by (metis linorder_less_linear less_asym)

subsection \<open>What nginx does\<close>

text \<open>What nginx's red-black tree does after a node was linked, and on a deletion. The module relies on
  this: rebalancing keeps the order of the nodes, and a deletion takes out the one node.\<close>

record rbtree =
  rb_fix :: "nat tree \<Rightarrow> nat tree"
  rb_del :: "nat \<Rightarrow> nat tree \<Rightarrow> nat tree"

definition rb_ok :: "rbtree \<Rightarrow> bool" where
  "rb_ok rb \<longleftrightarrow> (\<forall>t. inorder (rb_fix rb t) = inorder t)
     \<and> (\<forall>a t. distinct (inorder t) \<longrightarrow> inorder (rb_del rb a t) = remove1 a (inorder t))"

text \<open>A tree that satisfies this: a list of nodes.\<close>

fun spine :: "nat list \<Rightarrow> nat tree" where
  "spine [] = Leaf"
| "spine (a # as) = Node Leaf a (spine as)"

definition list_rb :: rbtree where
  "list_rb = \<lparr>rb_fix = (\<lambda>t. t), rb_del = (\<lambda>a t. spine (remove1 a (inorder t)))\<rparr>"

lemma spine_inorder [simp]: "inorder (spine as) = as"
  by (induction as) auto

lemma list_rb_ok: "rb_ok list_rb"
  by (simp add: rb_ok_def list_rb_def)

subsection \<open>Trees of nodes with a key\<close>

definition key_ordered :: "('n \<Rightarrow> 'k :: linorder) \<Rightarrow> (nat \<Rightarrow> 'n) \<Rightarrow> nat tree \<Rightarrow> bool" where
  "key_ordered key mem t \<longleftrightarrow> sorted_wrt (<) (map (\<lambda>a. key (mem a)) (inorder t))"

lemma key_ordered_Leaf [simp]: "key_ordered key mem Leaf"
  by (simp add: key_ordered_def)

lemma key_ordered_Node:
  "key_ordered key mem (Node l a r) \<longleftrightarrow> key_ordered key mem l \<and> key_ordered key mem r
     \<and> (\<forall>b\<in>set_tree l. key (mem b) < key (mem a)) \<and> (\<forall>b\<in>set_tree r. key (mem a) < key (mem b))"
  by (auto simp: key_ordered_def sorted_wrt_append intro: less_trans)

lemma key_ordered_distinct: "key_ordered key mem t \<Longrightarrow> distinct (inorder t)"
  by (auto simp: key_ordered_def strict_sorted_iff distinct_map)

lemma key_ordered_mem:
  "(\<And>a. a \<in> set_tree t \<Longrightarrow> key (mem' a) = key (mem a)) \<Longrightarrow> key_ordered key mem' t \<longleftrightarrow> key_ordered key mem t"
  unfolding key_ordered_def by (subst map_cong [OF refl, of "inorder t" _ "\<lambda>a. key (mem a)"]) simp_all

lemma key_ordered_inj:
  assumes "key_ordered key mem t" "a \<in> set_tree t" "b \<in> set_tree t" "key (mem a) = key (mem b)"
  shows "a = b"
proof -
  have "distinct (map (\<lambda>a. key (mem a)) (inorder t))" using assms(1) by (simp add: key_ordered_def strict_sorted_iff)
  then show ?thesis using assms(2-4) by (auto simp: distinct_map inj_on_def)
qed

lemma rb_fix_ordered:
  assumes "rb_ok rb" shows "key_ordered key mem (rb_fix rb t) \<longleftrightarrow> key_ordered key mem t" "set_tree (rb_fix rb t) = set_tree t"
  using assms by (auto simp: rb_ok_def key_ordered_def simp flip: set_inorder)

lemma rb_del_ordered:
  assumes "rb_ok rb" "key_ordered key mem t"
  shows "key_ordered key mem (rb_del rb a t)" "set_tree (rb_del rb a t) = set_tree t - {a}"
    "inorder (rb_del rb a t) = remove1 a (inorder t)"
proof -
  have d: "distinct (inorder t)" using assms(2) by (rule key_ordered_distinct)
  then show io: "inorder (rb_del rb a t) = remove1 a (inorder t)" using assms(1) by (simp add: rb_ok_def)
  have "remove1 a (inorder t) = filter (\<lambda>b. b \<noteq> a) (inorder t)"
    using d by (simp add: distinct_remove1_removeAll removeAll_filter_not_eq eq_commute)
  then show "key_ordered key mem (rb_del rb a t)"
    using assms(2) io by (auto simp: key_ordered_def sorted_wrt_map intro!: sorted_wrt_filter)
  show "set_tree (rb_del rb a t) = set_tree t - {a}" using io d by (metis set_inorder set_remove1_eq)
qed

locale node_tree =
  fixes key :: "'n \<Rightarrow> 'k :: linorder"
    and find_node :: "(nat \<Rightarrow> 'n) \<Rightarrow> 'k \<Rightarrow> nat tree \<Rightarrow> nat option"
    and insert_node :: "(nat \<Rightarrow> 'n) \<Rightarrow> nat \<Rightarrow> nat tree \<Rightarrow> nat tree"
  assumes find_Leaf: "find_node mem k Leaf = None"
    and find_Node: "find_node mem k (Node l a r) =
      (if k < key (mem a) then find_node mem k l else if k = key (mem a) then Some a else find_node mem k r)"
    and insert_Leaf: "insert_node mem a Leaf = Node Leaf a Leaf"
    and insert_Node: "insert_node mem a (Node l b r) =
      (if key (mem a) < key (mem b) then Node (insert_node mem a l) b r else Node l b (insert_node mem a r))"
begin

lemma find_iff:
  "key_ordered key mem t \<Longrightarrow> find_node mem k t = Some a \<longleftrightarrow> a \<in> set_tree t \<and> key (mem a) = k"
proof (induction t)
  case (Node l b r)
  have n: "key_ordered key mem l" "key_ordered key mem r" "\<forall>c\<in>set_tree l. key (mem c) < key (mem b)"
    "\<forall>c\<in>set_tree r. key (mem b) < key (mem c)"
    using Node.prems by (simp_all add: key_ordered_Node)
  consider "k < key (mem b)" | "k = key (mem b)" | "key (mem b) < k" by (rule linorder_cases)
  then show ?case using Node.IH n by cases (auto simp: find_Node)
qed (simp add: find_Leaf)

lemma find_None:
  "key_ordered key mem t \<Longrightarrow> find_node mem k t = None \<longleftrightarrow> (\<forall>a\<in>set_tree t. key (mem a) \<noteq> k)"
  using find_iff [of mem t k] by (metis not_None_eq)

lemma insert_set: "set_tree (insert_node mem a t) = insert a (set_tree t)"
  by (induction t) (auto simp: insert_Leaf insert_Node)

lemma insert_ordered:
  "key_ordered key mem t \<Longrightarrow> \<forall>b\<in>set_tree t. key (mem b) \<noteq> key (mem a) \<Longrightarrow> key_ordered key mem (insert_node mem a t)"
proof (induction t)
  case Leaf
  then show ?case by (simp add: insert_Leaf key_ordered_def)
next
  case (Node l b r)
  then show ?case
    by (auto simp: insert_Node key_ordered_Node insert_set not_less order.not_eq_order_implies_strict)
qed

text \<open>A new node, written to an address that is not in the tree, linked and rebalanced.\<close>

lemma insert_new:
  assumes "rb_ok rb" "key_ordered key mem t" "a \<notin> set_tree t" "\<forall>b\<in>set_tree t. key (mem b) \<noteq> key n"
  shows "key_ordered key (mem(a := n)) (rb_fix rb (insert_node (mem(a := n)) a t))"
    "set_tree (rb_fix rb (insert_node (mem(a := n)) a t)) = insert a (set_tree t)"
proof -
  let ?m = "mem(a := n)"
  have "key_ordered key ?m t" using assms(2,3) by (subst key_ordered_mem [where mem = mem]) auto
  moreover have "\<forall>b\<in>set_tree t. key (?m b) \<noteq> key (?m a)" using assms(3,4) by auto
  ultimately show "key_ordered key ?m (rb_fix rb (insert_node ?m a t))"
    using insert_ordered rb_fix_ordered(1) [OF assms(1)] by blast
  show "set_tree (rb_fix rb (insert_node ?m a t)) = insert a (set_tree t)"
    by (simp add: rb_fix_ordered(2) [OF assms(1)] insert_set)
qed

end

end
