(* ===== verification/Rate.thy ===== *)
theory Rate
  imports Rb_Tree
begin

text \<open>
  The local rate limits (\<open>src/module/src/local/ngx_http_waf_rate.c\<close>): leaky buckets in shared
  memory, one for every rule and key. The buckets are nodes of a red-black tree, ordered by hash, rule
  and key, and at the same time elements of a queue in the order of their last use, from whose end
  buckets are evicted.

  A node is an address; what it holds is read from the memory of the zone. The rebalancing of the tree
  is nginx's (\<open>ngx_rbtree.c\<close>) and a parameter, and so are the slab allocator and the checksum; the
  descent on insertion and the search are the module's own. A call runs under the lock of the zone and
  is one step.
\<close>

subsection \<open>Rules and nodes\<close>

abbreviation (input) RATE_KEY_MAX :: nat where "RATE_KEY_MAX \<equiv> 255"
abbreviation (input) RATE_EVICT :: nat where "RATE_EVICT \<equiv> 16"
abbreviation (input) MD5_HEX_LEN :: nat where "MD5_HEX_LEN \<equiv> 32"

datatype rate_count = RATE_REQUESTS | RATE_WAVES | RATE_FRAMES

datatype rate_mode = RATE_PEEK | RATE_GATE | RATE_DEBT

text \<open>\<open>ru_list\<close> tells whether the rule puts the keys it blocks on a list.\<close>

record rate_rule =
  ru_rate :: u64
  ru_burst :: u64
  ru_count :: rate_count
  ru_action :: policy
  ru_response :: bytes
  ru_list :: bool
  ru_list_ttl :: u64
  ru_md5 :: bool
  ru_sig :: u32

record rate_node =
  rn_hash :: u32
  rn_sig :: u32
  rn_data :: bytes
  rn_rate :: u64
  rn_excess :: u64
  rn_last :: msec

record rate_shm =
  rs_mem :: "nat \<Rightarrow> rate_node"
  rs_tree :: "nat tree"
  rs_lru :: "nat list"
  rs_bytes :: nat

definition rate_init :: "(nat \<Rightarrow> rate_node) \<Rightarrow> rate_shm" where
  "rate_init mem = \<lparr>rs_mem = mem, rs_tree = Leaf, rs_lru = [], rs_bytes = 0\<rparr>"

subsection \<open>The tree\<close>

fun rate_find :: "(nat \<Rightarrow> rate_node) \<Rightarrow> u32 \<Rightarrow> bytes \<Rightarrow> u32 \<Rightarrow> nat tree \<Rightarrow> nat option" where
  "rate_find mem sig key hash Leaf = None"
| "rate_find mem sig key hash (Node l a r) =
     (let rn = mem a in
      if hash < rn_hash rn then rate_find mem sig key hash l
      else if hash > rn_hash rn then rate_find mem sig key hash r
      else
        let rc = (if rn_sig rn = sig then memn2cmp key (rn_data rn) else if sig < rn_sig rn then -1 else 1)
        in if rn_sig rn = sig \<and> rc = 0 then Some a
           else if rc < 0 then rate_find mem sig key hash l
           else rate_find mem sig key hash r)"

definition rate_lookup :: "rate_shm \<Rightarrow> rate_rule \<Rightarrow> bytes \<Rightarrow> u32 \<Rightarrow> nat option" where
  "rate_lookup z rule key hash = rate_find (rs_mem z) (ru_sig rule) key hash (rs_tree z)"

fun rate_insert_value :: "(nat \<Rightarrow> rate_node) \<Rightarrow> nat \<Rightarrow> nat tree \<Rightarrow> nat tree" where
  "rate_insert_value mem node Leaf = Node Leaf node Leaf"
| "rate_insert_value mem node (Node l temp r) =
     (let rn = mem node; rt = mem temp;
          left = (if rn_hash rn < rn_hash rt then True
                  else if rn_hash rn > rn_hash rt then False
                  else if rn_sig rn \<noteq> rn_sig rt then rn_sig rn < rn_sig rt
                  else memn2cmp (rn_data rn) (rn_data rt) < 0)
      in if left then Node (rate_insert_value mem node l) temp r
         else Node l temp (rate_insert_value mem node r))"

subsection \<open>Room\<close>

text \<open>\<open>offsetof (ngx_rbtree_node_t, color) + offsetof (ngx_http_waf_rate_node_t, data)\<close> on LP64: four words,
  and the fields before \<open>data\<close>.\<close>

abbreviation (input) RATE_NODE_SIZE :: nat where "RATE_NODE_SIZE \<equiv> 84"

function charge_loop :: "nat \<Rightarrow> nat \<Rightarrow> nat" where
  "charge_loop size' charge = (if charge < size' \<and> charge \<noteq> 0 then charge_loop size' (charge * 2) else charge)"
  by pat_completeness auto
termination by (relation "measure (\<lambda>(s, c). s - c)") auto

declare charge_loop.simps [simp del]

definition rate_charge :: "nat \<Rightarrow> nat" where
  "rate_charge len = charge_loop (RATE_NODE_SIZE + len) 8"

definition rate_elapsed :: "msec \<Rightarrow> msec \<Rightarrow> int" where
  "rate_elapsed now since =
     (let ms = msec_diff now since in if ms < -60000 then 1 else if ms < 0 then 0 else ms)"

text \<open>\<open>(ngx_int_t) (rate * (ngx_uint_t) ms / 1000)\<close>\<close>

definition rate_leak :: "u64 \<Rightarrow> int \<Rightarrow> int" where
  "rate_leak rate ms = sint (rate * of_int ms div 1000)"

definition rate_free :: "rbtree \<Rightarrow> nat \<Rightarrow> rate_shm \<Rightarrow> rate_shm" where
  "rate_free rb rn z =
     (let charge = rate_charge (length (rn_data (rs_mem z rn))) in
      z\<lparr>rs_lru := remove1 rn (rs_lru z), rs_tree := rb_del rb rn (rs_tree z),
        rs_bytes := (if rs_bytes z > charge then rs_bytes z - charge else 0)\<rparr>)"

fun expire_loop :: "rbtree \<Rightarrow> msec \<Rightarrow> nat \<Rightarrow> bool \<Rightarrow> rate_shm \<Rightarrow> rate_shm" where
  "expire_loop rb now 0 force z = z"
| "expire_loop rb now (Suc n) force z =
     (if rs_lru z = [] then z
      else
        let a = last (rs_lru z); rn = rs_mem z a in
        if \<not> force \<and> sint (rn_excess rn) - rate_leak (rn_rate rn) (rate_elapsed now (rn_last rn)) > 0 then z
        else expire_loop rb now n False (rate_free rb a z))"

definition rate_expire :: "rbtree \<Rightarrow> msec \<Rightarrow> bool \<Rightarrow> rate_shm \<Rightarrow> rate_shm" where
  "rate_expire rb now force z = expire_loop rb now 2 force z"

fun evict_loop :: "rbtree \<Rightarrow> msec \<Rightarrow> nat \<Rightarrow> nat \<Rightarrow> nat \<Rightarrow> rate_shm \<Rightarrow> rate_shm" where
  "evict_loop rb now room charge 0 z = z"
| "evict_loop rb now room charge (Suc n) z =
     (if rs_bytes z + charge > room \<and> rs_lru z \<noteq> []
      then evict_loop rb now room charge n (rate_expire rb now True z)
      else z)"

text \<open>\<open>alloc\<close> is the slab allocator: the address of a new node, or nothing.\<close>

definition rate_insert ::
  "rbtree \<Rightarrow> (rate_shm \<Rightarrow> nat option) \<Rightarrow> msec \<Rightarrow> nat \<Rightarrow> rate_rule \<Rightarrow> bytes \<Rightarrow> u32 \<Rightarrow> u64 \<Rightarrow> rate_shm \<Rightarrow> rc \<times> rate_shm" where
  "rate_insert rb alloc now room rule key hash excess z =
     (let charge = rate_charge (length key);
          z = rate_expire rb now False z;
          z = evict_loop rb now room charge RATE_EVICT z;
          (node, z) = (if rs_bytes z + charge \<le> room
                       then case alloc z of
                              Some a \<Rightarrow> (Some a, z)
                            | None \<Rightarrow> let z = rate_expire rb now True z in (alloc z, z)
                       else (None, z))
      in case node of
           None \<Rightarrow> (NGX_ERROR, z)
         | Some a \<Rightarrow>
             let rn = \<lparr>rn_hash = hash, rn_sig = ru_sig rule, rn_data = key, rn_rate = ru_rate rule,
                       rn_excess = excess, rn_last = now\<rparr>;
                 mem = (rs_mem z)(a := rn)
             in (NGX_OK, z\<lparr>rs_bytes := rs_bytes z + charge, rs_mem := mem,
                           rs_tree := rb_fix rb (rate_insert_value mem a (rs_tree z)),
                           rs_lru := a # rs_lru z\<rparr>))"

subsection \<open>Accounting\<close>

text \<open>\<open>crc\<close> is \<open>ngx_crc32_short\<close>. The result is the verdict, the excess that is reported, and the zone.\<close>

definition rate_account ::
  "rbtree \<Rightarrow> (rate_shm \<Rightarrow> nat option) \<Rightarrow> (bytes \<Rightarrow> u32) \<Rightarrow> msec \<Rightarrow> nat \<Rightarrow> rate_rule \<Rightarrow> bytes \<Rightarrow> rate_mode \<Rightarrow> rate_shm
     \<Rightarrow> rc \<times> u64 \<times> rate_shm" where
  "rate_account rb alloc crc now room rule key mode z =
     (let hash = crc key XOR ru_sig rule in
      case rate_lookup z rule key hash of
        None \<Rightarrow>
          (NGX_OK, 0,
           if mode \<noteq> RATE_PEEK
           then snd (rate_insert rb alloc now room rule key hash (if mode = RATE_DEBT then 1000 else 0) z)
           else z)
      | Some a \<Rightarrow>
          let rn = rs_mem z a;
              z = z\<lparr>rs_lru := a # remove1 a (rs_lru z)\<rparr>;
              ms = rate_elapsed now (rn_last rn);
              value = sint (rn_excess rn) - rate_leak (ru_rate rule) ms + (if mode = RATE_PEEK then 0 else 1000);
              value = (if value < 0 then 0 else value);
              store = (\<lambda>e. z\<lparr>rs_mem := (rs_mem z)(a := rn\<lparr>rn_excess := of_int e, rn_last := (if ms \<noteq> 0 then now else rn_last rn)\<rparr>)\<rparr>)
          in if mode = RATE_PEEK then (if value \<le> sint (ru_burst rule) then NGX_OK else NGX_DECLINED, of_int value, z)
             else if value \<le> sint (ru_burst rule) then (NGX_OK, of_int value, store value)
             else if mode = RATE_DEBT
             then let limit = sint (ru_burst rule + ru_rate rule)
                  in (NGX_DECLINED, of_int value, store (if value > limit then limit else value))
             else (NGX_DECLINED, of_int value, z))"

subsection \<open>The rules of a route\<close>

text \<open>What the code around a rule gives: whether its conditions hold, the value of its key, the MD5 of a
  value in hexadecimal.\<close>

record rate_env =
  rv_cond :: "rate_rule \<Rightarrow> bool"
  rv_operand :: "rate_rule \<Rightarrow> bytes option"
  rv_md5 :: "bytes \<Rightarrow> bytes"
  rv_rb :: rbtree
  rv_alloc :: "rate_shm \<Rightarrow> nat option"
  rv_crc :: "bytes \<Rightarrow> u32"
  rv_now :: msec
  rv_max :: nat

definition rate_key :: "rate_env \<Rightarrow> rate_rule \<Rightarrow> (bytes \<times> bytes) option" where
  "rate_key v rule =
     (case rv_operand v rule of
        None \<Rightarrow> None
      | Some raw \<Rightarrow>
          if raw = [] then None
          else if ru_md5 rule then Some (raw, rv_md5 v raw)
          else if length raw > RATE_KEY_MAX then None
          else Some (raw, raw))"

text \<open>What a check answers when a limit blocks: the response of the rule, and the key to be put on its list.\<close>

type_synonym rate_block = "bytes \<times> (bytes \<times> u64) option"

fun rate_check_loop :: "rate_env \<Rightarrow> bool \<Rightarrow> rate_rule list \<Rightarrow> rate_shm \<Rightarrow> rate_block option \<times> rate_shm" where
  "rate_check_loop v frame [] z = (None, z)"
| "rate_check_loop v frame (rule # rules) z =
     (if (if frame then ru_count rule \<noteq> RATE_FRAMES else ru_count rule = RATE_FRAMES) then rate_check_loop v frame rules z
      else if \<not> rv_cond v rule then rate_check_loop v frame rules z
      else case rate_key v rule of
        None \<Rightarrow> rate_check_loop v frame rules z
      | Some (raw, key) \<Rightarrow>
          let (rc, excess, z) = rate_account (rv_rb v) (rv_alloc v) (rv_crc v) (rv_now v) (rv_max v) rule key
                                  (if ru_count rule = RATE_WAVES then RATE_PEEK else RATE_GATE) z
          in if rc = NGX_OK then rate_check_loop v frame rules z
             else if ru_action rule = POLICY_BLOCK
             then (Some (ru_response rule, if ru_list rule then Some (raw, ru_list_ttl rule) else None), z)
             else rate_check_loop v frame rules z)"

text \<open>\<open>None\<close> for a route without limits and for a missing zone.\<close>

definition rate_check ::
  "rate_env \<Rightarrow> phase \<Rightarrow> rate_rule list option \<Rightarrow> rate_shm option \<Rightarrow> rc \<times> rate_block option \<times> rate_shm option" where
  "rate_check v phase rules shm =
     (case (rules, shm) of
        (Some rules, Some z) \<Rightarrow>
          let (b, z) = rate_check_loop v (phase_is_frame phase) rules z
          in (if b = None then NGX_OK else NGX_DECLINED, b, Some z)
      | _ \<Rightarrow> (NGX_OK, None, shm))"

fun charge_wave_loop :: "rate_env \<Rightarrow> rate_rule list \<Rightarrow> rate_shm \<Rightarrow> rate_shm" where
  "charge_wave_loop v [] z = z"
| "charge_wave_loop v (rule # rules) z =
     charge_wave_loop v rules
       (if ru_count rule \<noteq> RATE_WAVES \<or> \<not> rv_cond v rule then z
        else case rate_key v rule of
          None \<Rightarrow> z
        | Some (raw, key) \<Rightarrow>
            snd (snd (rate_account (rv_rb v) (rv_alloc v) (rv_crc v) (rv_now v) (rv_max v) rule key RATE_DEBT z)))"

definition rate_charge_wave :: "rate_env \<Rightarrow> rate_rule list option \<Rightarrow> rate_shm option \<Rightarrow> rate_shm option" where
  "rate_charge_wave v rules shm =
     (case (rules, shm) of (Some rules, Some z) \<Rightarrow> Some (charge_wave_loop v rules z) | _ \<Rightarrow> shm)"

end
