(* ===== verification/Rate_Laws.thy ===== *)
theory Rate_Laws
  imports Rate
begin

text \<open>
  The zone of the rate limits as a map from rules and keys to buckets: the search finds exactly the
  bucket of a key, eviction only forgets, and every call keeps tree, queue and accounting of bytes
  consistent.
\<close>

subsection \<open>The order of the nodes\<close>

definition node_key :: "rate_node \<Rightarrow> u32 \<times> u32 \<times> bytes" where
  "node_key n = (rn_hash n, rn_sig n, rn_data n)"

lemma rate_find_Node:
  "rate_find mem sig key hash (Node l a r) =
     (if (hash, sig, key) < node_key (mem a) then rate_find mem sig key hash l
      else if (hash, sig, key) = node_key (mem a) then Some a
      else rate_find mem sig key hash r)"
  by (auto simp: Let_def node_key_def memn2cmp_less memn2cmp_eq not_less)

lemma rate_insert_value_Node:
  "rate_insert_value mem node (Node l temp r) =
     (if node_key (mem node) < node_key (mem temp) then Node (rate_insert_value mem node l) temp r
      else Node l temp (rate_insert_value mem node r))"
  by (auto simp: Let_def node_key_def memn2cmp_less)

declare rate_find.simps(2) [simp del] rate_insert_value.simps(2) [simp del]

interpretation rt: node_tree node_key "\<lambda>mem (hash, sig, key). rate_find mem sig key hash" rate_insert_value
  by unfold_locales (auto simp: rate_find_Node rate_insert_value_Node split: prod.splits)

abbreviation ordered :: "(nat \<Rightarrow> rate_node) \<Rightarrow> nat tree \<Rightarrow> bool" where
  "ordered \<equiv> key_ordered node_key"

lemmas ordered_def = key_ordered_def [of node_key]
lemmas rate_find_iff = rt.find_iff [of _ _ "(hash, sig, key)" for hash sig key, simplified]
lemmas rate_find_None = rt.find_None [of _ _ "(hash, sig, key)" for hash sig key, simplified]

subsection \<open>A consistent zone\<close>

text \<open>What the module relies on of the slab allocator: memory in use is not handed out again.\<close>

definition alloc_ok :: "(rate_shm \<Rightarrow> nat option) \<Rightarrow> bool" where
  "alloc_ok alloc \<longleftrightarrow> (\<forall>z a. alloc z = Some a \<longrightarrow> a \<notin> set (rs_lru z))"

definition node_charge :: "rate_shm \<Rightarrow> nat \<Rightarrow> nat" where
  "node_charge z a = rate_charge (length (rn_data (rs_mem z a)))"

definition zone_ok :: "nat \<Rightarrow> rate_shm \<Rightarrow> bool" where
  "zone_ok room z \<longleftrightarrow>
     ordered (rs_mem z) (rs_tree z) \<and> distinct (rs_lru z) \<and> set (rs_lru z) = set_tree (rs_tree z)
     \<and> rs_bytes z = sum_list (map (node_charge z) (rs_lru z)) \<and> rs_bytes z \<le> room"

text \<open>The bucket of a key.\<close>

definition bucket :: "rate_shm \<Rightarrow> u32 \<times> u32 \<times> bytes \<Rightarrow> rate_node option" where
  "bucket z k = (case k of (hash, sig, key) \<Rightarrow> map_option (rs_mem z) (rate_find (rs_mem z) sig key hash (rs_tree z)))"

lemma bucket_iff:
  assumes "zone_ok room z"
  shows "bucket z k = Some n \<longleftrightarrow> (\<exists>a\<in>set (rs_lru z). rs_mem z a = n \<and> node_key n = k)"
  using assms by (auto simp: bucket_def zone_ok_def rate_find_iff split: prod.split)

text \<open>Eviction: nothing changes but that some buckets are gone.\<close>

definition shrunk :: "rate_shm \<Rightarrow> rate_shm \<Rightarrow> bool" where
  "shrunk z z' \<longleftrightarrow> rs_mem z' = rs_mem z \<and> set (rs_lru z') \<subseteq> set (rs_lru z)"

lemma rate_free_ok:
  assumes "rb_ok rb" "zone_ok room z" "a \<in> set (rs_lru z)"
  shows "zone_ok room (rate_free rb a z)" "shrunk z (rate_free rb a z)"
proof -
  let ?z = "rate_free rb a z"
  have f: "rs_mem ?z = rs_mem z" "rs_lru ?z = remove1 a (rs_lru z)" "rs_tree ?z = rb_del rb a (rs_tree z)"
    by (simp_all add: rate_free_def Let_def)
  have "ordered (rs_mem z) (rs_tree z)" using assms(2) by (simp add: zone_ok_def)
  note d = rb_del_ordered [OF assms(1) this, of a]
  have ord: "ordered (rs_mem ?z) (rs_tree ?z)" using d(1) f by simp
  have "set_tree (rs_tree ?z) = set_tree (rs_tree z) - {a}" using d(2) f by simp
  moreover have "set (rs_lru ?z) = set (rs_lru z) - {a}" using f(2) assms(2) by (simp add: zone_ok_def)
  moreover have nc: "node_charge ?z = node_charge z" by (simp add: fun_eq_iff node_charge_def f)
  moreover have "rs_bytes ?z = sum_list (map (node_charge z) (rs_lru ?z)) \<and> rs_bytes ?z \<le> rs_bytes z"
    unfolding f(2) using remove1_sum [OF assms(3), of "node_charge z"] assms(2)
    by (auto simp: rate_free_def Let_def node_charge_def [of z a] zone_ok_def)
  ultimately show "zone_ok room ?z" using assms(2) ord f(2) by (simp add: zone_ok_def)
  show "shrunk z ?z" using f by (auto simp: shrunk_def dest: notin_set_remove1 set_mp [OF set_remove1_subset])
qed

lemma shrunk_refl: "shrunk z z"
  by (simp add: shrunk_def)

lemma shrunk_trans: "shrunk x y \<Longrightarrow> shrunk y z \<Longrightarrow> shrunk x z"
  by (auto simp: shrunk_def)

lemma expire_loop_ok:
  assumes "rb_ok rb" "zone_ok room z"
  shows "zone_ok room (expire_loop rb now n force z) \<and> shrunk z (expire_loop rb now n force z)"
  using assms(2)
proof (induction n arbitrary: force z)
  case (Suc n)
  show ?case
  proof (cases "rs_lru z = []")
    case False
    note f = rate_free_ok [OF assms(1) Suc.prems last_in_set [OF False]]
    show ?thesis
      using Suc.IH [OF f(1), of False] Suc.prems shrunk_trans [OF f(2)] False by (auto simp: Let_def shrunk_refl)
  qed (use Suc.prems in \<open>simp add: shrunk_refl\<close>)
qed (simp add: shrunk_refl)

lemma expire_bytes:
  assumes "rb_ok rb" "zone_ok room z" shows "rs_bytes (rate_expire rb now force z) \<le> rs_bytes z"
proof -
  have "zone_ok (rs_bytes z) z" using assms(2) by (simp add: zone_ok_def)
  then show ?thesis using expire_loop_ok [OF assms(1), of "rs_bytes z" z now 2 force] by (simp add: rate_expire_def zone_ok_def)
qed

lemma evict_loop_ok:
  assumes "rb_ok rb" "zone_ok room z"
  shows "zone_ok room (evict_loop rb now room' charge n z) \<and> shrunk z (evict_loop rb now room' charge n z)"
  using assms(2)
proof (induction n arbitrary: z)
  case (Suc n)
  have e: "zone_ok room (rate_expire rb now True z)" "shrunk z (rate_expire rb now True z)"
    using expire_loop_ok [OF assms(1) Suc.prems] by (simp_all add: rate_expire_def)
  show ?case using Suc.IH [OF e(1)] Suc.prems shrunk_trans [OF e(2)] by (auto simp: shrunk_refl)
qed (simp add: shrunk_refl)

text \<open>The zone in which a new node is put.\<close>

lemma insert_node_ok:
  assumes "rb_ok rb" "zone_ok room z" "a \<notin> set (rs_lru z)" "rs_bytes z + rate_charge (length (rn_data n)) \<le> room"
    and "\<forall>b\<in>set (rs_lru z). node_key (rs_mem z b) \<noteq> node_key n"
    and "z' = z\<lparr>rs_bytes := rs_bytes z + rate_charge (length (rn_data n)), rs_mem := (rs_mem z)(a := n),
                rs_tree := rb_fix rb (rate_insert_value ((rs_mem z)(a := n)) a (rs_tree z)), rs_lru := a # rs_lru z\<rparr>"
  shows "zone_ok room z'"
proof -
  let ?m = "(rs_mem z)(a := n)" and ?t = "rs_tree z"
  have s: "set_tree ?t = set (rs_lru z)" "ordered (rs_mem z) ?t" using assms(2) by (simp_all add: zone_ok_def)
  have "\<forall>b\<in>set_tree ?t. node_key (rs_mem z b) \<noteq> node_key n" using s(1) assms(5) by simp
  note i = rt.insert_new [OF assms(1) s(2) _ this, of a]
  have "ordered (rs_mem z') (rs_tree z')" using i(1) s(1) assms(3,6) by simp
  moreover have "set_tree (rs_tree z') = insert a (set (rs_lru z))" using i(2) s(1) assms(3,6) by simp
  moreover have "sum_list (map (node_charge z') (rs_lru z)) = sum_list (map (node_charge z) (rs_lru z))"
    using assms(3,6) by (intro arg_cong [where f = sum_list] map_cong refl) (auto simp: node_charge_def)
  moreover have "node_charge z' a = rate_charge (length (rn_data n))" using assms(6) by (simp add: node_charge_def)
  moreover have "rs_bytes z' = rs_bytes z + rate_charge (length (rn_data n))" "rs_lru z' = a # rs_lru z" using assms(6) by simp_all
  ultimately show ?thesis using assms(2,3,4) by (simp add: zone_ok_def)
qed

definition new_node :: "rate_rule \<Rightarrow> bytes \<Rightarrow> u32 \<Rightarrow> u64 \<Rightarrow> msec \<Rightarrow> rate_node" where
  "new_node rule key hash excess now =
     \<lparr>rn_hash = hash, rn_sig = ru_sig rule, rn_data = key, rn_rate = ru_rate rule, rn_excess = excess, rn_last = now\<rparr>"

lemma bucket_shrunk:
  assumes "zone_ok room z" "zone_ok room z'" "shrunk z z'"
  shows "bucket z' k = None \<or> bucket z' k = bucket z k"
proof (cases "bucket z' k")
  case (Some n)
  then show ?thesis using bucket_iff [OF assms(1)] bucket_iff [OF assms(2)] assms(3) unfolding shrunk_def by (metis subsetD)
qed simp

lemma bucket_insert:
  assumes "rb_ok rb" "zone_ok room z" "a \<notin> set (rs_lru z)" "rs_bytes z + rate_charge (length (rn_data n)) \<le> room"
    and "bucket z (node_key n) = None"
    and "z' = z\<lparr>rs_bytes := rs_bytes z + rate_charge (length (rn_data n)), rs_mem := (rs_mem z)(a := n),
                rs_tree := rb_fix rb (rate_insert_value ((rs_mem z)(a := n)) a (rs_tree z)), rs_lru := a # rs_lru z\<rparr>"
  shows "zone_ok room z'" "bucket z' k = (if k = node_key n then Some n else bucket z k)"
proof -
  have "\<forall>b\<in>set (rs_lru z). node_key (rs_mem z b) \<noteq> node_key n"
    using assms(5) bucket_iff [OF assms(2), of "node_key n"] by auto
  then show ok: "zone_ok room z'" using insert_node_ok [OF assms(1-4) _ assms(6)] by blast
  have "bucket z' k = Some m \<longleftrightarrow> (if k = node_key n then m = n else bucket z k = Some m)" for m
  proof -
    have "bucket z' k = Some m \<longleftrightarrow> n = m \<and> node_key n = k \<or> bucket z k = Some m"
      unfolding bucket_iff [OF ok] bucket_iff [OF assms(2)] using assms(3,6) by auto
    then show ?thesis using assms(5) by auto
  qed
  then show "bucket z' k = (if k = node_key n then Some n else bucket z k)" by (intro option_eqI) auto
qed

text \<open>A call of insert: some buckets may be gone, and the new one may be there.\<close>

lemma rate_insert_ok:
  assumes "rb_ok rb" "alloc_ok alloc" "zone_ok room z" "bucket z (hash, ru_sig rule, key) = None"
    and "rate_insert rb alloc now room rule key hash excess z = (r, z')"
  shows "zone_ok room z'"
    and "k \<noteq> (hash, ru_sig rule, key) \<Longrightarrow> bucket z' k = None \<or> bucket z' k = bucket z k"
    and "bucket z' (hash, ru_sig rule, key) = None \<or> bucket z' (hash, ru_sig rule, key) = Some (new_node rule key hash excess now)"
proof -
  let ?n = "new_node rule key hash excess now" and ?c = "rate_charge (length key)"
  let ?e = "evict_loop rb now room ?c RATE_EVICT (rate_expire rb now False z)"
  have n: "node_key ?n = (hash, ru_sig rule, key)" "rn_data ?n = key" by (simp_all add: new_node_def node_key_def)
  have x: "zone_ok room (rate_expire rb now False z)" "shrunk z (rate_expire rb now False z)"
    using expire_loop_ok [OF assms(1,3)] by (simp_all add: rate_expire_def)
  have e: "zone_ok room ?e" "shrunk z ?e" using evict_loop_ok [OF assms(1) x(1)] shrunk_trans [OF x(2)] by blast+
  have y: "zone_ok room (rate_expire rb now True ?e)" "shrunk z (rate_expire rb now True ?e)"
    "rs_bytes (rate_expire rb now True ?e) \<le> rs_bytes ?e"
    using expire_loop_ok [OF assms(1) e(1)] shrunk_trans [OF e(2)] expire_bytes [OF assms(1) e(1)] by (auto simp: rate_expire_def)
  consider (no) f where "z' = f" "zone_ok room f" "shrunk z f"
    | (new) f a where "zone_ok room f" "shrunk z f" "a \<notin> set (rs_lru f)" "rs_bytes f + ?c \<le> room"
        "z' = f\<lparr>rs_bytes := rs_bytes f + rate_charge (length (rn_data ?n)), rs_mem := (rs_mem f)(a := ?n),
                rs_tree := rb_fix rb (rate_insert_value ((rs_mem f)(a := ?n)) a (rs_tree f)), rs_lru := a # rs_lru f\<rparr>"
  proof (cases "rs_bytes ?e + ?c \<le> room")
    case room: True
    show thesis
    proof (cases "alloc ?e")
      case (Some a)
      then show thesis using new [of ?e a] assms(2,5) e room by (simp add: rate_insert_def Let_def new_node_def alloc_ok_def)
    next
      case None
      let ?f = "rate_expire rb now True ?e"
      show thesis
      proof (cases "alloc ?f")
        case (Some a)
        then show thesis using new [of ?f a] None assms(2,5) y room by (simp add: rate_insert_def Let_def new_node_def alloc_ok_def)
      qed (use no [of ?f] None assms(5) y room in \<open>simp add: rate_insert_def Let_def\<close>)
    qed
  qed (use no [of ?e] assms(5) e in \<open>simp add: rate_insert_def Let_def\<close>)
  then have "zone_ok room z' \<and> (k \<noteq> (hash, ru_sig rule, key) \<longrightarrow> bucket z' k = None \<or> bucket z' k = bucket z k)
     \<and> (bucket z' (hash, ru_sig rule, key) = None \<or> bucket z' (hash, ru_sig rule, key) = Some ?n)" for k
  proof cases
    case no
    then show ?thesis using bucket_shrunk [OF assms(3) no(2,3), of k] bucket_shrunk [OF assms(3) no(2,3), of "(hash, ru_sig rule, key)"] assms(4) by auto
  next
    case new
    have "bucket f (node_key ?n) = None" using bucket_shrunk [OF assms(3) new(1,2), of "node_key ?n"] assms(4) n(1) by auto
    note b = bucket_insert [OF assms(1) new(1,3) _ this new(5)]
    show ?thesis using b new(4) n bucket_shrunk [OF assms(3) new(1,2), of k] by auto
  qed
  then show "zone_ok room z'" "k \<noteq> (hash, ru_sig rule, key) \<Longrightarrow> bucket z' k = None \<or> bucket z' k = bucket z k"
    "bucket z' (hash, ru_sig rule, key) = None \<or> bucket z' (hash, ru_sig rule, key) = Some ?n" by blast+
qed

subsection \<open>A call on a bucket\<close>

text \<open>What a call does to the bucket of its key.\<close>

definition bucket_step :: "msec \<Rightarrow> rate_rule \<Rightarrow> rate_mode \<Rightarrow> rate_node \<Rightarrow> rc \<times> rate_node" where
  "bucket_step now rule mode n =
     (let ms = rate_elapsed now (rn_last n);
          value = max 0 (sint (rn_excess n) - rate_leak (ru_rate rule) ms + (if mode = RATE_PEEK then 0 else 1000));
          fit = (value \<le> sint (ru_burst rule));
          limit = sint (ru_burst rule + ru_rate rule);
          kept = (if fit then value else min value limit);
          n' = n\<lparr>rn_excess := of_int kept, rn_last := (if ms \<noteq> 0 then now else rn_last n)\<rparr>
      in (if fit then NGX_OK else NGX_DECLINED,
          if mode = RATE_PEEK \<or> \<not> fit \<and> mode = RATE_GATE then n else n'))"

lemma bucket_step_key: "node_key (snd (bucket_step now rule mode n)) = node_key n"
  by (simp add: bucket_step_def Let_def node_key_def)

lemma store_ok:
  assumes "zone_ok room z" "a \<in> set (rs_lru z)" "node_key n = node_key (rs_mem z a)"
    and "z' = z\<lparr>rs_lru := a # remove1 a (rs_lru z), rs_mem := (rs_mem z)(a := n)\<rparr>"
  shows "zone_ok room z'" "bucket z' k = (if k = node_key n then Some n else bucket z k)"
proof -
  let ?m = "(rs_mem z)(a := n)"
  have l: "set (rs_lru z') = set (rs_lru z)" "distinct (rs_lru z')" using assms(1,2,4) by (auto simp: zone_ok_def)
  have "ordered ?m (rs_tree z) = ordered (rs_mem z) (rs_tree z)" using assms(3) by (intro key_ordered_mem) auto
  moreover have nc: "node_charge z' = node_charge z" using assms(3,4) by (auto simp: fun_eq_iff node_charge_def node_key_def)
  moreover have "sum_list (map (node_charge z) (rs_lru z')) = sum_list (map (node_charge z) (rs_lru z))"
    using remove1_sum [OF assms(2), of "node_charge z"] assms(4) by simp
  moreover have f: "rs_mem z' = ?m" "rs_tree z' = rs_tree z" "rs_bytes z' = rs_bytes z" using assms(4) by simp_all
  ultimately show ok: "zone_ok room z'" using assms(1) l by (simp add: zone_ok_def)
  have inj: "b = a" if "b \<in> set (rs_lru z)" "node_key (rs_mem z b) = node_key n" for b
  proof -
    obtain h s d where k: "node_key n = (h, s, d)" by (cases "node_key n")
    have "rate_find (rs_mem z) s d h (rs_tree z) = Some b" "rate_find (rs_mem z) s d h (rs_tree z) = Some a"
      using that assms(1,2,3) k by (auto simp: zone_ok_def rate_find_iff)
    then show ?thesis by simp
  qed
  have "bucket z' k = Some m \<longleftrightarrow> (if k = node_key n then m = n else bucket z k = Some m)" for m
  proof (cases "k = node_key n")
    case True
    then show ?thesis unfolding bucket_iff [OF ok] l(1) f(1) using inj assms(2) by (auto simp: fun_upd_def)
  next
    case False
    then show ?thesis unfolding bucket_iff [OF ok] bucket_iff [OF assms(1)] l(1) f(1) using assms(3) by (auto simp: fun_upd_def)
  qed
  then show "bucket z' k = (if k = node_key n then Some n else bucket z k)" by (intro option_eqI) auto
qed

text \<open>The key under which a rule counts.\<close>

abbreviation (input) count_key :: "(bytes \<Rightarrow> u32) \<Rightarrow> rate_rule \<Rightarrow> bytes \<Rightarrow> u32 \<times> u32 \<times> bytes" where
  "count_key crc rule key \<equiv> (crc key XOR ru_sig rule, ru_sig rule, key)"

lemma rate_account_hit:
  assumes "zone_ok room z" "bucket z (count_key crc rule key) = Some n"
    and "rate_account rb alloc crc now room rule key mode z = (r, excess, z')"
  shows "zone_ok room z' \<and> r = fst (bucket_step now rule mode n)
     \<and> bucket z' k = (if k = count_key crc rule key then Some (snd (bucket_step now rule mode n)) else bucket z k)"
proof -
  let ?k = "count_key crc rule key" and ?n = "snd (bucket_step now rule mode n)"
  obtain a where a: "rate_lookup z rule key (crc key XOR ru_sig rule) = Some a" "rs_mem z a = n" "a \<in> set (rs_lru z)" "node_key n = ?k"
    using assms(1,2) by (auto simp: bucket_def rate_lookup_def zone_ok_def rate_find_iff)
  have m: "(rs_mem z)(a := n) = rs_mem z" using a(2) by auto
  have "z' = z\<lparr>rs_lru := a # remove1 a (rs_lru z), rs_mem := (rs_mem z)(a := ?n)\<rparr> \<and> r = fst (bucket_step now rule mode n)"
    using assms(3) a(1,2) m
    by (cases mode) (auto simp: rate_account_def bucket_step_def Let_def max_def min_def split: if_split_asm)
  then show ?thesis using store_ok(1) [OF assms(1) a(3), of ?n z'] store_ok(2) [OF assms(1) a(3), of ?n z' k] bucket_step_key [of now rule mode n] a(2,4) by simp
qed

lemma rate_account_miss:
  assumes "rb_ok rb" "alloc_ok alloc" "zone_ok room z" "bucket z (count_key crc rule key) = None"
    and "rate_account rb alloc crc now room rule key mode z = (r, excess, z')"
  shows "zone_ok room z' \<and> r = NGX_OK
     \<and> (k \<noteq> count_key crc rule key \<longrightarrow> bucket z' k = None \<or> bucket z' k = bucket z k)
     \<and> (bucket z' (count_key crc rule key) = None
        \<or> mode \<noteq> RATE_PEEK \<and> bucket z' (count_key crc rule key)
            = Some (new_node rule key (crc key XOR ru_sig rule) (if mode = RATE_DEBT then 1000 else 0) now))"
proof -
  have "rate_lookup z rule key (crc key XOR ru_sig rule) = None" using assms(4) by (simp add: bucket_def rate_lookup_def)
  then have r: "r = NGX_OK" "z' = (if mode \<noteq> RATE_PEEK
      then snd (rate_insert rb alloc now room rule key (crc key XOR ru_sig rule) (if mode = RATE_DEBT then 1000 else 0) z) else z)"
    using assms(5) by (simp_all add: rate_account_def Let_def)
  show ?thesis
  proof (cases "mode = RATE_PEEK")
    case True
    then show ?thesis using r assms(3,4) by simp
  next
    case False
    obtain q where "rate_insert rb alloc now room rule key (crc key XOR ru_sig rule) (if mode = RATE_DEBT then 1000 else 0) z = (q, z')"
      using r(2) False by (metis prod.collapse)
    note i = rate_insert_ok [OF assms(1-4) this]
    show ?thesis using i(1,3) i(2) [of k] r(1) False by blast
  qed
qed

end
