(* ===== verification/Rate_Props.thy ===== *)
theory Rate_Props
  imports Rate_Laws
begin

text \<open>
  The properties of the rate limits over sequences of calls: the zone stays consistent and within its
  room, and for as long as a bucket is kept its rule lets no more through than its rate and burst.
\<close>

record rate_call =
  rq_rule :: rate_rule
  rq_key :: bytes
  rq_mode :: rate_mode
  rq_time :: nat

definition rate_do :: "rbtree \<Rightarrow> (rate_shm \<Rightarrow> nat option) \<Rightarrow> (bytes \<Rightarrow> u32) \<Rightarrow> nat \<Rightarrow> rate_call \<Rightarrow> rate_shm \<Rightarrow> rc \<times> u64 \<times> rate_shm" where
  "rate_do rb alloc crc room q z = rate_account rb alloc crc (of_nat (rq_time q)) room (rq_rule q) (rq_key q) (rq_mode q) z"

fun rate_run :: "rbtree \<Rightarrow> (rate_shm \<Rightarrow> nat option) \<Rightarrow> (bytes \<Rightarrow> u32) \<Rightarrow> nat \<Rightarrow> rate_call list \<Rightarrow> rate_shm \<Rightarrow> rate_shm" where
  "rate_run rb alloc crc room [] z = z"
| "rate_run rb alloc crc room (q # qs) z = rate_run rb alloc crc room qs (snd (snd (rate_do rb alloc crc room q z)))"

definition call_key :: "(bytes \<Rightarrow> u32) \<Rightarrow> rate_call \<Rightarrow> u32 \<times> u32 \<times> bytes" where
  "call_key crc q = count_key crc (rq_rule q) (rq_key q)"

text \<open>How many requests on a bucket were let through.\<close>

fun accepted ::
  "rbtree \<Rightarrow> (rate_shm \<Rightarrow> nat option) \<Rightarrow> (bytes \<Rightarrow> u32) \<Rightarrow> nat \<Rightarrow> u32 \<times> u32 \<times> bytes \<Rightarrow> rate_call list \<Rightarrow> rate_shm \<Rightarrow> nat" where
  "accepted rb alloc crc room k [] z = 0"
| "accepted rb alloc crc room k (q # qs) z =
     (let (r, _, z') = rate_do rb alloc crc room q z
      in (if call_key crc q = k \<and> r = NGX_OK then 1 else 0) + accepted rb alloc crc room k qs z')"

text \<open>The bucket is there after every call.\<close>

fun stays_kept ::
  "rbtree \<Rightarrow> (rate_shm \<Rightarrow> nat option) \<Rightarrow> (bytes \<Rightarrow> u32) \<Rightarrow> nat \<Rightarrow> u32 \<times> u32 \<times> bytes \<Rightarrow> rate_call list \<Rightarrow> rate_shm \<Rightarrow> bool" where
  "stays_kept rb alloc crc room k [] z = True"
| "stays_kept rb alloc crc room k (q # qs) z =
     (let z' = snd (snd (rate_do rb alloc crc room q z)) in bucket z' k \<noteq> None \<and> stays_kept rb alloc crc room k qs z')"

subsection \<open>The zone\<close>

lemma rate_do_ok:
  assumes "rb_ok rb" "alloc_ok alloc" "zone_ok room z" "rate_do rb alloc crc room q z = (r, e, z')"
  shows "zone_ok room z'"
proof (cases "bucket z (count_key crc (rq_rule q) (rq_key q))")
  case None
  then show ?thesis using rate_account_miss [OF assms(1-3) None assms(4) [unfolded rate_do_def]] by blast
next
  case (Some n)
  then show ?thesis using rate_account_hit [OF assms(3) Some assms(4) [unfolded rate_do_def]] by blast
qed

lemma rate_run_ok:
  assumes "rb_ok rb" "alloc_ok alloc" "zone_ok room z" shows "zone_ok room (rate_run rb alloc crc room qs z)"
  using assms(3)
proof (induction qs arbitrary: z)
  case (Cons q qs)
  then show ?case using rate_do_ok [OF assms(1,2) Cons.prems] by (cases "rate_do rb alloc crc room q z") auto
qed simp

subsection \<open>The bucket\<close>

lemma rate_leak_bound:
  assumes "0 \<le> ms" shows "0 \<le> rate_leak rate ms \<and> rate_leak rate ms \<le> int (unat rate * nat ms div 1000)"
proof -
  let ?x = "rate * of_int ms :: u64"
  have of: "(of_int ms :: u64) = of_nat (nat ms)" using assms by simp
  have "unat ?x = (unat rate * unat (of_int ms :: u64)) mod 2 ^ 64" by (simp add: unat_word_ariths)
  also have "\<dots> \<le> unat rate * unat (of_int ms :: u64)" by simp
  also have "\<dots> \<le> unat rate * nat ms" unfolding of unat_of_nat by (intro mult_le_mono2) simp
  finally have x: "unat ?x div 1000 \<le> unat rate * nat ms div 1000" by (rule div_le_mono)
  have d: "unat (?x div 1000) = unat ?x div 1000" by (simp add: unat_div)
  have "unat ?x < 2 ^ 64" using unsigned_less [of ?x] by simp
  then have "unat (?x div 1000) < 2 ^ 63" unfolding d by simp
  then have "rate_leak rate ms = int (unat ?x div 1000)" using sint_eq_unat_small [of "?x div 1000"] d by (simp add: rate_leak_def)
  then show ?thesis using x by simp
qed

lemma rate_elapsed_nat:
  assumes "s \<le> t" "t - s < 2 ^ 63" shows "rate_elapsed (of_nat t) (of_nat s) = int (t - s)"
proof -
  have e: "(of_nat t - of_nat s :: msec) = of_nat (t - s)" using assms(1) by simp
  have "t - s < 2 ^ 64" using assms(2) by simp
  then have "unat (of_nat (t - s) :: msec) = t - s" by (simp add: unsigned_of_nat take_bit_nat_eq_self)
  then have "msec_diff (of_nat t) (of_nat s) = int (t - s)"
    unfolding msec_diff_def e using sint_eq_unat_small [of "of_nat (t - s)"] assms(2) by simp
  then show ?thesis by (simp add: rate_elapsed_def)
qed

text \<open>A request on a bucket: when it is let through the bucket is at most as full as the burst, and as full as before
  plus the request, less what has leaked; when it is not, the bucket is as it was.\<close>

lemma gate_step:
  assumes "bucket_step (of_nat t) rule RATE_GATE n = (r, n')" "rn_last n = of_nat s" "s \<le> t" "t - s < 2 ^ 63" "0 \<le> sint (rn_excess n)"
  shows "if r = NGX_OK
         then sint (rn_excess n) + 1000 \<le> sint (rn_excess n') + int (unat (ru_rate rule) * (t - s) div 1000)
            \<and> 0 \<le> sint (rn_excess n') \<and> sint (rn_excess n') \<le> sint (ru_burst rule) \<and> rn_last n' = of_nat t
         else n' = n"
proof -
  let ?l = "rate_leak (ru_rate rule) (int (t - s))"
  let ?v = "max 0 (sint (rn_excess n) - ?l + 1000)"
  have l: "?l \<le> int (unat (ru_rate rule) * (t - s) div 1000)" using rate_leak_bound [of "int (t - s)" "ru_rate rule"] by simp
  have "sint (of_int ?v :: u64) = ?v" if "?v \<le> sint (ru_burst rule)"
  proof -
    have "?v < 2 ^ 63" using that sint_lt [of "ru_burst rule"] by simp
    then have "unat (of_int ?v :: u64) = nat ?v" by (simp add: unsigned_of_int take_bit_int_eq_self)
    then show ?thesis using sint_eq_unat_small [of "of_int ?v"] \<open>?v < 2 ^ 63\<close> by simp
  qed
  then show ?thesis
    using assms(1-3) l rate_elapsed_nat [OF assms(3,4)] by (auto simp: bucket_step_def Let_def)
qed

lemma gate_sum:
  fixes e :: int
  assumes "1000 * a + e' \<le> b + l'" "l + l' \<le> m" "e + 1000 \<le> e' + l" shows "1000 * (1 + a) + e \<le> max e b + m"
proof -
  have "1000 * (1 + a) + e \<le> b + m" using assms by (simp add: distrib_left)
  then show ?thesis using max.cobounded2 [of b e] by linarith
qed

lemma bucket_run:
  assumes "rb_ok rb" "alloc_ok alloc"
    and "\<forall>q\<in>set qs. call_key crc q = k \<longrightarrow> ru_rate (rq_rule q) = rate \<and> ru_burst (rq_rule q) = burst \<and> rq_mode q = RATE_GATE"
    and "zone_ok room z" "bucket z k = Some n" "stays_kept rb alloc crc room k qs z"
    and "0 \<le> sint (rn_excess n)" "rn_last n = of_nat s" "sorted (s # map rq_time qs)" "\<forall>q\<in>set qs. rq_time q \<le> t" "s \<le> t" "t - s < 2 ^ 63"
  shows "1000 * int (accepted rb alloc crc room k qs z) + sint (rn_excess n)
    \<le> max (sint (rn_excess n)) (sint burst) + int (unat rate * (t - s) div 1000)"
  using assms(3-)
proof (induction qs arbitrary: z n s)
  case Nil
  then show ?case by simp
next
  case (Cons q qs)
  let ?u = "rq_time q"
  obtain r e z' where d: "rate_do rb alloc crc room q z = (r, e, z')" by (metis prod.collapse)
  note acc = d [unfolded rate_do_def]
  have ok: "zone_ok room z'" using rate_do_ok [OF assms(1,2) Cons.prems(2) d] .
  have kept: "stays_kept rb alloc crc room k qs z'" "bucket z' k \<noteq> None" using Cons.prems(4) d by auto
  have qs: "\<forall>q\<in>set qs. call_key crc q = k \<longrightarrow> ru_rate (rq_rule q) = rate \<and> ru_burst (rq_rule q) = burst \<and> rq_mode q = RATE_GATE"
      "\<forall>q\<in>set qs. rq_time q \<le> t" using Cons.prems(1,8) by simp_all
  have u: "s \<le> ?u" "?u \<le> t" "?u - s < 2 ^ 63" "t - ?u < 2 ^ 63" using Cons.prems(7-10) by auto
  have srt: "sorted (?u # map rq_time qs)" "sorted (s # map rq_time qs)" using Cons.prems(7) by auto
  show ?case
  proof (cases "call_key crc q = k")
    case False
    have "bucket z' k = Some n"
    proof (cases "bucket z (call_key crc q)")
      case None
      then show ?thesis
        using rate_account_miss [OF assms(1,2) Cons.prems(2) _ acc, of k] False kept(2) Cons.prems(3) by (auto simp: call_key_def)
    next
      case (Some m)
      then show ?thesis
        using rate_account_hit [OF Cons.prems(2) _ acc, of m k] False Cons.prems(3) by (auto simp: call_key_def)
    qed
    from Cons.IH [OF qs(1) ok this kept(1) Cons.prems(5,6) srt(2) qs(2) Cons.prems(9,10)]
    show ?thesis using False d by simp
  next
    case True
    have q: "ru_rate (rq_rule q) = rate" "ru_burst (rq_rule q) = burst" "rq_mode q = RATE_GATE" using True Cons.prems(1) by auto
    obtain r' n' where st: "bucket_step (of_nat ?u) (rq_rule q) RATE_GATE n = (r', n')" by fastforce
    have b: "r = r'" "bucket z' k = Some n'"
      using rate_account_hit [OF Cons.prems(2) _ acc, of n k] True Cons.prems(3) q(3) st by (auto simp: call_key_def)
    note g = gate_step [OF st Cons.prems(6) u(1,3) Cons.prems(5), unfolded q(1,2)]
    show ?thesis
    proof (cases "r' = NGX_OK")
      case r: True
      have g': "sint (rn_excess n) + 1000 \<le> sint (rn_excess n') + int (unat rate * (?u - s) div 1000)"
          "0 \<le> sint (rn_excess n')" "sint (rn_excess n') \<le> sint burst" "rn_last n' = of_nat ?u"
        using g r by simp_all
      from Cons.IH [OF qs(1) ok b(2) kept(1) g'(2,4) srt(1) qs(2) u(2,4)] g'(3)
      have tail: "1000 * int (accepted rb alloc crc room k qs z') + sint (rn_excess n') \<le> sint burst + int (unat rate * (t - ?u) div 1000)"
        by simp
      have leak: "int (unat rate * (?u - s) div 1000) + int (unat rate * (t - ?u) div 1000) \<le> int (unat rate * (t - s) div 1000)"
      proof -
        have "t - s = (?u - s) + (t - ?u)" using u by simp
        then have "unat rate * (?u - s) div 1000 + unat rate * (t - ?u) div 1000 \<le> unat rate * (t - s) div 1000"
          by (simp add: distrib_left div_add1_eq [of "unat rate * (?u - s)"])
        then show ?thesis by (simp only: of_nat_add [symmetric] of_nat_le_iff)
      qed
      have "accepted rb alloc crc room k (q # qs) z = 1 + accepted rb alloc crc room k qs z'" using True d b(1) r by simp
      then show ?thesis using gate_sum [OF tail leak g'(1)] by (simp only: of_nat_add of_nat_1)
    next
      case r: False
      then have "bucket z' k = Some n" using g b(2) by simp
      from Cons.IH [OF qs(1) ok this kept(1) Cons.prems(5,6) srt(2) qs(2) Cons.prems(9,10)]
      show ?thesis using d b(1) r by simp
    qed
  qed
qed

subsection \<open>What the limits promise\<close>

text \<open>
  C33: The zone of the rate limits stays consistent over every sequence of calls from a fresh zone, with
  evictions and failed allocations: the tree is ordered and holds exactly the nodes of the queue, each
  once, and the bytes that are accounted for are the sum of what the nodes take, never more than the
  room set aside for them.
\<close>

theorem rate_zone_consistent:
  assumes "rb_ok rb" "alloc_ok alloc"
  shows "zone_ok room (rate_run rb alloc crc room qs (rate_init mem))"
proof (rule rate_run_ok [OF assms])
  show "zone_ok room (rate_init mem)" by (simp add: zone_ok_def rate_init_def ordered_def)
qed

text \<open>
  C32: A limit holds for as long as its bucket is kept. From the request that creates the bucket of a key
  on, over every interleaving with calls of other rules and keys, the requests that are let through
  are at most one more than the burst of the rule and what its rate allows in the time that has passed
  (rates and bursts are in thousandths of a request).
\<close>

theorem rate_limit_holds:
  assumes "rb_ok rb" "alloc_ok alloc" "zone_ok room z"
    and "k = call_key crc q" "bucket z k = None" "rq_mode q = RATE_GATE"
    and "\<forall>q'\<in>set qs. call_key crc q' = k \<longrightarrow> rq_rule q' = rq_rule q \<and> rq_mode q' = RATE_GATE"
    and "stays_kept rb alloc crc room k (q # qs) z"
    and "sorted (map rq_time (q # qs))" "\<forall>q'\<in>set qs. rq_time q' \<le> t" "rq_time q \<le> t" "t - rq_time q < 2 ^ 63"
  shows "1000 * accepted rb alloc crc room k (q # qs) z
    \<le> 1000 + unat (ru_burst (rq_rule q)) + unat (ru_rate (rq_rule q)) * (t - rq_time q) div 1000"
proof -
  let ?s = "rq_time q" and ?b = "ru_burst (rq_rule q)" and ?r = "ru_rate (rq_rule q)"
  obtain r e z' where d: "rate_do rb alloc crc room q z = (r, e, z')" by (metis prod.collapse)
  have kept: "bucket z' k \<noteq> None" "stays_kept rb alloc crc room k qs z'" using assms(8) d by auto
  note m = rate_account_miss [OF assms(1-3) _ d [unfolded rate_do_def], of k]
  have n: "zone_ok room z'" "bucket z' k = Some (new_node (rq_rule q) (rq_key q) (crc (rq_key q) XOR ru_sig (rq_rule q)) 0 (of_nat ?s))"
    using m assms(4-6) kept(1) by (auto simp: call_key_def)
  have qs: "\<forall>q'\<in>set qs. call_key crc q' = k \<longrightarrow> ru_rate (rq_rule q') = ?r \<and> ru_burst (rq_rule q') = ?b \<and> rq_mode q' = RATE_GATE"
    using assms(7) by auto
  have "1000 * int (accepted rb alloc crc room k qs z') \<le> max 0 (sint ?b) + int (unat ?r * (t - ?s) div 1000)"
    using bucket_run [OF assms(1,2) qs n kept(2), of ?s t] assms(9-12) by (simp add: new_node_def)
  moreover have "max 0 (sint ?b) \<le> int (unat ?b)" using sint_le_unat by simp
  ultimately have "int (1000 * accepted rb alloc crc room k qs z') \<le> int (unat ?b + unat ?r * (t - ?s) div 1000)"
    by (simp only: of_nat_add of_nat_mult of_nat_numeral)
  then have "1000 * accepted rb alloc crc room k qs z' \<le> unat ?b + unat ?r * (t - ?s) div 1000" by (simp only: of_nat_le_iff)
  moreover have "accepted rb alloc crc room k (q # qs) z \<le> 1 + accepted rb alloc crc room k qs z'" using d by simp
  ultimately show ?thesis by simp
qed

text \<open>
  A bucket does not have to be kept. A request that creates a bucket leaves it empty, and a new bucket
  evicts empty ones from the end of the queue however fresh they are: two keys that are used in turn
  evict each other, and every request is let through, whatever the rate and the burst.
\<close>

definition one_fresh :: "rate_shm \<Rightarrow> u32 \<times> u32 \<times> bytes \<Rightarrow> bool" where
  "one_fresh z k \<longleftrightarrow> (\<exists>a. rs_lru z = [a] \<and> node_key (rs_mem z a) = k \<and> rn_excess (rs_mem z a) = 0)"

lemma other_key_evicts:
  assumes "rb_ok rb" "\<forall>z. alloc z \<noteq> None" "zone_ok room z" "one_fresh z k" "call_key crc q \<noteq> k" "rq_mode q = RATE_GATE"
    and "rate_charge (length (rq_key q)) \<le> room" "rate_do rb alloc crc room q z = (r, e, z')"
  shows "r = NGX_OK \<and> one_fresh z' (call_key crc q)"
proof -
  obtain a where a: "rs_lru z = [a]" "node_key (rs_mem z a) = k" "rn_excess (rs_mem z a) = 0" using assms(4) by (auto simp: one_fresh_def)
  have t: "set_tree (rs_tree z) = {a}" "ordered (rs_mem z) (rs_tree z)" using assms(3) a(1) by (auto simp: zone_ok_def)
  have miss: "rate_lookup z (rq_rule q) (rq_key q) (crc (rq_key q) XOR ru_sig (rq_rule q)) = None"
    using t a(2) assms(5) by (simp add: rate_lookup_def rate_find_None call_key_def)
  let ?now = "of_nat (rq_time q) :: msec"
  have "0 \<le> rate_elapsed ?now (rn_last (rs_mem z a))" by (simp add: rate_elapsed_def Let_def)
  then have "rate_leak (rn_rate (rs_mem z a)) (rate_elapsed ?now (rn_last (rs_mem z a))) \<ge> 0" using rate_leak_bound by blast
  then have x: "rate_expire rb ?now False z = rate_free rb a z"
    using a by (simp add: rate_expire_def numeral_2_eq_2 Let_def rate_free_def)
  have f: "rs_lru (rate_free rb a z) = []" using a(1) by (simp add: rate_free_def Let_def)
  have ok: "zone_ok room (rate_free rb a z)" using rate_free_ok(1) [OF assms(1,3), of a] a(1) by simp
  then have b: "rs_bytes (rate_free rb a z) = 0" using f by (simp add: zone_ok_def)
  have v: "evict_loop rb ?now room (rate_charge (length (rq_key q))) 16 (rate_free rb a z) = rate_free rb a z"
    using f by (simp add: numeral_eq_Suc)
  obtain c where "alloc (rate_free rb a z) = Some c" using assms(2) by auto
  then show ?thesis
    using assms(6-8) miss x v b f by (auto simp: rate_do_def rate_account_def rate_insert_def Let_def one_fresh_def call_key_def node_key_def)
qed

lemma alternating_keys_unlimited:
  assumes "rb_ok rb" "alloc_ok alloc" "\<forall>z. alloc z \<noteq> None" "call_key crc p \<noteq> call_key crc q" "rq_mode p = RATE_GATE" "rq_mode q = RATE_GATE"
    and "rate_charge (length (rq_key p)) \<le> room" "rate_charge (length (rq_key q)) \<le> room"
    and "zone_ok room z" "one_fresh z (call_key crc q)"
  shows "accepted rb alloc crc room (call_key crc p) (concat (replicate n [p, q])) z = n"
  using assms(9,10)
proof (induction n arbitrary: z)
  case (Suc n)
  obtain r e y where p: "rate_do rb alloc crc room p z = (r, e, y)" by (metis prod.collapse)
  obtain r' e' x where q: "rate_do rb alloc crc room q y = (r', e', x)" by (metis prod.collapse)
  have y: "zone_ok room y" "r = NGX_OK" "one_fresh y (call_key crc p)"
    using rate_do_ok [OF assms(1,2) Suc.prems(1) p] other_key_evicts [OF assms(1,3) Suc.prems assms(4,5,7) p] by simp_all
  have "zone_ok room x" "one_fresh x (call_key crc q)"
    using rate_do_ok [OF assms(1,2) y(1) q] other_key_evicts [OF assms(1,3) y(1,3) assms(4) [symmetric] assms(6,8) q] by simp_all
  then show ?case using Suc.IH p q y(2) assms(4) by simp
qed simp

subsection \<open>Examples\<close>

text \<open>An allocator that takes the next address.\<close>

definition next_alloc :: "rate_shm \<Rightarrow> nat option" where
  "next_alloc z = Some (Suc (foldr max (rs_lru z) 0))"

lemma next_alloc_ok: "alloc_ok next_alloc"
proof -
  have "x \<le> foldr max xs 0" if "x \<in> set xs" for x :: nat and xs using that by (induction xs) auto
  then show ?thesis by (force simp: alloc_ok_def next_alloc_def)
qed

definition one_per_second :: rate_rule where
  "one_per_second = \<lparr>ru_rate = 1000, ru_burst = 0, ru_count = RATE_REQUESTS, ru_action = POLICY_BLOCK, ru_response = [],
     ru_list = False, ru_list_ttl = 0, ru_md5 = False, ru_sig = 7\<rparr>"

definition visit :: "bytes \<Rightarrow> nat \<Rightarrow> rate_call" where
  "visit key t = \<lparr>rq_rule = one_per_second, rq_key = key, rq_mode = RATE_GATE, rq_time = t\<rparr>"

definition blank :: "nat \<Rightarrow> rate_node" where
  "blank a = \<lparr>rn_hash = 0, rn_sig = 0, rn_data = [], rn_rate = 0, rn_excess = 0, rn_last = 0\<rparr>"

theorem rate_zone_consistent_witness:
  "zone_ok 1000 (rate_run list_rb next_alloc (\<lambda>_. 5) 1000 [visit [1] 0, visit [2] 1, visit [1] 2] (rate_init blank))"
  by (rule rate_zone_consistent [OF list_rb_ok next_alloc_ok])

theorem rate_limit_holds_witness:
  "1000 * accepted list_rb next_alloc (\<lambda>_. 5) 1000 (5 XOR 7, 7, [1]) [visit [1] 0, visit [1] 500, visit [1] 1000] (rate_init blank)
     \<le> 1000 + 1000"
proof -
  have "zone_ok 1000 (rate_init blank)" by (simp add: zone_ok_def rate_init_def ordered_def)
  moreover have "bucket (rate_init blank) (5 XOR 7, 7, [1]) = None" by code_simp
  moreover have "stays_kept list_rb next_alloc (\<lambda>_. 5) 1000 (5 XOR 7, 7, [1]) [visit [1] 0, visit [1] 500, visit [1] 1000] (rate_init blank)"
    by code_simp
  ultimately show ?thesis
    using rate_limit_holds [OF list_rb_ok next_alloc_ok, of 1000 "rate_init blank" "(5 XOR 7, 7, [1])" "\<lambda>_. 5" "visit [1] 0"
        "[visit [1] 500, visit [1] 1000]" 1000]
    by (simp add: visit_def one_per_second_def call_key_def)
qed

end
