(* ===== verification/Reply_Clean.thy ===== *)
theory Reply_Clean
  imports Waf_Types
begin

text \<open>
  What the decoder of answers lets through (\<open>src/module/src/codec/ngx_http_waf_msg_reply.c\<close>): the
  checks of names, values and texts an inspector sends, and the check of the address it redirects to
  against the patterns of \<open>waf_redirect_allow\<close>.
\<close>

subsection \<open>Characters and words\<close>

abbreviation (input) ACTION_CODE_MAX :: nat where "ACTION_CODE_MAX \<equiv> 64"
abbreviation (input) ACTION_CNT_MAX :: nat where "ACTION_CNT_MAX \<equiv> 64"
abbreviation (input) ACTION_MARKER_MAX :: nat where "ACTION_MARKER_MAX \<equiv> 128"
abbreviation (input) MUTATE_NAME_MAX :: nat where "MUTATE_NAME_MAX \<equiv> 64"
abbreviation (input) DENY_SUBJECT_MAX :: nat where "DENY_SUBJECT_MAX \<equiv> 64"

definition is_lower :: "byte \<Rightarrow> bool" where "is_lower c \<longleftrightarrow> 0x61 \<le> c \<and> c \<le> 0x7a"
definition is_upper :: "byte \<Rightarrow> bool" where "is_upper c \<longleftrightarrow> 0x41 \<le> c \<and> c \<le> 0x5a"
definition is_num :: "byte \<Rightarrow> bool" where "is_num c \<longleftrightarrow> 0x30 \<le> c \<and> c \<le> 0x39"

definition group_clean :: "bytes \<Rightarrow> bool" where
  "group_clean s \<longleftrightarrow>
     s \<noteq> [] \<and> length s \<le> MUTATE_NAME_MAX \<and> (is_lower (hd s) \<or> hd s = 0x5f)
     \<and> list_all (\<lambda>c. is_lower c \<or> is_num c \<or> c = 0x5f \<or> c = 0x2d) (tl s)"

definition counter_clean :: "bytes \<Rightarrow> bool" where
  "counter_clean s \<longleftrightarrow>
     s \<noteq> [] \<and> length s \<le> ACTION_CNT_MAX
     \<and> (is_upper (hd s) \<or> is_lower (hd s) \<or> is_num (hd s))
     \<and> list_all (\<lambda>c. is_upper c \<or> is_lower c \<or> is_num c \<or> c = 0x2e \<or> c = 0x5f \<or> c = 0x2d) (tl s)"

definition code_clean :: "bytes \<Rightarrow> bool" where
  "code_clean s \<longleftrightarrow>
     s \<noteq> [] \<and> length s \<le> ACTION_CODE_MAX \<and> is_upper (hd s)
     \<and> list_all (\<lambda>c. is_upper c \<or> is_num c \<or> c = 0x5f) (tl s)"

text \<open>\<open>None\<close> is \<open>NGX_MAX_SIZE_T_VALUE\<close>, no bound.\<close>

definition text_clean :: "nat option \<Rightarrow> bytes \<Rightarrow> bool" where
  "text_clean bound s \<longleftrightarrow>
     (case bound of Some n \<Rightarrow> length s \<le> n | None \<Rightarrow> True) \<and> list_all (\<lambda>c. \<not> c < 0x20 \<and> c \<noteq> 0x7f) s"

definition marker_clean :: "bytes \<Rightarrow> bool" where
  "marker_clean s \<longleftrightarrow>
     s \<noteq> [] \<and> text_clean (Some ACTION_MARKER_MAX) s \<and> hd s \<noteq> 0x20 \<and> last s \<noteq> 0x20"

definition token_clean :: "bytes \<Rightarrow> bool" where
  "token_clean s \<longleftrightarrow>
     s \<noteq> [] \<and> length s \<le> 128
     \<and> list_all (\<lambda>c. is_lower c \<or> is_upper c \<or> is_num c \<or> c = 0x2d \<or> c = 0x5f \<or> c = 0x2e \<or> c = 0x7e) s"

definition subject_clean :: "bytes \<Rightarrow> bool" where
  "subject_clean s \<longleftrightarrow>
     s \<noteq> [] \<and> length s \<le> DENY_SUBJECT_MAX
     \<and> list_all (\<lambda>c. is_lower c \<or> is_upper c \<or> is_num c \<or> c = 0x2d \<or> c = 0x5f \<or> c = 0x2e \<or> c = 0x3a \<or> c = 0x2f) s"

text \<open>\<open>ngx_http_waf_value_clean\<close> of \<open>core/ngx_http_waf_directives.c\<close>: no CR, LF or NUL.\<close>

definition value_clean :: "bytes \<Rightarrow> bool" where
  "value_clean s \<longleftrightarrow> list_all (\<lambda>c. c \<noteq> 0x0d \<and> c \<noteq> 0x0a \<and> c \<noteq> 0) s"

definition arg_clean :: "bool \<Rightarrow> bytes \<Rightarrow> bool" where
  "arg_clean name s \<longleftrightarrow>
     (name \<longrightarrow> s \<noteq> [])
     \<and> list_all (\<lambda>c. \<not> c \<le> 0x20 \<and> c \<noteq> 0x7f \<and> c \<noteq> 0x26 \<and> c \<noteq> 0x23 \<and> \<not> (name \<and> c = 0x3d)) s"

definition cookie_value_clean :: "bytes \<Rightarrow> bool" where
  "cookie_value_clean s \<longleftrightarrow>
     (let inner = (if length s \<ge> 2 \<and> hd s = 0x22 \<and> last s = 0x22 then butlast (tl s) else s)
      in list_all (\<lambda>c. \<not> (c \<le> 0x20 \<or> c \<ge> 0x7f \<or> c = 0x22 \<or> c = 0x2c \<or> c = 0x3b \<or> c = 0x5c)) inner)"

definition cookie_path_clean :: "bytes \<Rightarrow> bool" where
  "cookie_path_clean s \<longleftrightarrow> list_all (\<lambda>c. \<not> (c < 0x20 \<or> c \<ge> 0x7f \<or> c = 0x3b)) s"

definition url_clean :: "nat \<Rightarrow> bytes \<Rightarrow> bool" where
  "url_clean bound s \<longleftrightarrow>
     s \<noteq> [] \<and> length s \<le> bound
     \<and> list_all (\<lambda>c. \<not> (c \<le> 0x20 \<or> c \<ge> 0x7f) \<and> c \<notin> {0x5c, 0x22, 0x3c, 0x3e, 0x5e, 0x60, 0x7b, 0x7d, 0x7c}) s"

text \<open>\<open>ngx_strncasecmp (a, b, n) == 0\<close>: the comparison ignores case and stops at a NUL in both.\<close>

definition lower :: "byte \<Rightarrow> byte" where
  "lower c = (if is_upper c then c OR 0x20 else c)"

fun same_nocase :: "nat \<Rightarrow> bytes \<Rightarrow> bytes \<Rightarrow> bool" where
  "same_nocase 0 xs ys = True"
| "same_nocase (Suc n) (a # xs) (b # ys) = (lower a = lower b \<and> (lower a = 0 \<or> same_nocase n xs ys))"
| "same_nocase (Suc n) _ _ = False"

definition forbidden_headers :: "bytes list" where
  "forbidden_headers = map ascii
     [''host'', ''authorization'', ''cookie'', ''content-length'', ''transfer-encoding'', ''content-encoding'',
      ''connection'', ''upgrade'', ''keep-alive'', ''proxy-authenticate'', ''proxy-authorization'', ''te'', ''trailer'']"

definition header_forbidden :: "bytes \<Rightarrow> bool" where
  "header_forbidden name \<longleftrightarrow> list_ex (\<lambda>h. length h = length name \<and> same_nocase (length name) h name) forbidden_headers"

definition keyword :: "(string \<times> 'a) list \<Rightarrow> bytes \<Rightarrow> 'a option" where
  "keyword kw name = map_option snd (find (\<lambda>(k, _). ascii k = name) kw)"

subsection \<open>Redirects\<close>

record wurl =
  u_scheme :: bytes
  u_host :: bytes
  u_path :: bytes
  u_port :: nat

record redirect_allow =
  ra_scheme :: bytes
  ra_host :: bytes
  ra_path :: bytes
  ra_port :: nat
  ra_wildcard :: bool

text \<open>\<open>ngx_atoi\<close>: \<open>None\<close> is \<open>NGX_ERROR\<close>.\<close>

fun atoi_loop :: "nat \<Rightarrow> bytes \<Rightarrow> nat option" where
  "atoi_loop v [] = Some v"
| "atoi_loop v (c # p) =
     (if \<not> is_num c then None
      else
        let d = unat (c - 0x30) in
        if v \<ge> 922337203685477580 \<and> (v > 922337203685477580 \<or> d > 7) then None
        else atoi_loop (v * 10 + d) p)"

text \<open>For evaluation the bound is compared as an integer.\<close>

lemma atoi_loop_code [code]:
  "atoi_loop v [] = Some v"
  "atoi_loop v (c # p) =
     (if \<not> is_num c then None
      else
        let d = unat (c - 0x30) in
        if int v \<ge> 922337203685477580 \<and> (int v > 922337203685477580 \<or> d > 7) then None
        else atoi_loop (v * 10 + d) p)"
  by (simp_all add: Let_def)

definition atoi :: "bytes \<Rightarrow> nat option" where
  "atoi s = (if s = [] then None else atoi_loop 0 s)"

definition url0 :: wurl where
  "url0 = \<lparr>u_scheme = [], u_host = [], u_path = [], u_port = 0\<rparr>"

definition in_authority :: "byte \<Rightarrow> bool" where
  "in_authority c \<longleftrightarrow> c \<noteq> 0x2f \<and> c \<noteq> 0x3f \<and> c \<noteq> 0x23"

text \<open>What follows the scheme.\<close>

definition url_authority :: "bytes \<Rightarrow> nat \<Rightarrow> bytes \<Rightarrow> wurl option" where
  "url_authority scheme port p =
     (let auth = takeWhile in_authority p;
          rest = dropWhile in_authority p;
          host = takeWhile (\<lambda>c. c \<noteq> 0x3a) auth;
          after = dropWhile (\<lambda>c. c \<noteq> 0x3a) auth;
          path = (if rest = [] then [0x2f] else rest)
      in if 0x40 \<in> set auth then None
         else if auth = [] \<or> hd auth = 0x5b then None
         else if after \<noteq> []
         then (case atoi (tl after) of
                 None \<Rightarrow> None
               | Some n \<Rightarrow>
                   if n < 1 \<or> n > 65535 \<or> host = [] then None
                   else Some \<lparr>u_scheme = scheme, u_host = host, u_path = path, u_port = n\<rparr>)
         else Some \<lparr>u_scheme = scheme, u_host = auth, u_path = path, u_port = port\<rparr>)"

definition url_parse :: "bytes \<Rightarrow> wurl option" where
  "url_parse url =
     (if url = [] then None
      else if hd url = 0x2f
      then (if length url > 1 \<and> url ! 1 = 0x2f then None else Some (url0\<lparr>u_path := url\<rparr>))
      else if length url > 7 \<and> same_nocase 7 url (ascii ''http://'')
      then url_authority (ascii ''http'') 80 (drop 7 url)
      else if length url > 8 \<and> same_nocase 8 url (ascii ''https://'')
      then url_authority (ascii ''https'') 443 (drop 8 url)
      else None)"

definition host_matches :: "redirect_allow \<Rightarrow> bytes \<Rightarrow> bool" where
  "host_matches a host \<longleftrightarrow>
     (if \<not> ra_wildcard a
      then length (ra_host a) = length host \<and> same_nocase (length host) (ra_host a) host
      else
        length host > length (ra_host a) + 1
        \<and> (let n = length host - length (ra_host a)
           in host ! (n - 1) = 0x2e \<and> same_nocase (length (ra_host a)) (ra_host a) (drop n host)))"

definition prefix_bounded :: "bytes \<Rightarrow> bytes \<Rightarrow> bool" where
  "prefix_bounded s p \<longleftrightarrow>
     (if p = [] then True
      else if length s < length p \<or> take (length p) s \<noteq> p then False
      else if length s = length p then True
      else if last p = 0x2f then True
      else let c = s ! length p in c = 0x2f \<or> c = 0x3f \<or> c = 0x23)"

definition allow_matches :: "wurl \<Rightarrow> redirect_allow \<Rightarrow> bool" where
  "allow_matches u a \<longleftrightarrow>
     (ra_scheme a = [] \<longleftrightarrow> u_scheme u = [])
     \<and> (u_scheme u \<noteq> [] \<longrightarrow> ra_scheme a = u_scheme u \<and> ra_port a = u_port u \<and> host_matches a (u_host u))
     \<and> prefix_bounded (u_path u) (ra_path a)"

definition redirect_allowed :: "redirect_allow list option \<Rightarrow> bytes \<Rightarrow> bool" where
  "redirect_allowed allow url \<longleftrightarrow>
     (case (allow, url_parse url) of (Some as, Some u) \<Rightarrow> list_ex (allow_matches u) as | _ \<Rightarrow> False)"

subsection \<open>Keys of rewritten objects\<close>

definition suffix_char :: "byte \<Rightarrow> bool" where
  "suffix_char c \<longleftrightarrow> is_lower c \<or> is_num c \<or> c = 0x5f \<or> c = 0x2d"

definition obj_suffix_reserved :: "bytes \<Rightarrow> bool" where
  "obj_suffix_reserved s \<longleftrightarrow> s = ascii ''hdr'' \<or> s = ascii ''arg''"

fun body_phase_tag :: "phase \<Rightarrow> bytes" where
  "body_phase_tag PH_REQUEST = ascii ''req''"
| "body_phase_tag PH_RESPONSE = ascii ''rsp''"
| "body_phase_tag PH_FRAME_C2S = ascii ''frm''"
| "body_phase_tag PH_FRAME_S2C = ascii ''frm''"

definition suffix_clean :: "bytes \<Rightarrow> bool" where
  "suffix_clean s \<longleftrightarrow> list_all suffix_char s \<and> \<not> obj_suffix_reserved s"

text \<open>\<open>live\<close> is the key of the live version of the body, if it has one.\<close>

definition extends_live :: "bytes option \<Rightarrow> bytes \<Rightarrow> bool" where
  "extends_live live key \<longleftrightarrow>
     (case live of
        Some loc \<Rightarrow>
          loc \<noteq> [] \<and> length key > length loc + 1 \<and> length key \<le> length loc + 1 + 32
          \<and> take (length loc) key = loc \<and> key ! length loc = 0x3a
      | None \<Rightarrow> False)"

definition rewrite_key_clean :: "bytes option \<Rightarrow> bytes \<Rightarrow> bytes \<Rightarrow> phase \<Rightarrow> bytes \<Rightarrow> bool" where
  "rewrite_key_clean live node_id rid_hex phase key \<longleftrightarrow>
     (if extends_live live key then suffix_clean (drop (length (the live) + 1) key)
      else
        let prefix = node_id @ [0x3a] @ rid_hex @ [0x3a] @ body_phase_tag phase @ [0x3a]
        in length key > length prefix \<and> length key \<le> length prefix + 32 \<and> take (length prefix) key = prefix
           \<and> suffix_clean (drop (length prefix) key))"

subsection \<open>Verbs and axes\<close>

fun apply_allowed :: "verb \<Rightarrow> apply_axis \<Rightarrow> bool" where
  "apply_allowed DO_REAUTH axis = (axis = APPLY_SESSION)"
| "apply_allowed DO_NOTE axis = (axis \<in> {APPLY_REQUEST, APPLY_IP, APPLY_ASN, APPLY_SESSION})"
| "apply_allowed DO_ACTIVE axis = (axis = APPLY_REQUEST \<or> axis = APPLY_CONN)"
| "apply_allowed DO_PASSIVE axis = (axis = APPLY_REQUEST \<or> axis = APPLY_CONN)"
| "apply_allowed DO_OFF axis = (axis = APPLY_REQUEST \<or> axis = APPLY_CONN)"
| "apply_allowed DO_VOTE axis = (axis = APPLY_REQUEST \<or> axis = APPLY_CONN)"
| "apply_allowed DO_AUDIT axis = (axis = APPLY_REQUEST \<or> axis = APPLY_RESPONSE)"
| "apply_allowed DO_ARCHIVE axis = (axis = APPLY_REQUEST \<or> axis = APPLY_RESPONSE)"
| "apply_allowed _ axis = (axis = APPLY_REQUEST)"

end
