(* ===== verification/Reply.thy ===== *)
theory Reply
  imports Reply_Clean Json Verdict Handler
begin

text \<open>
  The decoder of answers (\<open>src/module/src/codec/ngx_http_waf_msg_reply.c\<close>): a reply is read from its
  JSON text member by member with the pull parser, every section by a function of its own.

  A reader takes the parser and gives \<open>Inl\<close> with the message of a refusal (empty when the source only
  returns \<open>NGX_ERROR\<close>), or \<open>Inr\<close> with what it read and the parser behind it. The loops over members and
  elements are partial functions; \<open>None\<close> is a loop that does not end.
\<close>

text \<open>For evaluation the bound of the numbers is compared as an integer.\<close>

lemma int_loop_code [code]:
  "int_loop v digits [] = (Inr (v, digits), [])"
  "int_loop v digits (c # p) =
     (if \<not> is_digit c then (Inr (v, digits), c # p)
      else if digits = 1 \<and> v = 0 then (Inl ''leading zero in number'', c # p)
      else
        let d = unat (c - 0x30) in
        if int v > (9223372036854775807 - int d) div 10 then (Inl ''number out of range'', c # p)
        else int_loop (v * 10 + d) (digits + 1) p)"
proof -
  have "unat (c - 0x30) \<le> MAX_INT" using unsigned_less [of "c - 0x30", where 'a = nat] by simp
  then have "int ((MAX_INT - unat (c - 0x30)) div 10) = (9223372036854775807 - int (unat (c - 0x30))) div 10"
    by (simp only: zdiv_int of_nat_diff) simp
  then have "int v > (9223372036854775807 - int (unat (c - 0x30))) div 10 \<longleftrightarrow> v > (MAX_INT - unat (c - 0x30)) div 10"
    by (metis of_nat_less_iff)
  then show "int_loop v digits (c # p) =
     (if \<not> is_digit c then (Inr (v, digits), c # p)
      else if digits = 1 \<and> v = 0 then (Inl ''leading zero in number'', c # p)
      else
        let d = unat (c - 0x30) in
        if int v > (9223372036854775807 - int d) div 10 then (Inl ''number out of range'', c # p)
        else int_loop (v * 10 + d) (digits + 1) p)"
    by (simp only: int_loop.simps Let_def)
qed simp

subsection \<open>Readers\<close>

type_synonym 'a read = "jp \<Rightarrow> (string + 'a \<times> jp) option"

definition r_ret :: "'a \<Rightarrow> 'a read" where
  "r_ret x j = Some (Inr (x, j))"

definition r_fail :: "string \<Rightarrow> 'a read" where
  "r_fail e j = Some (Inl e)"

definition r_bind :: "'a read \<Rightarrow> ('a \<Rightarrow> 'b read) \<Rightarrow> 'b read" where
  "r_bind m f j = (case m j of None \<Rightarrow> None | Some (Inl e) \<Rightarrow> Some (Inl e) | Some (Inr (x, k)) \<Rightarrow> f x k)"

definition r_check :: "bool \<Rightarrow> string \<Rightarrow> 'a read \<Rightarrow> 'a read" where
  "r_check ok e m = (if ok then m else r_fail e)"

text \<open>\<open>if (... != NGX_OK) reject (err, msg)\<close>, and the same where the section may have set its own message.\<close>

definition r_or :: "string \<Rightarrow> 'a read \<Rightarrow> 'a read" where
  "r_or msg m j = map_option (\<lambda>r. case r of Inl e \<Rightarrow> Inl msg | Inr x \<Rightarrow> Inr x) (m j)"

definition r_or_own :: "string \<Rightarrow> 'a read \<Rightarrow> 'a read" where
  "r_or_own msg m j = map_option (\<lambda>r. case r of Inl e \<Rightarrow> Inl (if e = [] then msg else e) | Inr x \<Rightarrow> Inr x) (m j)"

text \<open>The calls of the pull parser. \<open>al\<close> tells for every place in the text whether the pool has memory for
  the string there.\<close>

definition r_rc :: "(jp \<Rightarrow> rc \<times> jp) \<Rightarrow> unit read" where
  "r_rc f j = Some (case f j of (NGX_OK, k) \<Rightarrow> Inr ((), k) | _ \<Rightarrow> Inl [])"

definition r_string :: "(nat \<Rightarrow> bool) \<Rightarrow> bytes read" where
  "r_string al j = Some (case jp_string (al (length (jp_pos j))) j of (NGX_OK, s, k) \<Rightarrow> Inr (s, k) | _ \<Rightarrow> Inl [])"

definition r_int :: "int read" where
  "r_int j = Some (case jp_int j of (NGX_OK, n, k) \<Rightarrow> Inr (n, k) | _ \<Rightarrow> Inl [])"

definition r_bool :: "bool read" where
  "r_bool j = Some (case jp_bool j of (NGX_OK, b, k) \<Rightarrow> Inr (b, k) | _ \<Rightarrow> Inl [])"

text \<open>An array that could not grow. The place in the text tells the pushes apart.\<close>

definition r_push :: "(nat \<Rightarrow> bool) \<Rightarrow> 'a \<Rightarrow> 'a read" where
  "r_push al x j = (if al (length (jp_pos j)) then r_ret x j else r_fail [] j)"

partial_function (option) members ::
  "(nat \<Rightarrow> bool) \<Rightarrow> (bytes \<Rightarrow> 's \<Rightarrow> 's read) \<Rightarrow> 's \<Rightarrow> jp \<Rightarrow> (string + 's \<times> jp) option" where
  "members al body s j =
     (case jp_member (al (length (jp_pos j))) j of
        (r, key, k) \<Rightarrow>
          if r = NGX_DONE then Some (Inr (s, k))
          else if r \<noteq> NGX_OK then Some (Inl [])
          else case body key s k of
            None \<Rightarrow> None
          | Some (Inl e) \<Rightarrow> Some (Inl e)
          | Some (Inr (s, k)) \<Rightarrow> members al body s k)"

partial_function (option) elements :: "('s \<Rightarrow> 's read) \<Rightarrow> 's \<Rightarrow> jp \<Rightarrow> (string + 's \<times> jp) option" where
  "elements body s j =
     (case jp_element j of
        (r, k) \<Rightarrow>
          if r = NGX_DONE then Some (Inr (s, k))
          else if r \<noteq> NGX_OK then Some (Inl [])
          else case body s k of
            None \<Rightarrow> None
          | Some (Inl e) \<Rightarrow> Some (Inl e)
          | Some (Inr (s, k)) \<Rightarrow> elements body s k)"

declare members.simps [code] elements.simps [code]

definition r_object :: "(nat \<Rightarrow> bool) \<Rightarrow> (bytes \<Rightarrow> 's \<Rightarrow> 's read) \<Rightarrow> 's \<Rightarrow> 's read" where
  "r_object al body s = r_bind (r_rc jp_object) (\<lambda>_. members al body s)"

definition r_array :: "('s \<Rightarrow> 's read) \<Rightarrow> 's \<Rightarrow> 's read" where
  "r_array body s = r_bind (r_rc jp_array) (\<lambda>_. elements body s)"

definition r_skip :: "'s \<Rightarrow> 's read" where
  "r_skip s = r_bind (r_rc jp_skip) (\<lambda>_. r_ret s)"

subsection \<open>The decoded reply\<close>

abbreviation (input) PROTOCOL_VERSION :: int where "PROTOCOL_VERSION \<equiv> 2"
abbreviation (input) POINTS_MAX :: int where "POINTS_MAX \<equiv> 100"
abbreviation (input) DELTA_MAX :: int where "DELTA_MAX \<equiv> 1000"
abbreviation (input) VALUE_MAX :: int where "VALUE_MAX \<equiv> 1000"
abbreviation (input) ACTION_TTL_MAX :: int where "ACTION_TTL_MAX \<equiv> 315360000"
abbreviation (input) ACTION_LIMIT_MAX :: int where "ACTION_LIMIT_MAX \<equiv> 1073741824"
abbreviation (input) DENY_RETRY_MAX :: int where "DENY_RETRY_MAX \<equiv> 2592000"
abbreviation (input) MUTATE_GROUPS_MAX :: nat where "MUTATE_GROUPS_MAX \<equiv> 16"
abbreviation (input) SESSIONS_REPLY_MAX :: nat where "SESSIONS_REPLY_MAX \<equiv> 4"
abbreviation (input) SESSION_USER_MAX :: nat where "SESSION_USER_MAX \<equiv> 256"
abbreviation (input) SESSION_ID_MAX :: nat where "SESSION_ID_MAX \<equiv> 128"
abbreviation (input) SESSION_SOURCE_MAX :: nat where "SESSION_SOURCE_MAX \<equiv> 64"
abbreviation (input) SESSION_KIND_MAX :: nat where "SESSION_KIND_MAX \<equiv> 16"
abbreviation (input) SESSION_GROUPS_MAX :: nat where "SESSION_GROUPS_MAX \<equiv> 256"

record cookie =
  ck_name :: bytes
  ck_value :: bytes
  ck_path :: bytes
  ck_max_age :: int
  ck_max_age_set :: bool

text \<open>The fields of a reply that only the decoder and the application of a verdict use.\<close>

record full_reply = reply +
  fr_reason_code :: bytes
  fr_reason_scope :: scope
  fr_reason_subject :: bytes
  fr_reason_retry :: int
  fr_status :: int
  fr_headers_set :: "(bytes \<times> bytes) list"
  fr_headers_unset :: "bytes list"
  fr_cookies :: "cookie list"
  fr_args_set :: "(bytes \<times> bytes) list"
  fr_args_unset :: "bytes list"
  fr_rewrite_groups :: "bytes list"
  fr_rewrite_content_type :: bytes
  fr_no_cache :: bool

definition full_reply0 :: full_reply where
  "full_reply0 = reply.extend (reply0\<lparr>r_score := -1\<rparr>)
     \<lparr>fr_reason_code = [], fr_reason_scope = SCOPE_NONE, fr_reason_subject = [], fr_reason_retry = 0, fr_status = 0,
      fr_headers_set = [], fr_headers_unset = [], fr_cookies = [], fr_args_set = [], fr_args_unset = [],
      fr_rewrite_groups = [], fr_rewrite_content_type = [], fr_no_cache = False\<rparr>"

text \<open>What the decoder reads of the configuration, and what the allocator answers.\<close>

record reply_conf =
  rc_reply_max :: nat
  rc_header_value_max :: nat
  rc_args_cap :: nat
  rc_node_id :: bytes
  rc_redirect_allow :: "redirect_allow list option"
  rc_action_max :: nat
  rc_string :: "nat \<Rightarrow> bool"
  rc_array :: "nat \<Rightarrow> bool"
  rc_cont_calloc :: bool
  rc_cont_alloc :: bool
  rc_now :: msec

subsection \<open>Sections\<close>

definition continue_member :: "reply_conf \<Rightarrow> bytes \<Rightarrow> bytes \<times> int \<Rightarrow> (bytes \<times> int) read" where
  "continue_member rc key s =
     (if key = ascii ''subject'' then r_bind (r_string (rc_string rc)) (\<lambda>x. r_ret (x, snd s))
      else if key = ascii ''ttl_ms'' then r_bind r_int (\<lambda>n. r_ret (fst s, n))
      else r_skip s)"

definition reply_continue :: "reply_conf \<Rightarrow> bytes \<times> int \<Rightarrow> (bytes \<times> int) read" where
  "reply_continue rc = r_object (rc_string rc) (continue_member rc)"

text \<open>A member of a wrong type: the parser goes back and skips it.\<close>

definition reply_optional :: "'s \<Rightarrow> 's read" where
  "reply_optional s j = r_skip s (j\<lparr>jp_error := []\<rparr>)"

definition r_try :: "'a read \<Rightarrow> ('a \<Rightarrow> 's) \<Rightarrow> 's \<Rightarrow> 's read" where
  "r_try m f s j =
     (case m j of None \<Rightarrow> None | Some (Inl _) \<Rightarrow> reply_optional s j | Some (Inr (x, k)) \<Rightarrow> r_ret (f x) k)"

definition reason_member :: "reply_conf \<Rightarrow> bytes \<Rightarrow> full_reply \<Rightarrow> full_reply read" where
  "reason_member rc key r =
     (if key = ascii ''code''
      then r_bind (r_string (rc_string rc)) (\<lambda>v. r_check (text_clean None v) [] (r_ret (r\<lparr>fr_reason_code := v\<rparr>)))
      else if key = ascii ''class''
      then r_bind (r_string (rc_string rc)) (\<lambda>v. r_ret (if v = ascii ''overload'' then r\<lparr>r_overload := True\<rparr> else r))
      else if key = ascii ''scope''
      then r_try (r_string (rc_string rc)) (\<lambda>v. r\<lparr>fr_reason_scope := deny_scope_parse v\<rparr>) r
      else if key = ascii ''subject''
      then r_try (r_string (rc_string rc)) (\<lambda>v. if subject_clean v then r\<lparr>fr_reason_subject := v\<rparr> else r) r
      else if key = ascii ''retry''
      then r_try r_int (\<lambda>n. if n > 0 \<and> n \<le> DENY_RETRY_MAX then r\<lparr>fr_reason_retry := n\<rparr> else r) r
      else r_skip r)"

definition reply_reason :: "reply_conf \<Rightarrow> full_reply \<Rightarrow> full_reply read" where
  "reply_reason rc = r_object (rc_string rc) (reason_member rc)"

definition response_member :: "reply_conf \<Rightarrow> bytes \<Rightarrow> full_reply \<Rightarrow> full_reply read" where
  "response_member rc key r =
     (if key = ascii ''name''
      then r_bind (r_string (rc_string rc)) (\<lambda>v. r_check (token_clean v) [] (r_ret (r\<lparr>r_response_name := v\<rparr>)))
      else r_skip r)"

definition reply_response :: "reply_conf \<Rightarrow> full_reply \<Rightarrow> full_reply read" where
  "reply_response rc = r_object (rc_string rc) (response_member rc)"

definition redirect_member :: "reply_conf \<Rightarrow> bytes \<Rightarrow> full_reply \<Rightarrow> full_reply read" where
  "redirect_member rc key r =
     (if key = ascii ''url'' then r_bind (r_string (rc_string rc)) (\<lambda>v. r_ret (r\<lparr>r_redirect_url := v\<rparr>))
      else if key = ascii ''status''
      then r_bind r_int (\<lambda>n. r_check (n \<in> {302, 303, 307}) [] (r_ret (r\<lparr>fr_status := n\<rparr>)))
      else r_skip r)"

definition reply_redirect :: "reply_conf \<Rightarrow> full_reply \<Rightarrow> full_reply read" where
  "reply_redirect rc r =
     r_bind (r_object (rc_string rc) (redirect_member rc) r)
       (\<lambda>r. r_ret (if fr_status r = 0 then r\<lparr>fr_status := 303\<rparr> else r))"

definition args_set_member :: "reply_conf \<Rightarrow> bytes \<Rightarrow> full_reply \<Rightarrow> full_reply read" where
  "args_set_member rc name r =
     r_bind (r_string (rc_string rc)) (\<lambda>v.
       r_check (arg_clean True name \<and> arg_clean False v \<and> length v \<le> rc_args_cap rc) []
         (r_push (rc_array rc) (r\<lparr>fr_args_set := fr_args_set r @ [(name, v)]\<rparr>)))"

definition args_unset_element :: "reply_conf \<Rightarrow> full_reply \<Rightarrow> full_reply read" where
  "args_unset_element rc r =
     r_bind (r_string (rc_string rc)) (\<lambda>name.
       r_check (arg_clean True name) [] (r_push (rc_array rc) (r\<lparr>fr_args_unset := fr_args_unset r @ [name]\<rparr>)))"

definition args_member :: "reply_conf \<Rightarrow> bytes \<Rightarrow> full_reply \<Rightarrow> full_reply read" where
  "args_member rc key r =
     (if key = ascii ''set'' then r_object (rc_string rc) (args_set_member rc) r
      else if key = ascii ''unset'' then r_array (args_unset_element rc) r
      else r_skip r)"

definition reply_args :: "reply_conf \<Rightarrow> phase \<Rightarrow> full_reply \<Rightarrow> full_reply read" where
  "reply_args rc phase r =
     r_bind (r_object (rc_string rc) (args_member rc) r)
       (\<lambda>r. r_ret (if phase \<noteq> PH_REQUEST then r\<lparr>fr_args_set := [], fr_args_unset := []\<rparr> else r))"

definition headers_set_member :: "reply_conf \<Rightarrow> bytes \<Rightarrow> full_reply \<Rightarrow> full_reply read" where
  "headers_set_member rc name r =
     r_bind (r_string (rc_string rc)) (\<lambda>v.
       if \<not> token_clean name then r_ret r
       else if header_forbidden name then r_ret r
       else if \<not> value_clean v \<or> length v > rc_header_value_max rc then r_ret r
       else r_push (rc_array rc) (r\<lparr>fr_headers_set := fr_headers_set r @ [(name, v)]\<rparr>))"

definition headers_unset_element :: "reply_conf \<Rightarrow> full_reply \<Rightarrow> full_reply read" where
  "headers_unset_element rc r =
     r_bind (r_string (rc_string rc)) (\<lambda>name.
       if \<not> token_clean name then r_ret r
       else if header_forbidden name then r_ret r
       else r_push (rc_array rc) (r\<lparr>fr_headers_unset := fr_headers_unset r @ [name]\<rparr>))"

definition headers_member :: "reply_conf \<Rightarrow> bytes \<Rightarrow> full_reply \<Rightarrow> full_reply read" where
  "headers_member rc key r =
     (if key = ascii ''set'' then r_object (rc_string rc) (headers_set_member rc) r
      else if key = ascii ''unset'' then r_array (headers_unset_element rc) r
      else r_skip r)"

definition reply_headers :: "reply_conf \<Rightarrow> full_reply \<Rightarrow> full_reply read" where
  "reply_headers rc = r_object (rc_string rc) (headers_member rc)"

text \<open>\<open>ngx_hextoi\<close> over pairs of digits.\<close>

fun hex_bytes :: "bytes \<Rightarrow> bytes option" where
  "hex_bytes [] = Some []"
| "hex_bytes [_] = None"
| "hex_bytes (a # b # p) =
     (case (hex_value a, hex_value b) of
        (Some x, Some y) \<Rightarrow> map_option ((#) (ucast (x * 16 + y))) (hex_bytes p)
      | _ \<Rightarrow> None)"

text \<open>The state of a rewrite section: the reply, and whether a body, its key and its size were there.\<close>

type_synonym rewrite_state = "full_reply \<times> bool \<times> bool \<times> bool"

definition rewrite_body_member :: "reply_conf \<Rightarrow> ctx \<Rightarrow> bytes \<Rightarrow> rewrite_state \<Rightarrow> rewrite_state read" where
  "rewrite_body_member rc c key s =
     (case s of (r, body, has_key, has_size) \<Rightarrow>
        if key = ascii ''key''
        then r_bind (r_string (rc_string rc)) (\<lambda>v.
          r_check (rewrite_key_clean (map_option l_key (locator_live c)) (rc_node_id rc) (c_rid_hex c) (c_phase c) v) []
            (r_ret (r\<lparr>r_rewrite_key := v\<rparr>, body, True, has_size)))
        else if key = ascii ''size''
        then r_bind r_int (\<lambda>n.
          r_check (\<not> n < 0) [] (r_ret (r\<lparr>r_rewrite_size := n, r_rewrite_body := True\<rparr>, body, has_key, True)))
        else if key = ascii ''sha256''
        then r_bind (r_string (rc_string rc)) (\<lambda>v.
          r_check (length v = 64) []
            (case hex_bytes v of
               None \<Rightarrow> r_fail []
             | Some h \<Rightarrow> r_ret (r\<lparr>r_rewrite_sha256 := h, r_rewrite_sha256_set := True\<rparr>, body, has_key, has_size)))
        else r_skip s)"

definition rewrite_groups_element :: "reply_conf \<Rightarrow> rewrite_state \<Rightarrow> rewrite_state read" where
  "rewrite_groups_element rc s =
     (case s of (r, flags) \<Rightarrow>
        r_bind (r_string (rc_string rc)) (\<lambda>v.
          r_check (group_clean v) []
            (r_check (length (fr_rewrite_groups r) < MUTATE_GROUPS_MAX) []
              (r_push (rc_array rc) (r\<lparr>fr_rewrite_groups := fr_rewrite_groups r @ [v]\<rparr>, flags)))))"

definition rewrite_member :: "reply_conf \<Rightarrow> ctx \<Rightarrow> bytes \<Rightarrow> rewrite_state \<Rightarrow> rewrite_state read" where
  "rewrite_member rc c key s =
     (case s of (r, body, has_key, has_size) \<Rightarrow>
        if key = ascii ''body''
        then r_object (rc_string rc) (rewrite_body_member rc c) (r, True, has_key, has_size)
        else if key = ascii ''content_type''
        then r_bind (r_string (rc_string rc)) (\<lambda>v.
          r_check (v \<noteq> [] \<and> text_clean (Some 128) v) [] (r_ret (r\<lparr>fr_rewrite_content_type := v\<rparr>, body, has_key, has_size)))
        else if key = ascii ''groups'' then r_array (rewrite_groups_element rc) s
        else r_skip s)"

definition reply_rewrite :: "reply_conf \<Rightarrow> ctx \<Rightarrow> full_reply \<Rightarrow> full_reply read" where
  "reply_rewrite rc c r =
     r_bind (r_object (rc_string rc) (rewrite_member rc c) (r, False, False, False)) (\<lambda>(r, body, has_key, has_size).
       r_check (\<not> (body \<and> \<not> (has_key \<and> has_size))) [] (r_ret (r\<lparr>r_rewrite_has := True\<rparr>)))"

subsection \<open>Actions\<close>

definition obj_find :: "bytes \<Rightarrow> wobj option" where
  "obj_find name = keyword [(''headers'', OBJ_HEADERS), (''args'', OBJ_ARGS), (''body'', OBJ_BODY)] name"

definition spec_member :: "reply_conf \<Rightarrow> wobj \<Rightarrow> bytes \<Rightarrow> ovr_part \<Rightarrow> ovr_part read" where
  "spec_member rc obj key spec =
     (if key = ascii ''set''
      then r_bind (r_string (rc_string rc)) (\<lambda>v.
        if v = ascii ''off'' then r_ret (spec\<lparr>o_off := o_off spec OR obj_bit obj\<rparr>)
        else r_check (v = ascii ''on'') ''object set must be on or off'' (r_ret spec))
      else if key = ascii ''limit''
      then r_bind r_int (\<lambda>n.
        r_check (\<not> (n < 0 \<or> n > ACTION_LIMIT_MAX)) ''object limit is out of range''
          (r_ret (if n \<noteq> 0
                  then spec\<lparr>o_limit := (o_limit spec)(obj := nat n), o_has_limit := o_has_limit spec OR obj_bit obj\<rparr>
                  else spec)))
      else if key = ascii ''source''
      then r_bind (r_string (rc_string rc)) (\<lambda>v.
        if v = ascii ''store'' then r_ret (spec\<lparr>o_source := (o_source spec)(obj := SOURCE_STORE)\<rparr>)
        else r_check (v = ascii ''original'') ''object source must be store or original''
               (r_ret (spec\<lparr>o_source := (o_source spec)(obj := SOURCE_ORIGINAL)\<rparr>)))
      else r_skip spec)"

definition reply_object_spec :: "reply_conf \<Rightarrow> wobj \<Rightarrow> ovr_part \<Rightarrow> ovr_part read" where
  "reply_object_spec rc obj spec =
     r_bind (r_rc jp_object) (\<lambda>_. members (rc_string rc) (spec_member rc obj) (spec\<lparr>o_named := o_named spec OR obj_bit obj\<rparr>))"

definition do_verbs :: "(string \<times> verb) list" where
  "do_verbs =
     [(''challenge'', DO_CHALLENGE), (''threshold'', DO_THRESHOLD), (''skip'', DO_SKIP), (''reauth'', DO_REAUTH),
      (''note'', DO_NOTE), (''mutate'', DO_MUTATE), (''active'', DO_ACTIVE), (''passive'', DO_PASSIVE), (''off'', DO_OFF),
      (''vote'', DO_VOTE), (''audit'', DO_AUDIT), (''archive'', DO_ARCHIVE), (''mark'', DO_MARK), (''score'', DO_SCORE)]"

definition apply_axes :: "(string \<times> apply_axis) list" where
  "apply_axes =
     [(''request'', APPLY_REQUEST), (''ip'', APPLY_IP), (''asn'', APPLY_ASN), (''session'', APPLY_SESSION),
      (''conn'', APPLY_CONN), (''response'', APPLY_RESPONSE)]"

definition PH_FRAME :: u64 where
  "PH_FRAME = ph_bit PH_FRAME_C2S OR ph_bit PH_FRAME_S2C"

definition to_phases :: "(string \<times> u64) list" where
  "to_phases = [(''request'', ph_bit PH_REQUEST), (''response'', ph_bit PH_RESPONSE), (''frame'', PH_FRAME)]"

text \<open>An action that is being read, and the local variables of the loop.\<close>

record draft =
  dr_action :: action
  dr_to :: bytes
  dr_verb_set :: bool
  dr_apply_set :: bool
  dr_has_delta :: bool
  dr_has_value :: bool

definition action0 :: "nat \<Rightarrow> action" where
  "action0 index = \<lparr>a_verb = DO_CHALLENGE, a_to = ACTION_ALL, a_to_phases = 0, a_code = [], a_apply = APPLY_REQUEST, a_delta = 0,
     a_value = 0, a_counter = [], a_group = [], a_set = SET_NONE, a_marker = [], a_spec = ovr_part0, a_from = index,
     a_phase = PH_REQUEST, a_wave = 0, a_passive = False\<rparr>"

definition draft0 :: "nat \<Rightarrow> draft" where
  "draft0 index = \<lparr>dr_action = action0 index, dr_to = [], dr_verb_set = False, dr_apply_set = False, dr_has_delta = False,
     dr_has_value = False\<rparr>"

definition upd_act :: "(action \<Rightarrow> action) \<Rightarrow> draft \<Rightarrow> draft" where
  "upd_act f d = d\<lparr>dr_action := f (dr_action d)\<rparr>"

definition when_element :: "reply_conf \<Rightarrow> u64 \<Rightarrow> u64 read" where
  "when_element rc w =
     r_bind (r_string (rc_string rc)) (\<lambda>v.
       if v = ascii ''allow'' then r_ret (w OR 1)
       else r_check (v = ascii ''deny'') ''action when accepts only allow and deny'' (r_ret (w OR 8)))"

definition action_member :: "reply_conf \<Rightarrow> bytes \<Rightarrow> draft \<Rightarrow> draft read" where
  "action_member rc key d =
     (let str = r_string (rc_string rc) in
      if key = ascii ''do''
      then r_bind str (\<lambda>v. case keyword do_verbs v of
             None \<Rightarrow> r_fail ''unknown action verb''
           | Some x \<Rightarrow> r_ret ((upd_act (a_verb_update (\<lambda>_. x)) d)\<lparr>dr_verb_set := True\<rparr>))
      else if key = ascii ''to'' then r_bind str (\<lambda>v. r_ret (d\<lparr>dr_to := v\<rparr>))
      else if key = ascii ''code''
      then r_bind str (\<lambda>v. r_check (code_clean v) ''action code is not a code'' (r_ret (upd_act (a_code_update (\<lambda>_. v)) d)))
      else if key = ascii ''apply''
      then r_bind str (\<lambda>v. case keyword apply_axes v of
             None \<Rightarrow> r_fail ''unknown action axis''
           | Some x \<Rightarrow> r_ret ((upd_act (a_apply_update (\<lambda>_. x)) d)\<lparr>dr_apply_set := True\<rparr>))
      else if key = ascii ''phase''
      then r_bind str (\<lambda>v. case keyword to_phases v of
             None \<Rightarrow> r_fail ''unknown action phase''
           | Some x \<Rightarrow> r_ret (upd_act (a_to_phases_update (\<lambda>_. x)) d))
      else if key = ascii ''delta''
      then r_bind r_int (\<lambda>n. r_check (\<not> (n < - DELTA_MAX \<or> n > DELTA_MAX)) ''action delta is out of range''
             (r_ret ((upd_act (a_delta_update (\<lambda>_. n)) d)\<lparr>dr_has_delta := True\<rparr>)))
      else if key = ascii ''value''
      then r_bind r_int (\<lambda>n. r_check (\<not> (n < - VALUE_MAX \<or> n > VALUE_MAX)) ''action value is out of range''
             (r_ret ((upd_act (a_value_update (\<lambda>_. n)) d)\<lparr>dr_has_value := True\<rparr>)))
      else if key = ascii ''counter''
      then r_bind str (\<lambda>v. r_check (counter_clean v) ''action counter is not a name''
             (r_ret (upd_act (a_counter_update (\<lambda>_. v)) d)))
      else if key = ascii ''group''
      then r_bind str (\<lambda>v. r_check (counter_clean v) ''action group is not a name''
             (r_ret (upd_act (a_group_update (\<lambda>_. v)) d)))
      else if key = ascii ''marker''
      then r_bind str (\<lambda>v. r_check (marker_clean v) ''action marker is not a marker''
             (r_ret (upd_act (a_marker_update (\<lambda>_. v)) d)))
      else if key = ascii ''set''
      then r_bind str (\<lambda>v.
             if v = ascii ''on'' then r_ret (upd_act (a_set_update (\<lambda>_. SET_ON)) d)
             else r_check (v = ascii ''off'') ''action set must be on or off'' (r_ret (upd_act (a_set_update (\<lambda>_. SET_OFF)) d)))
      else if key = ascii ''ttl''
      then r_bind r_int (\<lambda>n. r_check (\<not> (n < 0 \<or> n > ACTION_TTL_MAX)) ''action ttl is out of range''
             (r_ret (upd_act (a_spec_update (\<lambda>s. s\<lparr>o_ttl := n, o_has_ttl := True\<rparr>)) d)))
      else if key = ascii ''when''
      then r_bind (r_array (when_element rc) 0) (\<lambda>w.
             r_check (w \<noteq> 0) ''action when names no outcome; omit it to archive every outcome''
               (r_ret (upd_act (a_spec_update (\<lambda>s. s\<lparr>o_when := w, o_has_when := True\<rparr>)) d)))
      else case obj_find key of
             Some obj \<Rightarrow> r_bind (reply_object_spec rc obj (a_spec (dr_action d))) (\<lambda>s. r_ret (upd_act (a_spec_update (\<lambda>_. s)) d))
           | None \<Rightarrow> r_skip d)"

text \<open>The checks behind the members of an action: the message of the first one that fails.\<close>

definition spec_given :: "ovr_part \<Rightarrow> bool" where
  "spec_given s \<longleftrightarrow> o_has_ttl s \<or> o_has_when s \<or> o_named s \<noteq> 0"

definition verb_error :: "draft \<Rightarrow> string option" where
  "verb_error d =
     (let a = dr_action d; s = a_spec a in
      if a_verb a = DO_MUTATE
      then (if a_group a = [] \<or> a_set a = SET_NONE then Some ''mutate without group or set'' else None)
      else if a_group a \<noteq> [] then Some ''group is only for mutate''
      else if do_audit (a_verb a)
      then (if a_set a = SET_NONE then Some ''audit verb without set''
            else if a_set a = SET_OFF \<and> spec_given s then Some ''ttl, when and objects are only for set on''
            else if a_verb a = DO_AUDIT \<and> (o_has_ttl s \<or> o_has_when s) then Some ''ttl and when are only for archive''
            else if a_apply a = APPLY_RESPONSE \<and> o_named s AND obj_bit OBJ_ARGS \<noteq> 0
            then Some ''args has no meaning for the response record''
            else if dr_to d \<noteq> [] then Some ''audit verb takes no addressee''
            else None)
      else if do_mark (a_verb a)
      then (if a_marker a = [] then Some ''mark without a marker''
            else if dr_to d \<noteq> [] then Some ''mark takes no addressee''
            else if a_set a \<noteq> SET_NONE \<or> spec_given s
            then Some ''set, ttl, when and objects are only for audit and archive''
            else None)
      else if do_score (a_verb a)
      then (if \<not> dr_has_value d \<or> a_value a = 0 then Some ''score without value''
            else if a_value a < - POINTS_MAX \<or> a_value a > POINTS_MAX then Some ''score value is out of range''
            else if dr_to d \<noteq> [] then Some ''score takes no addressee''
            else if a_set a \<noteq> SET_NONE \<or> spec_given s
            then Some ''set, ttl, when and objects are only for audit and archive''
            else None)
      else if a_set a \<noteq> SET_NONE then Some ''set is only for mutate, audit and archive''
      else if spec_given s then Some ''ttl, when and objects are only for audit and archive''
      else None)"

definition control_error :: "phase \<Rightarrow> draft \<Rightarrow> string option" where
  "control_error phase d =
     (let a = dr_action d in
      if do_control (a_verb a)
      then (if dr_to d = [] then Some ''control verb without to''
            else if a_apply a = APPLY_CONN \<and> \<not> phase_is_frame phase then Some ''apply conn outside frames''
            else if a_apply a = APPLY_CONN \<and> a_to_phases a \<noteq> 0 \<and> a_to_phases a AND PH_FRAME = 0
            then Some ''apply conn needs phase frame''
            else None)
      else if a_to_phases a \<noteq> 0 then Some ''phase is only for control verbs''
      else None)"

definition action_error :: "phase \<Rightarrow> draft \<Rightarrow> string option" where
  "action_error phase d =
     (let a = dr_action d in
      if \<not> dr_verb_set d then Some ''action without a verb''
      else if \<not> dr_apply_set d then Some ''action without an axis''
      else if \<not> apply_allowed (a_verb a) (a_apply a) then Some ''action axis does not fit the verb''
      else if a_verb a = DO_THRESHOLD \<and> \<not> dr_has_delta d then Some ''threshold without delta''
      else if a_counter a \<noteq> [] \<and> a_verb a \<noteq> DO_NOTE then Some ''counter is only for note''
      else if a_marker a \<noteq> [] \<and> \<not> do_mark (a_verb a) then Some ''marker is only for mark''
      else case verb_error d of
             Some e \<Rightarrow> Some e
           | None \<Rightarrow> control_error phase d)"

definition inspector_find :: "main_conf \<Rightarrow> bytes \<Rightarrow> nat option" where
  "inspector_find mc name =
     map_option fst (find (\<lambda>(_, i). i_name i = name) (List.enumerate 0 (mc_inspectors mc)))"

text \<open>The end of an action. \<open>used\<close> is the length of its text.\<close>

definition action_end :: "reply_conf \<Rightarrow> main_conf \<Rightarrow> phase \<Rightarrow> full_reply \<Rightarrow> nat \<Rightarrow> draft \<Rightarrow> full_reply read" where
  "action_end rc mc phase r used d =
     (case action_error phase d of
        Some e \<Rightarrow> r_fail e
      | None \<Rightarrow>
          if used > rc_action_max rc then r_ret r
          else
            let a = dr_action d;
                push = (\<lambda>a. r_push (rc_array rc) (r\<lparr>r_actions := r_actions r @ [a]\<rparr>))
            in if dr_to d = [] then push a
               else case inspector_find mc (dr_to d) of
                 None \<Rightarrow> r_ret r
               | Some i \<Rightarrow> push (a\<lparr>a_to := i\<rparr>))"

definition action_element :: "reply_conf \<Rightarrow> main_conf \<Rightarrow> phase \<Rightarrow> nat \<Rightarrow> full_reply \<Rightarrow> full_reply read" where
  "action_element rc mc phase index r j =
     r_bind (r_object (rc_string rc) (action_member rc) (draft0 index))
       (\<lambda>d k. action_end rc mc phase r (length (jp_pos j) - length (jp_pos k)) d k) j"

definition reply_actions :: "reply_conf \<Rightarrow> main_conf \<Rightarrow> loc_conf \<Rightarrow> phase \<Rightarrow> nat \<Rightarrow> full_reply \<Rightarrow> full_reply read" where
  "reply_actions rc mc lc phase index r =
     (if lc_actions_max lc = 0 then r_skip r else r_array (action_element rc mc phase index) r)"

subsection \<open>Cookies and sessions\<close>

definition cookie0 :: cookie where
  "cookie0 = \<lparr>ck_name = [], ck_value = [], ck_path = [], ck_max_age = 0, ck_max_age_set = False\<rparr>"

datatype same_site = SAMESITE_LAX | SAMESITE_STRICT | SAMESITE_NONE

definition same_sites :: "(string \<times> same_site) list" where
  "same_sites = [(''Lax'', SAMESITE_LAX), (''Strict'', SAMESITE_STRICT), (''None'', SAMESITE_NONE)]"

definition cookie_member :: "reply_conf \<Rightarrow> bytes \<Rightarrow> cookie \<Rightarrow> cookie read" where
  "cookie_member rc key ck =
     (let str = r_string (rc_string rc) in
      if key = ascii ''name''
      then r_bind str (\<lambda>v. r_check (token_clean v) [] (r_ret (ck\<lparr>ck_name := v\<rparr>)))
      else if key = ascii ''value''
      then r_bind str (\<lambda>v. r_check (cookie_value_clean v) [] (r_ret (ck\<lparr>ck_value := v\<rparr>)))
      else if key = ascii ''path''
      then r_bind str (\<lambda>v. r_check (cookie_path_clean v) [] (r_ret (ck\<lparr>ck_path := v\<rparr>)))
      else if key = ascii ''domain'' then r_bind str (\<lambda>_. r_ret ck)
      else if key = ascii ''max_age''
      then r_bind r_int (\<lambda>n. r_check (\<not> n < 0) [] (r_ret (ck\<lparr>ck_max_age := n, ck_max_age_set := True\<rparr>)))
      else if key = ascii ''http_only'' \<or> key = ascii ''secure'' then r_bind r_bool (\<lambda>_. r_ret ck)
      else if key = ascii ''same_site''
      then r_bind str (\<lambda>v. r_check (keyword same_sites v \<noteq> None) [] (r_ret ck))
      else r_skip ck)"

definition cookies_element :: "reply_conf \<Rightarrow> full_reply \<Rightarrow> full_reply read" where
  "cookies_element rc r =
     r_bind (r_object (rc_string rc) (cookie_member rc) cookie0) (\<lambda>ck.
       if ck_name ck = [] then r_ret r
       else r_push (rc_array rc) (r\<lparr>fr_cookies := fr_cookies r @ [ck]\<rparr>))"

definition reply_cookies :: "reply_conf \<Rightarrow> full_reply \<Rightarrow> full_reply read" where
  "reply_cookies rc = r_array (cookies_element rc)"

definition session0 :: session where
  "session0 = \<lparr>s_source = [], s_kind = [], s_user = [], s_id = [], s_groups = [], s_issued = 0, s_expires = 0, s_by = 0,
     s_verified = False, s_passive = False\<rparr>"

text \<open>The groups are joined by commas in a buffer of \<open>SESSION_GROUPS_MAX\<close> bytes.\<close>

definition groups_element :: "reply_conf \<Rightarrow> bytes \<Rightarrow> bytes read" where
  "groups_element rc buf =
     r_bind (r_string (rc_string rc)) (\<lambda>v.
       r_check (text_clean (Some SESSION_GROUPS_MAX) v \<and> v \<noteq> [] \<and> 0x2c \<notin> set v) []
         (r_check (\<not> SESSION_GROUPS_MAX - length buf < length v + (if buf \<noteq> [] then 1 else 0)) []
           (r_ret (buf @ (if buf \<noteq> [] then [0x2c] else []) @ v))))"

definition session_member :: "reply_conf \<Rightarrow> bytes \<Rightarrow> session \<Rightarrow> session read" where
  "session_member rc key s =
     (let str = r_string (rc_string rc) in
      if key = ascii ''source''
      then r_bind str (\<lambda>v. r_check (text_clean (Some SESSION_SOURCE_MAX) v) [] (r_ret (s\<lparr>s_source := v\<rparr>)))
      else if key = ascii ''kind''
      then r_bind str (\<lambda>v. r_check (text_clean (Some SESSION_KIND_MAX) v) [] (r_ret (s\<lparr>s_kind := v\<rparr>)))
      else if key = ascii ''user''
      then r_bind str (\<lambda>v. r_check (text_clean (Some SESSION_USER_MAX) v) [] (r_ret (s\<lparr>s_user := v\<rparr>)))
      else if key = ascii ''id''
      then r_bind str (\<lambda>v. r_check (text_clean (Some SESSION_ID_MAX) v) [] (r_ret (s\<lparr>s_id := v\<rparr>)))
      else if key = ascii ''verified'' then r_bind r_bool (\<lambda>b. r_ret (s\<lparr>s_verified := b\<rparr>))
      else if key = ascii ''issued'' then r_bind r_int (\<lambda>n. r_check (\<not> n < 0) [] (r_ret (s\<lparr>s_issued := n\<rparr>)))
      else if key = ascii ''expires'' then r_bind r_int (\<lambda>n. r_check (\<not> n < 0) [] (r_ret (s\<lparr>s_expires := n\<rparr>)))
      else if key = ascii ''groups''
      then r_bind (r_rc jp_array) (\<lambda>_. r_bind (r_push (rc_array rc) []) (\<lambda>buf.
             r_bind (elements (groups_element rc) buf) (\<lambda>g. r_ret (s\<lparr>s_groups := g\<rparr>))))
      else r_skip s)"

definition sessions_element :: "reply_conf \<Rightarrow> full_reply \<Rightarrow> full_reply read" where
  "sessions_element rc r =
     r_check (\<not> length (r_sessions r) \<ge> SESSIONS_REPLY_MAX) []
       (r_bind (r_object (rc_string rc) (session_member rc) session0) (\<lambda>s.
          if s_source s = [] \<or> s_kind s = [] then r_ret r
          else r_push (rc_array rc) (r\<lparr>r_sessions := r_sessions r @ [s]\<rparr>)))"

definition reply_sessions :: "reply_conf \<Rightarrow> full_reply \<Rightarrow> full_reply read" where
  "reply_sessions rc = r_array (sessions_element rc)"

subsection \<open>The reply\<close>

definition subject_publishable :: "bytes \<Rightarrow> bool" where
  "subject_publishable s \<longleftrightarrow> list_all (\<lambda>c. \<not> (c \<le> 0x20 \<or> c = 0x2a \<or> c = 0x3e \<or> c = 0x7f)) s"

definition reply_resume :: "reply_conf \<Rightarrow> main_conf \<Rightarrow> nat \<Rightarrow> bytes \<Rightarrow> int \<Rightarrow> ctx \<Rightarrow> rc \<times> ctx" where
  "reply_resume rc mc index subject ttl c =
     (let own = i_subject (mc_inspectors mc ! index) in
      if c_phase c \<noteq> PH_REQUEST then (NGX_OK, c)
      else if \<not> subject_publishable subject then (NGX_OK, c)
      else if length subject \<le> length own \<or> take (length own) subject \<noteq> own \<or> subject ! length own \<noteq> 0x2e
      then (NGX_OK, c)
      else resume_keep (rc_cont_calloc rc) (rc_cont_alloc rc) mc (rc_now rc) index subject (word_of_int ttl) c)"

definition verdicts :: "(string \<times> verdict) list" where
  "verdicts = [(''allow'', V_ALLOW), (''score'', V_SCORE), (''redirect'', V_REDIRECT), (''deny'', V_DENY), (''error'', V_ERROR)]"

text \<open>The local variables of \<open>msg_reply\<close>.\<close>

record msg_state =
  ms_reply :: full_reply
  ms_version :: int
  ms_verdict :: "verdict option"
  ms_cont :: "bytes \<times> int"

definition msg_state0 :: msg_state where
  "msg_state0 = \<lparr>ms_reply = full_reply0, ms_version = 0, ms_verdict = None, ms_cont = ([], 0)\<rparr>"

definition r_section :: "string \<Rightarrow> (full_reply \<Rightarrow> full_reply read) \<Rightarrow> msg_state \<Rightarrow> msg_state read" where
  "r_section msg f m = r_bind (r_or_own msg (f (ms_reply m))) (\<lambda>r. r_ret (m\<lparr>ms_reply := r\<rparr>))"

definition msg_member :: "reply_conf \<Rightarrow> main_conf \<Rightarrow> loc_conf \<Rightarrow> ctx \<Rightarrow> nat \<Rightarrow> bytes \<Rightarrow> msg_state \<Rightarrow> msg_state read" where
  "msg_member rc mc lc c index key m =
     (let str = r_string (rc_string rc) in
      if key = ascii ''v''
      then r_or ''field v is not a version'' (r_bind r_int (\<lambda>n. r_check (\<not> n \<le> 0) [] (r_ret (m\<lparr>ms_version := n\<rparr>))))
      else if key = ascii ''rid''
      then r_bind (r_or ''field rid is not a string'' str) (\<lambda>v.
             r_check (length v = RID_HEX_LEN \<and> take RID_HEX_LEN (c_rid_hex c) = v) ''rid does not echo the request'' (r_ret m))
      else if key = ascii ''inspector''
      then r_bind (r_or ''field inspector is not a string'' str) (\<lambda>v.
             r_check (v = i_name (mc_inspectors mc ! index)) ''reply impersonates another inspector'' (r_ret m))
      else if key = ascii ''verdict''
      then r_bind (r_or ''field verdict is not a string'' str) (\<lambda>v. case keyword verdicts v of
             None \<Rightarrow> r_fail ''unknown verdict''
           | Some x \<Rightarrow> r_ret (m\<lparr>ms_verdict := Some x\<rparr>))
      else if key = ascii ''score''
      then r_bind (r_or ''field score is not an integer'' r_int) (\<lambda>n.
             r_check (\<not> (n < 0 \<or> n > SCORE_MAX)) ''field score is out of range''
               (r_ret (m\<lparr>ms_reply := (ms_reply m)\<lparr>r_score := n\<rparr>\<rparr>)))
      else if key = ascii ''reason'' then r_section ''malformed reason'' (reply_reason rc) m
      else if key = ascii ''response'' then r_section ''malformed response reference'' (reply_response rc) m
      else if key = ascii ''redirect'' then r_section ''malformed redirect section'' (reply_redirect rc) m
      else if key = ascii ''headers'' then r_section ''malformed headers section'' (reply_headers rc) m
      else if key = ascii ''args'' then r_section ''malformed args section'' (reply_args rc (c_phase c)) m
      else if key = ascii ''rewrite'' then r_section ''malformed rewrite section'' (reply_rewrite rc c) m
      else if key = ascii ''continue''
      then r_bind (r_or ''malformed continue section'' (reply_continue rc (ms_cont m))) (\<lambda>x. r_ret (m\<lparr>ms_cont := x\<rparr>))
      else if key = ascii ''cookies'' then r_section ''malformed cookies section'' (reply_cookies rc) m
      else if key = ascii ''sessions'' then r_section ''malformed sessions section'' (reply_sessions rc) m
      else if key = ascii ''actions''
      then r_section ''malformed actions section'' (reply_actions rc mc lc (c_phase c) index) m
      else if key = ascii ''cache''
      then r_bind (r_or ''field cache is not a boolean'' r_bool) (\<lambda>b. r_ret (m\<lparr>ms_reply := (ms_reply m)\<lparr>fr_no_cache := \<not> b\<rparr>\<rparr>))
      else r_or ''malformed JSON'' (r_skip m))"

text \<open>The members, and the end of the text.\<close>

definition msg_read :: "reply_conf \<Rightarrow> main_conf \<Rightarrow> loc_conf \<Rightarrow> ctx \<Rightarrow> nat \<Rightarrow> msg_state read" where
  "msg_read rc mc lc c index =
     r_bind (r_or ''reply is not a JSON object'' (r_rc jp_object)) (\<lambda>_.
     r_bind (r_or_own ''malformed JSON'' (members (rc_string rc) (msg_member rc mc lc c index) msg_state0)) (\<lambda>m.
     r_bind (r_or ''trailing data after the reply object'' (r_rc jp_end)) (\<lambda>_. r_ret m)))"

text \<open>An inspector that failed keeps only its reason, its sessions and the actions on the module.\<close>

definition reply_error :: "full_reply \<Rightarrow> full_reply" where
  "reply_error r = r\<lparr>r_score := 0, r_response_name := [], r_redirect_url := [], r_rewrite_key := [],
     fr_rewrite_content_type := [], fr_status := 0, r_rewrite_has := False, r_rewrite_body := False, r_rewrite_size := 0,
     fr_rewrite_groups := [], fr_headers_set := [], fr_headers_unset := [], fr_args_set := [], fr_args_unset := [],
     fr_cookies := [], r_actions := filter (\<lambda>a. do_module (a_verb a) \<and> \<not> do_score (a_verb a)) (r_actions r)\<rparr>"

text \<open>What follows the loop over the members.\<close>

definition msg_finish :: "reply_conf \<Rightarrow> main_conf \<Rightarrow> nat \<Rightarrow> msg_state \<Rightarrow> ctx \<Rightarrow> (string + full_reply) \<times> ctx" where
  "msg_finish rc mc index m c =
     (if ms_version m = 0 then (Inl ''field v is missing'', c)
      else if ms_version m \<noteq> PROTOCOL_VERSION then (Inl ''unsupported schema version'', c)
      else case ms_verdict m of
        None \<Rightarrow> (Inl ''field verdict is missing'', c)
      | Some v \<Rightarrow>
          let v = (if v = V_REDIRECT \<and> c_phase c \<noteq> PH_REQUEST then V_ALLOW else v);
              r = (ms_reply m)\<lparr>r_verdict := v\<rparr>
          in if v = V_ERROR
             then (if fr_reason_code r = [] then (Inl ''verdict error without reason.code'', c) else (Inr (reply_error r), c))
             else if v = V_SCORE \<and> r_score r < 0 then (Inl ''verdict score without score'', c)
             else
               let r = (if v = V_SCORE then r else r\<lparr>r_score := 0\<rparr>) in
               if v = V_REDIRECT \<and> r_redirect_url r = [] then (Inl ''verdict redirect without redirect.url'', c)
               else if v = V_REDIRECT \<and> \<not> url_clean (rc_header_value_max rc) (r_redirect_url r)
               then (Inl ''redirect url is not a valid header value'', c)
               else if v = V_REDIRECT \<and> \<not> redirect_allowed (rc_redirect_allow rc) (r_redirect_url r)
               then (Inl ''redirect url is not allowed by waf_redirect_allow'', c)
               else
                 let r = (if v = V_REDIRECT then r else r\<lparr>fr_status := 0, r_redirect_url := []\<rparr>) in
                 case ms_cont m of (cont, ttl) \<Rightarrow>
                   if cont \<noteq> [] \<and> ttl > 0
                   then (case reply_resume rc mc index cont ttl c of
                           (NGX_OK, c) \<Rightarrow> (Inr r, c)
                         | (_, c) \<Rightarrow> (Inl ''continuation could not be kept'', c))
                   else (Inr r, c))"

definition msg_reply ::
  "reply_conf \<Rightarrow> main_conf \<Rightarrow> loc_conf \<Rightarrow> ctx \<Rightarrow> nat \<Rightarrow> bytes \<Rightarrow> ((string + full_reply) \<times> ctx) option" where
  "msg_reply rc mc lc c index payload =
     (if index \<ge> length (mc_inspectors mc) then Some (Inl ''reply names no declared inspector'', c)
      else if length payload > rc_reply_max rc then Some (Inl ''reply exceeds waf_reply_max'', c)
      else map_option (\<lambda>x. case x of Inl e \<Rightarrow> (Inl e, c) | Inr (m, _) \<Rightarrow> msg_finish rc mc index m c)
             (msg_read rc mc lc c index (jp_init payload)))"

end
