(* ===== verification/Reply_Laws.thy ===== *)
theory Reply_Laws
  imports Reply Json_Laws
begin

text \<open>
  The laws of the readers: a logic for what a reader gives. \<open>r_ok P m\<close> says of a reader that it ends on
  every text, that it does not go back, and that what it gives satisfies \<open>P\<close>.
\<close>

subsection \<open>The parser moves on\<close>

text \<open>An object or array just opened counts as one step more.\<close>

definition jp_left :: "jp \<Rightarrow> nat" where
  "jp_left j = 2 * length (jp_pos j) + (if jp_first j then 1 else 0)"

lemma jp_left_less: "length (jp_pos k) < length (jp_pos j) \<Longrightarrow> jp_left k < jp_left j"
  by (simp add: jp_left_def)

lemma jp_left_error [simp]: "jp_left (j\<lparr>jp_error := e\<rparr>) = jp_left j"
  by (simp add: jp_left_def)

lemma jp_left_ws: "jp_left (jp_ws j) \<le> jp_left j"
  using length_ws [of j] by (simp add: jp_left_def jp_ws_def)

lemma jp_skip_len: "jp_skip j = (NGX_OK, k) \<Longrightarrow> length (jp_pos k) < length (jp_pos j)"
  using skips_descent [of j, THEN conjunct1, rule_format, of "[]" k]
  by (auto simp: jp_skip_def dest: rvalue_len)

lemma jp_string_len: "jp_string al j = (NGX_OK, s, k) \<Longrightarrow> length (jp_pos k) < length (jp_pos j)"
proof -
  assume "jp_string al j = (NGX_OK, s, k)"
  then obtain n where "string_loop n False [] (adv 1 (jp_ws j)) = (NGX_OK, s, k)"
    by (auto simp: jp_string_def jp_string_buf_def Let_def split: if_splits option.splits)
  from string_loop_len [OF this] show ?thesis using length_ws [of j] by simp
qed

lemma int_loop_len: "int_loop v n p = (Inr (w, m), q) \<Longrightarrow> n \<le> m \<and> length q + m = length p + n"
  by (induction v n p rule: int_loop.induct) (auto simp: Let_def split: if_splits)

lemma jp_int_len: "jp_int j = (NGX_OK, n, k) \<Longrightarrow> length (jp_pos k) < length (jp_pos j)"
proof -
  assume *: "jp_int j = (NGX_OK, n, k)"
  define l where "l = (if cur (jp_ws j) = Some 0x2d then adv 1 (jp_ws j) else jp_ws j)"
  obtain v m q where il: "int_loop 0 0 (jp_pos l) = (Inr (v, m), q)" "m \<noteq> 0" and k: "jp_pos k = q"
    using * by (auto simp: jp_int_def Let_def l_def [symmetric] split: if_splits prod.splits sum.splits)
  have "length q < length (jp_pos l)" using int_loop_len [OF il(1)] il(2) by simp
  moreover have "length (jp_pos l) \<le> length (jp_pos j)"
    using length_ws [of j] by (auto simp: l_def)
  ultimately show ?thesis using k by simp
qed

lemma jp_open_less: "jp_open b j = (NGX_OK, k) \<Longrightarrow> jp_left k < jp_left j"
  using length_ws [of j] adv_1_len [of "jp_ws j"]
  by (auto simp: jp_open_def jp_left_def Let_def split: if_splits)

lemma jp_next_less: "jp_next b j = (r, k) \<Longrightarrow> r \<in> {NGX_OK, NGX_DONE} \<Longrightarrow> jp_left k < jp_left j"
  using length_ws [of j] adv_1_len [of "jp_ws j"] length_ws [of "adv 1 (jp_ws j)"]
  by (auto simp: jp_next_def jp_left_def Let_def jp_ws_def adv_def split: if_splits option.splits)

lemma jp_element_less: "jp_element j = (r, k) \<Longrightarrow> r \<in> {NGX_OK, NGX_DONE} \<Longrightarrow> jp_left k < jp_left j"
  using jp_next_less [where b = "0x5d" and j = j] le_less_trans [OF jp_left_ws]
  by (fastforce simp: jp_element_def Let_def split: if_splits prod.splits)

lemma jp_member_less: "jp_member al j = (r, key, k) \<Longrightarrow> r \<in> {NGX_OK, NGX_DONE} \<Longrightarrow> jp_left k < jp_left j"
proof -
  assume m: "jp_member al j = (r, key, k)" and r: "r \<in> {NGX_OK, NGX_DONE}"
  obtain q l where n: "jp_next 0x7d j = (q, l)" by fastforce
  show ?thesis
  proof (cases "q = NGX_OK")
    case False
    then show ?thesis using m n r jp_next_less [OF n] by (auto simp: jp_member_def)
  next
    case True
    obtain l2 l3 where s: "jp_string al l = (NGX_OK, key, l2)" and c: "jp_colon l2 = (NGX_OK, l3)" and k: "k = jp_ws l3"
      using m n r True by (auto simp: jp_member_def split: if_splits prod.splits)
    have "length (jp_pos l3) \<le> length (jp_pos l2)"
      using c length_ws [of l2] by (auto simp: jp_colon_def Let_def split: if_splits)
    then have "length (jp_pos k) < length (jp_pos l)" using jp_string_len [OF s] length_ws [of l3] k by simp
    then show ?thesis using jp_next_less [OF n] True jp_left_less by (meson insertI1 less_trans)
  qed
qed

subsection \<open>Readers\<close>

named_theorems r_ok_intros "rules for the readers"

definition r_ok :: "('a \<Rightarrow> bool) \<Rightarrow> 'a read \<Rightarrow> bool" where
  "r_ok P m \<longleftrightarrow>
     (\<forall>j. case m j of None \<Rightarrow> False | Some (Inl e) \<Rightarrow> True | Some (Inr (x, k)) \<Rightarrow> P x \<and> jp_left k \<le> jp_left j)"

lemma r_okE:
  assumes "r_ok P m"
  obtains e where "m j = Some (Inl e)" | x k where "m j = Some (Inr (x, k))" "P x" "jp_left k \<le> jp_left j"
proof -
  have "case m j of None \<Rightarrow> False | Some (Inl e) \<Rightarrow> True | Some (Inr (x, k)) \<Rightarrow> P x \<and> jp_left k \<le> jp_left j"
    using assms unfolding r_ok_def by blast
  then show thesis using that by (auto split: option.splits sum.splits)
qed

lemma r_ok_weaken: "r_ok P m \<Longrightarrow> (\<And>x. P x \<Longrightarrow> Q x) \<Longrightarrow> r_ok Q m"
  by (auto simp: r_ok_def split: option.splits sum.splits)

lemma r_ok_total: "r_ok P m \<Longrightarrow> \<exists>x. m j = Some x"
  by (erule r_okE [where j = j]) auto

lemma r_ok_result: "r_ok P m \<Longrightarrow> m j = Some (Inr (x, k)) \<Longrightarrow> P x"
  by (erule r_okE [where j = j]) auto

lemma r_ok_ret [r_ok_intros]: "P x \<Longrightarrow> r_ok P (r_ret x)"
  by (simp add: r_ok_def r_ret_def)

lemma r_ok_fail [r_ok_intros]: "r_ok P (r_fail e)"
  by (simp add: r_ok_def r_fail_def)

lemma r_ok_bind: "r_ok Q m \<Longrightarrow> (\<And>x. Q x \<Longrightarrow> r_ok P (f x)) \<Longrightarrow> r_ok P (r_bind m f)"
proof -
  assume m: "r_ok Q m" and f: "\<And>x. Q x \<Longrightarrow> r_ok P (f x)"
  have "case r_bind m f j of None \<Rightarrow> False | Some (Inl e) \<Rightarrow> True | Some (Inr (x, k)) \<Rightarrow> P x \<and> jp_left k \<le> jp_left j" for j
  proof (rule r_okE [OF m, of j])
    fix x k assume x: "m j = Some (Inr (x, k))" "Q x" "jp_left k \<le> jp_left j"
    show ?thesis by (rule r_okE [OF f [OF x(2)], of k]) (use x in \<open>auto simp: r_bind_def\<close>)
  qed (simp add: r_bind_def)
  then show ?thesis by (simp add: r_ok_def)
qed

lemma r_ok_check [r_ok_intros]: "(ok \<Longrightarrow> r_ok P m) \<Longrightarrow> r_ok P (r_check ok e m)"
  by (simp add: r_check_def r_ok_fail)

lemma r_ok_if [r_ok_intros]: "(b \<Longrightarrow> r_ok P m) \<Longrightarrow> (\<not> b \<Longrightarrow> r_ok P n) \<Longrightarrow> r_ok P (if b then m else n)"
  by simp

lemma r_ok_option [r_ok_intros]:
  "(x = None \<Longrightarrow> r_ok P m) \<Longrightarrow> (\<And>y. x = Some y \<Longrightarrow> r_ok P (f y)) \<Longrightarrow> r_ok P (case x of None \<Rightarrow> m | Some y \<Rightarrow> f y)"
  by (cases x) auto

lemma r_ok_or [r_ok_intros]: "r_ok P m \<Longrightarrow> r_ok P (r_or msg m)"
  by (auto simp: r_ok_def r_or_def split: option.splits sum.splits)

lemma r_ok_or_own [r_ok_intros]: "r_ok P m \<Longrightarrow> r_ok P (r_or_own msg m)"
  by (auto simp: r_ok_def r_or_own_def split: option.splits sum.splits)

lemma r_ok_rc:
  assumes "\<And>j k. f j = (NGX_OK, k) \<Longrightarrow> jp_left k \<le> jp_left j" "P ()"
  shows "r_ok P (r_rc f)"
  using assms by (auto simp: r_ok_def r_rc_def split: prod.splits rc.splits)

lemma r_ok_open:
  "r_ok (\<lambda>_. True) (r_rc jp_object)" "r_ok (\<lambda>_. True) (r_rc jp_array)"
  by (auto intro!: r_ok_rc simp: jp_object_def jp_array_def dest!: jp_open_less)

lemma r_ok_end: "r_ok (\<lambda>_. True) (r_rc jp_end)"
  by (auto intro!: r_ok_rc simp: jp_end_def Let_def jp_left_ws split: if_splits)

lemma r_ok_skip [r_ok_intros]: "P s \<Longrightarrow> r_ok P (r_skip s)"
  unfolding r_skip_def
  by (rule r_ok_bind [where Q = "\<lambda>_. True"])
    (auto intro!: r_ok_rc r_ok_ret dest!: jp_skip_len [THEN jp_left_less])

lemma r_ok_string [r_ok_intros]: "r_ok (\<lambda>_. True) (r_string al)"
  by (auto simp: r_ok_def r_string_def dest!: jp_string_len [THEN jp_left_less] split: prod.splits rc.splits)

lemma r_ok_int [r_ok_intros]: "r_ok (\<lambda>_. True) r_int"
  by (auto simp: r_ok_def r_int_def dest!: jp_int_len [THEN jp_left_less] split: prod.splits rc.splits)

lemma r_ok_bool [r_ok_intros]: "r_ok (\<lambda>_. True) r_bool"
  by (auto simp: r_ok_def r_bool_def dest!: jp_bool_len [THEN jp_left_less] split: prod.splits rc.splits)

lemma r_ok_push [r_ok_intros]: "P x \<Longrightarrow> r_ok P (r_push al x)"
  by (auto simp: r_ok_def r_push_def r_ret_def r_fail_def)

lemmas r_ok_bind_any = r_ok_bind [where Q = "\<lambda>_. True"]

lemma r_ok_optional: "P s \<Longrightarrow> r_ok P (reply_optional s)"
proof -
  assume "P s"
  then have ok: "r_ok P (r_skip s)" by (rule r_ok_skip)
  have "case reply_optional s j of None \<Rightarrow> False | Some (Inl e) \<Rightarrow> True | Some (Inr (x, k)) \<Rightarrow> P x \<and> jp_left k \<le> jp_left j" for j
    by (rule r_okE [OF ok, of "j\<lparr>jp_error := []\<rparr>"]) (auto simp: reply_optional_def)
  then show ?thesis by (simp add: r_ok_def)
qed

lemma r_ok_try [r_ok_intros]: "r_ok (\<lambda>_. True) m \<Longrightarrow> P s \<Longrightarrow> (\<And>x. P (f x)) \<Longrightarrow> r_ok P (r_try m f s)"
proof -
  assume m: "r_ok (\<lambda>_. True) m" and s: "P s" and f: "\<And>x. P (f x)"
  have "case r_try m f s j of None \<Rightarrow> False | Some (Inl e) \<Rightarrow> True | Some (Inr (x, k)) \<Rightarrow> P x \<and> jp_left k \<le> jp_left j" for j
  proof (rule r_okE [OF m, of j])
    fix e assume "m j = Some (Inl e)"
    then show ?thesis by (rule_tac r_okE [OF r_ok_optional [of P s], of j]) (auto simp: r_try_def s)
  qed (simp add: r_try_def r_ret_def f)
  then show ?thesis by (simp add: r_ok_def)
qed

text \<open>The loops: the body keeps the invariant, and every round moves on.\<close>

lemma r_ok_members:
  assumes body: "\<And>key s. I s \<Longrightarrow> r_ok I (body key s)"
  shows "I s \<Longrightarrow> r_ok I (members al body s)"
proof -
  have "I s \<Longrightarrow> case members al body s j of None \<Rightarrow> False | Some (Inl e) \<Rightarrow> True
      | Some (Inr (x, k)) \<Rightarrow> I x \<and> jp_left k \<le> jp_left j" for s j
  proof (induction "jp_left j" arbitrary: s j rule: less_induct)
    case less
    obtain r key k where m: "jp_member (al (length (jp_pos j))) j = (r, key, k)" by (metis prod_cases3)
    show ?case
    proof (cases "r = NGX_OK")
      case False
      then show ?thesis using less.prems jp_member_less [OF m] by (subst members.simps) (auto simp: m)
    next
      case True
      then have lt: "jp_left k < jp_left j" using jp_member_less [OF m] by simp
      show ?thesis
      proof (rule r_okE [OF body [OF less.prems], of key k])
        fix x l assume x: "body key s k = Some (Inr (x, l))" "I x" "jp_left l \<le> jp_left k"
        have "jp_left l < jp_left j" using x(3) lt by simp
        from less.hyps [OF this x(2)] show ?thesis
          using \<open>jp_left l < jp_left j\<close> True x(1)
          by (subst members.simps) (auto simp: m split: option.splits sum.splits)
      next
        fix e assume "body key s k = Some (Inl e)"
        then show ?thesis using True by (subst members.simps) (simp add: m)
      qed
    qed
  qed
  then show "I s \<Longrightarrow> r_ok I (members al body s)" by (simp add: r_ok_def)
qed

lemma r_ok_elements:
  assumes body: "\<And>s. I s \<Longrightarrow> r_ok I (body s)"
  shows "I s \<Longrightarrow> r_ok I (elements body s)"
proof -
  have "I s \<Longrightarrow> case elements body s j of None \<Rightarrow> False | Some (Inl e) \<Rightarrow> True
      | Some (Inr (x, k)) \<Rightarrow> I x \<and> jp_left k \<le> jp_left j" for s j
  proof (induction "jp_left j" arbitrary: s j rule: less_induct)
    case less
    obtain r k where m: "jp_element j = (r, k)" by fastforce
    show ?case
    proof (cases "r = NGX_OK")
      case False
      then show ?thesis using less.prems jp_element_less [OF m] by (subst elements.simps) (auto simp: m)
    next
      case True
      then have lt: "jp_left k < jp_left j" using jp_element_less [OF m] by simp
      show ?thesis
      proof (rule r_okE [OF body [OF less.prems], of k])
        fix x l assume x: "body s k = Some (Inr (x, l))" "I x" "jp_left l \<le> jp_left k"
        have "jp_left l < jp_left j" using x(3) lt by simp
        from less.hyps [OF this x(2)] show ?thesis
          using \<open>jp_left l < jp_left j\<close> True x(1)
          by (subst elements.simps) (auto simp: m split: option.splits sum.splits)
      next
        fix e assume "body s k = Some (Inl e)"
        then show ?thesis using True by (subst elements.simps) (simp add: m)
      qed
    qed
  qed
  then show "I s \<Longrightarrow> r_ok I (elements body s)" by (simp add: r_ok_def)
qed

lemma r_ok_object:
  "I s \<Longrightarrow> (\<And>key s. I s \<Longrightarrow> r_ok I (body key s)) \<Longrightarrow> r_ok I (r_object al body s)"
  unfolding r_object_def by (intro r_ok_bind_any [OF r_ok_open(1)] r_ok_members) auto

lemma r_ok_array: "I s \<Longrightarrow> (\<And>s. I s \<Longrightarrow> r_ok I (body s)) \<Longrightarrow> r_ok I (r_array body s)"
  unfolding r_array_def by (intro r_ok_bind_any [OF r_ok_open(2)] r_ok_elements) auto

end
