(* ===== verification/Reply_Safe.thy ===== *)
theory Reply_Safe
  imports Reply_Laws
begin

text \<open>
  What every decoded reply satisfies, section by section. Each predicate says what the code behind the
  decoder relies on; the lemmas show that the reader of the section keeps it.
\<close>

subsection \<open>The parts of a reply\<close>

definition header_ok :: "reply_conf \<Rightarrow> bytes \<times> bytes \<Rightarrow> bool" where
  "header_ok rc h \<longleftrightarrow>
     token_clean (fst h) \<and> \<not> header_forbidden (fst h) \<and> value_clean (snd h) \<and> length (snd h) \<le> rc_header_value_max rc"

definition arg_ok :: "reply_conf \<Rightarrow> bytes \<times> bytes \<Rightarrow> bool" where
  "arg_ok rc a \<longleftrightarrow> arg_clean True (fst a) \<and> arg_clean False (snd a) \<and> length (snd a) \<le> rc_args_cap rc"

definition cookie_ok :: "cookie \<Rightarrow> bool" where
  "cookie_ok ck \<longleftrightarrow>
     token_clean (ck_name ck) \<and> cookie_value_clean (ck_value ck) \<and> cookie_path_clean (ck_path ck) \<and> 0 \<le> ck_max_age ck"

definition session_ok :: "session \<Rightarrow> bool" where
  "session_ok s \<longleftrightarrow>
     text_clean (Some SESSION_SOURCE_MAX) (s_source s) \<and> text_clean (Some SESSION_KIND_MAX) (s_kind s)
     \<and> text_clean (Some SESSION_USER_MAX) (s_user s) \<and> text_clean (Some SESSION_ID_MAX) (s_id s)
     \<and> text_clean (Some SESSION_GROUPS_MAX) (s_groups s) \<and> 0 \<le> s_issued s \<and> 0 \<le> s_expires s"

text \<open>An action that the rules of its verb allow: see \<open>ngx_http_waf_reply_actions\<close>.\<close>

definition action_ok :: "main_conf \<Rightarrow> phase \<Rightarrow> nat \<Rightarrow> action \<Rightarrow> bool" where
  "action_ok mc phase index a \<longleftrightarrow>
     a_from a = index \<and> apply_allowed (a_verb a) (a_apply a)
     \<and> - DELTA_MAX \<le> a_delta a \<and> a_delta a \<le> DELTA_MAX
     \<and> (a_code a = [] \<or> code_clean (a_code a))
     \<and> (a_to a = ACTION_ALL \<or> a_to a < length (mc_inspectors mc))
     \<and> (do_control (a_verb a) \<longrightarrow> a_to a < length (mc_inspectors mc) \<and> (a_apply a = APPLY_CONN \<longrightarrow> phase_is_frame phase))
     \<and> (a_verb a = DO_MUTATE \<longrightarrow> counter_clean (a_group a) \<and> a_set a \<noteq> SET_NONE)
     \<and> (do_audit (a_verb a) \<longrightarrow> a_set a \<noteq> SET_NONE \<and> a_to a = ACTION_ALL)
     \<and> (do_mark (a_verb a) \<longrightarrow> marker_clean (a_marker a) \<and> a_to a = ACTION_ALL)
     \<and> (do_score (a_verb a) \<longrightarrow> a_value a \<noteq> 0 \<and> \<bar>a_value a\<bar> \<le> POINTS_MAX \<and> a_to a = ACTION_ALL)"

definition rewrite_ok :: "reply_conf \<Rightarrow> ctx \<Rightarrow> full_reply \<Rightarrow> bool" where
  "rewrite_ok rc c r \<longleftrightarrow>
     (r_rewrite_key r = [] \<or>
        rewrite_key_clean (map_option l_key (locator_live c)) (rc_node_id rc) (c_rid_hex c) (c_phase c) (r_rewrite_key r))
     \<and> 0 \<le> r_rewrite_size r \<and> (r_rewrite_sha256_set r \<longrightarrow> length (r_rewrite_sha256 r) = 32)
     \<and> list_all group_clean (fr_rewrite_groups r) \<and> length (fr_rewrite_groups r) \<le> MUTATE_GROUPS_MAX"

definition reply_clean :: "reply_conf \<Rightarrow> main_conf \<Rightarrow> ctx \<Rightarrow> nat \<Rightarrow> full_reply \<Rightarrow> bool" where
  "reply_clean rc mc c index r \<longleftrightarrow>
     list_all (header_ok rc) (fr_headers_set r)
     \<and> list_all (\<lambda>n. token_clean n \<and> \<not> header_forbidden n) (fr_headers_unset r)
     \<and> list_all (arg_ok rc) (fr_args_set r) \<and> list_all (arg_clean True) (fr_args_unset r)
     \<and> (c_phase c \<noteq> PH_REQUEST \<longrightarrow> fr_args_set r = [] \<and> fr_args_unset r = [])
     \<and> list_all cookie_ok (fr_cookies r)
     \<and> list_all session_ok (r_sessions r) \<and> length (r_sessions r) \<le> SESSIONS_REPLY_MAX
     \<and> list_all (action_ok mc (c_phase c) index) (r_actions r)
     \<and> rewrite_ok rc c r
     \<and> (r_rewrite_body r \<longrightarrow> r_rewrite_key r \<noteq> [])
     \<and> -1 \<le> r_score r \<and> r_score r \<le> SCORE_MAX
     \<and> fr_status r \<in> {0, 302, 303, 307} \<and> (r_response_name r = [] \<or> token_clean (r_response_name r))
     \<and> text_clean None (fr_reason_code r) \<and> (fr_reason_subject r = [] \<or> subject_clean (fr_reason_subject r))
     \<and> 0 \<le> fr_reason_retry r \<and> fr_reason_retry r \<le> DENY_RETRY_MAX"

lemmas r_ok_string_bind [r_ok_intros] = r_ok_bind_any [OF r_ok_string]
lemmas r_ok_int_bind [r_ok_intros] = r_ok_bind_any [OF r_ok_int]
lemmas r_ok_bool_bind [r_ok_intros] = r_ok_bind_any [OF r_ok_bool]

subsection \<open>The sections keep the reply clean\<close>

lemma reply_reason_ok: "reply_clean rc mc c i r \<Longrightarrow> r_ok (reply_clean rc mc c i) (reply_reason rc r)"
  unfolding reply_reason_def
  by (rule r_ok_object, assumption, unfold reason_member_def, intro r_ok_intros)
    (simp_all add: reply_clean_def rewrite_ok_def)

lemma reply_response_ok: "reply_clean rc mc c i r \<Longrightarrow> r_ok (reply_clean rc mc c i) (reply_response rc r)"
  unfolding reply_response_def
  by (rule r_ok_object, assumption, unfold response_member_def, intro r_ok_intros)
    (simp_all add: reply_clean_def rewrite_ok_def)

lemma reply_redirect_ok: "reply_clean rc mc c i r \<Longrightarrow> r_ok (reply_clean rc mc c i) (reply_redirect rc r)"
proof -
  assume "reply_clean rc mc c i r"
  then have "r_ok (reply_clean rc mc c i) (r_object (rc_string rc) (redirect_member rc) r)"
    by (rule r_ok_object, unfold redirect_member_def, intro r_ok_intros) (simp_all add: reply_clean_def rewrite_ok_def)
  then show ?thesis
    unfolding reply_redirect_def by (rule r_ok_bind, intro r_ok_ret, simp add: reply_clean_def rewrite_ok_def, blast)
qed

lemma reply_headers_ok: "reply_clean rc mc c i r \<Longrightarrow> r_ok (reply_clean rc mc c i) (reply_headers rc r)"
proof -
  have set_member: "reply_clean rc mc c i r \<Longrightarrow> r_ok (reply_clean rc mc c i) (headers_set_member rc n r)" for n r
    unfolding headers_set_member_def by (intro r_ok_intros) (simp_all add: reply_clean_def rewrite_ok_def header_ok_def)
  have unset: "reply_clean rc mc c i r \<Longrightarrow> r_ok (reply_clean rc mc c i) (headers_unset_element rc r)" for r
    unfolding headers_unset_element_def by (intro r_ok_intros) (simp_all add: reply_clean_def rewrite_ok_def)
  assume "reply_clean rc mc c i r"
  then show ?thesis
    unfolding reply_headers_def headers_member_def
    by (intro r_ok_object r_ok_array set_member unset r_ok_if r_ok_skip)
qed

definition args_loose :: "reply_conf \<Rightarrow> main_conf \<Rightarrow> ctx \<Rightarrow> nat \<Rightarrow> full_reply \<Rightarrow> bool" where
  "args_loose rc mc c i r \<longleftrightarrow>
     reply_clean rc mc c i (r\<lparr>fr_args_set := [], fr_args_unset := []\<rparr>)
     \<and> list_all (arg_ok rc) (fr_args_set r) \<and> list_all (arg_clean True) (fr_args_unset r)"

lemma reply_args_ok: "reply_clean rc mc c i r \<Longrightarrow> r_ok (reply_clean rc mc c i) (reply_args rc (c_phase c) r)"
proof -
  let ?I = "args_loose rc mc c i"
  have set_member: "?I r \<Longrightarrow> r_ok ?I (args_set_member rc n r)" for n r
    unfolding args_set_member_def by (intro r_ok_intros) (simp add: args_loose_def arg_ok_def)
  have unset: "?I r \<Longrightarrow> r_ok ?I (args_unset_element rc r)" for r
    unfolding args_unset_element_def by (intro r_ok_intros) (simp add: args_loose_def)
  assume "reply_clean rc mc c i r"
  then have "?I r" by (simp add: args_loose_def reply_clean_def rewrite_ok_def)
  then have "r_ok ?I (r_object (rc_string rc) (args_member rc) r)"
    unfolding args_member_def by (intro r_ok_object r_ok_array set_member unset r_ok_if r_ok_skip)
  then show ?thesis
    unfolding reply_args_def
    by (rule r_ok_bind, intro r_ok_ret) (auto simp: args_loose_def reply_clean_def rewrite_ok_def)
qed

lemma rewrite_key_nonempty: "rewrite_key_clean live node rid p key \<Longrightarrow> key \<noteq> []"
  by (auto simp: rewrite_key_clean_def extends_live_def split: if_splits option.splits)

lemma hex_bytes_len: "hex_bytes p = Some h \<Longrightarrow> length p = 2 * length h"
  by (induction p arbitrary: h rule: hex_bytes.induct) (auto split: option.splits)

lemma hex_bytes_len32: "hex_bytes p = Some h \<Longrightarrow> length p = 64 \<Longrightarrow> length h = 32"
  using hex_bytes_len by fastforce

definition rewriting :: "reply_conf \<Rightarrow> main_conf \<Rightarrow> ctx \<Rightarrow> nat \<Rightarrow> rewrite_state \<Rightarrow> bool" where
  "rewriting rc mc c i s \<longleftrightarrow>
     (case s of (r, body, has_key, has_size) \<Rightarrow>
        reply_clean rc mc c i (r\<lparr>r_rewrite_body := False\<rparr>) \<and> (has_key \<longrightarrow> r_rewrite_key r \<noteq> [])
        \<and> (has_size \<longrightarrow> body) \<and> (r_rewrite_body r \<longrightarrow> has_size \<or> r_rewrite_key r \<noteq> []))"

lemma rewrite_body_member_ok:
  assumes "rewriting rc mc c i s" "fst (snd s)"
  shows "r_ok (\<lambda>s. rewriting rc mc c i s \<and> fst (snd s)) (rewrite_body_member rc c key s)"
proof -
  obtain r body has_key has_size where s: "s = (r, body, has_key, has_size)" by (cases s) auto
  show ?thesis
    using assms unfolding rewrite_body_member_def s prod.case
    by (intro r_ok_intros)
      (simp_all add: rewriting_def reply_clean_def rewrite_ok_def rewrite_key_nonempty hex_bytes_len32)
qed

lemma reply_rewrite_ok: "reply_clean rc mc c i r \<Longrightarrow> r_ok (reply_clean rc mc c i) (reply_rewrite rc c r)"
proof -
  let ?I = "rewriting rc mc c i"
  have group: "?I s \<Longrightarrow> r_ok ?I (rewrite_groups_element rc s)" for s
    unfolding rewrite_groups_element_def
    by (cases s, simp only: prod.case, intro r_ok_intros) (simp add: rewriting_def reply_clean_def rewrite_ok_def)
  have body: "?I (r, True, has_key, has_size) \<Longrightarrow> r_ok ?I (r_object (rc_string rc) (rewrite_body_member rc c) (r, True, has_key, has_size))"
    for r has_key has_size
    by (rule r_ok_weaken, rule r_ok_object [where I = "\<lambda>s. ?I s \<and> fst (snd s)"])
      (auto intro: rewrite_body_member_ok)
  have member: "r_ok ?I (rewrite_member rc c key s)" if "?I s" for key s
  proof -
    obtain r b k z where s: "s = (r, b, k, z)" by (cases s) auto
    have "?I (r, True, k, z)" using that s by (auto simp: rewriting_def)
    moreover have "?I (r\<lparr>fr_rewrite_content_type := v\<rparr>, b, k, z)" for v
      using that s by (auto simp: rewriting_def reply_clean_def rewrite_ok_def)
    ultimately show ?thesis
      using that unfolding rewrite_member_def s prod.case
      by (intro r_ok_if body r_ok_array group r_ok_string_bind r_ok_check r_ok_ret r_ok_skip)
  qed
  assume "reply_clean rc mc c i r"
  then have "?I (r, False, False, False)" by (auto simp: rewriting_def reply_clean_def rewrite_ok_def)
  then have "r_ok ?I (r_object (rc_string rc) (rewrite_member rc c) (r, False, False, False))"
    by (rule r_ok_object) (rule member)
  then show ?thesis
    unfolding reply_rewrite_def
  proof (rule r_ok_bind)
    fix s assume "?I s"
    then show "r_ok (reply_clean rc mc c i)
        ((\<lambda>(r, body, has_key, has_size). r_check (\<not> (body \<and> \<not> (has_key \<and> has_size))) [] (r_ret (r\<lparr>r_rewrite_has := True\<rparr>))) s)"
      by (cases s rule: prod_cases4, simp only: prod.case, intro r_ok_check r_ok_ret)
        (auto simp: rewriting_def reply_clean_def rewrite_ok_def)
  qed
qed

lemma reply_cookies_ok: "reply_clean rc mc c i r \<Longrightarrow> r_ok (reply_clean rc mc c i) (reply_cookies rc r)"
proof -
  let ?C = "\<lambda>ck. cookie_ok (ck\<lparr>ck_name := if ck_name ck = [] then [0x61] else ck_name ck\<rparr>)"
  have member: "?C ck \<Longrightarrow> r_ok ?C (cookie_member rc key ck)" for key ck
    unfolding cookie_member_def Let_def by (intro r_ok_intros) (auto simp: cookie_ok_def token_clean_def split: if_splits)
  have cookie: "r_ok ?C (r_object (rc_string rc) (cookie_member rc) cookie0)"
    by (rule r_ok_object)
      (use member in \<open>auto simp: cookie0_def cookie_ok_def token_clean_def cookie_value_clean_def cookie_path_clean_def is_lower_def\<close>)
  assume "reply_clean rc mc c i r"
  then show ?thesis
    unfolding reply_cookies_def
  proof (rule r_ok_array)
    fix r assume "reply_clean rc mc c i r"
    then show "r_ok (reply_clean rc mc c i) (cookies_element rc r)"
      unfolding cookies_element_def
      by (intro r_ok_bind [OF cookie] r_ok_intros) (auto simp: reply_clean_def rewrite_ok_def)
  qed
qed

lemma groups_ok:
  "text_clean (Some SESSION_GROUPS_MAX) buf \<Longrightarrow> r_ok (text_clean (Some SESSION_GROUPS_MAX)) (groups_element rc buf)"
  unfolding groups_element_def by (intro r_ok_intros) (auto simp: text_clean_def)

lemma reply_sessions_ok: "reply_clean rc mc c i r \<Longrightarrow> r_ok (reply_clean rc mc c i) (reply_sessions rc r)"
proof -
  have groups: "r_ok (text_clean (Some SESSION_GROUPS_MAX)) (r_push al []) "
      "text_clean (Some SESSION_GROUPS_MAX) buf \<Longrightarrow> r_ok (text_clean (Some SESSION_GROUPS_MAX)) (elements (groups_element rc) buf)" for buf al
    by (auto intro!: r_ok_push r_ok_elements groups_ok simp: text_clean_def)
  have member: "session_ok s \<Longrightarrow> r_ok session_ok (session_member rc key s)" for key s
    unfolding session_member_def Let_def
    by (intro r_ok_intros r_ok_bind_any [OF r_ok_open(2)] r_ok_bind [OF groups(1)] r_ok_bind [OF groups(2)])
      (simp_all add: session_ok_def)
  have "session_ok session0" by (simp add: session0_def session_ok_def text_clean_def)
  then have session: "r_ok session_ok (r_object (rc_string rc) (session_member rc) session0)"
    by (rule r_ok_object) (rule member)
  assume "reply_clean rc mc c i r"
  then show ?thesis
    unfolding reply_sessions_def
  proof (rule r_ok_array)
    fix r assume "reply_clean rc mc c i r"
    then show "r_ok (reply_clean rc mc c i) (sessions_element rc r)"
      unfolding sessions_element_def
      by (intro r_ok_check r_ok_bind [OF session] r_ok_intros) (auto simp: reply_clean_def rewrite_ok_def)
  qed
qed

subsection \<open>Actions\<close>

definition draft_ok :: "nat \<Rightarrow> draft \<Rightarrow> bool" where
  "draft_ok index d \<longleftrightarrow>
     (let a = dr_action d in
      a_from a = index \<and> a_to a = ACTION_ALL \<and> - DELTA_MAX \<le> a_delta a \<and> a_delta a \<le> DELTA_MAX
      \<and> (a_code a = [] \<or> code_clean (a_code a)) \<and> (a_group a = [] \<or> counter_clean (a_group a))
      \<and> (a_marker a = [] \<or> marker_clean (a_marker a)))"

lemma draft_ok_upd:
  "draft_ok index d \<Longrightarrow> draft_ok index (d\<lparr>dr_to := x\<rparr>)"
  "draft_ok index d \<Longrightarrow> draft_ok index (d\<lparr>dr_verb_set := b\<rparr>)"
  "draft_ok index d \<Longrightarrow> draft_ok index (d\<lparr>dr_apply_set := b\<rparr>)"
  "draft_ok index d \<Longrightarrow> draft_ok index (d\<lparr>dr_has_delta := b\<rparr>)"
  "draft_ok index d \<Longrightarrow> draft_ok index (d\<lparr>dr_has_value := b\<rparr>)"
  "draft_ok index d \<Longrightarrow> draft_ok index (upd_act (a_verb_update f1) d)"
  "draft_ok index d \<Longrightarrow> draft_ok index (upd_act (a_apply_update f2) d)"
  "draft_ok index d \<Longrightarrow> draft_ok index (upd_act (a_to_phases_update f3) d)"
  "draft_ok index d \<Longrightarrow> draft_ok index (upd_act (a_value_update f4) d)"
  "draft_ok index d \<Longrightarrow> draft_ok index (upd_act (a_counter_update f5) d)"
  "draft_ok index d \<Longrightarrow> draft_ok index (upd_act (a_set_update f6) d)"
  "draft_ok index d \<Longrightarrow> draft_ok index (upd_act (a_spec_update f7) d)"
  "draft_ok index d \<Longrightarrow> code_clean v \<Longrightarrow> draft_ok index (upd_act (a_code_update (\<lambda>_. v)) d)"
  "draft_ok index d \<Longrightarrow> counter_clean v \<Longrightarrow> draft_ok index (upd_act (a_group_update (\<lambda>_. v)) d)"
  "draft_ok index d \<Longrightarrow> marker_clean v \<Longrightarrow> draft_ok index (upd_act (a_marker_update (\<lambda>_. v)) d)"
  "draft_ok index d \<Longrightarrow> \<not> (n < - DELTA_MAX \<or> n > DELTA_MAX) \<Longrightarrow> draft_ok index (upd_act (a_delta_update (\<lambda>_. n)) d)"
  by (simp_all add: draft_ok_def upd_act_def Let_def)

lemma draft_ok_draft0: "draft_ok index (draft0 index)"
  by (simp add: draft_ok_def draft0_def action0_def)

lemma reply_object_spec_ok: "r_ok (\<lambda>_. True) (reply_object_spec rc obj spec)"
  unfolding reply_object_spec_def spec_member_def
  by (intro r_ok_bind_any [OF r_ok_open(1)] r_ok_members r_ok_intros TrueI)

lemma when_ok: "r_ok (\<lambda>_. True) (r_array (when_element rc) w)"
  unfolding when_element_def by (intro r_ok_array r_ok_intros TrueI)

lemma action_member_ok: "draft_ok index d \<Longrightarrow> r_ok (draft_ok index) (action_member rc key d)"
  unfolding action_member_def Let_def
  by (intro r_ok_intros r_ok_bind_any [OF when_ok] r_ok_bind_any [OF reply_object_spec_ok] draft_ok_upd)

lemma inspector_find_less: "inspector_find mc name = Some k \<Longrightarrow> k < length (mc_inspectors mc)"
  by (auto simp: inspector_find_def find_Some_iff nth_enumerate_eq)

text \<open>An action without error, and what becomes of its addressee.\<close>

lemma action_ok_draft:
  assumes d: "draft_ok index d" "action_error phase d = None"
    and a: "dr_to d = [] \<and> a = dr_action d
            \<or> dr_to d \<noteq> [] \<and> (\<exists>k < length (mc_inspectors mc). a = (dr_action d)\<lparr>a_to := k\<rparr>)"
  shows "action_ok mc phase index a"
proof -
  have e: "verb_error d = None" "control_error phase d = None" "apply_allowed (a_verb (dr_action d)) (a_apply (dr_action d))"
    using d(2) by (auto simp: action_error_def Let_def split: if_splits option.splits)
  then have v: "a_verb (dr_action d) = DO_MUTATE \<longrightarrow> a_group (dr_action d) \<noteq> [] \<and> a_set (dr_action d) \<noteq> SET_NONE"
      "do_audit (a_verb (dr_action d)) \<longrightarrow> a_set (dr_action d) \<noteq> SET_NONE \<and> dr_to d = []"
      "do_mark (a_verb (dr_action d)) \<longrightarrow> a_marker (dr_action d) \<noteq> [] \<and> dr_to d = []"
      "do_score (a_verb (dr_action d)) \<longrightarrow> a_value (dr_action d) \<noteq> 0 \<and> \<bar>a_value (dr_action d)\<bar> \<le> POINTS_MAX \<and> dr_to d = []"
    by (auto simp: verb_error_def Let_def do_audit_def do_mark_def do_score_def split: if_splits)
  have c: "do_control (a_verb (dr_action d)) \<longrightarrow> dr_to d \<noteq> [] \<and> (a_apply (dr_action d) = APPLY_CONN \<longrightarrow> phase_is_frame phase)"
    using e(2) by (auto simp: control_error_def Let_def split: if_splits)
  have g: "a_group (dr_action d) \<noteq> [] \<Longrightarrow> counter_clean (a_group (dr_action d))"
      "a_marker (dr_action d) \<noteq> [] \<Longrightarrow> marker_clean (a_marker (dr_action d))"
    using d(1) by (auto simp: draft_ok_def Let_def)
  show ?thesis
  proof (cases "dr_to d = []")
    case True
    then have "a = dr_action d" using a by simp
    then show ?thesis using d(1) e(3) v c g True by (simp add: action_ok_def draft_ok_def Let_def)
  next
    case False
    then obtain k where "a = (dr_action d)\<lparr>a_to := k\<rparr>" "k < length (mc_inspectors mc)" using a by auto
    then show ?thesis using d(1) e(3) v c g False by (simp add: action_ok_def draft_ok_def Let_def)
  qed
qed

lemma action_end_ok:
  assumes "reply_clean rc mc c i r" "draft_ok i d"
  shows "r_ok (reply_clean rc mc c i) (action_end rc mc (c_phase c) r used d)"
proof -
  have push: "action_ok mc (c_phase c) i a \<Longrightarrow> r_ok (reply_clean rc mc c i) (r_push al (r\<lparr>r_actions := r_actions r @ [a]\<rparr>))" for a al
    using assms(1) by (intro r_ok_push) (simp add: reply_clean_def rewrite_ok_def)
  have "dr_to d = [] \<Longrightarrow> action_error (c_phase c) d = None \<Longrightarrow> action_ok mc (c_phase c) i (dr_action d)"
    using action_ok_draft [OF assms(2)] by simp
  moreover have "dr_to d \<noteq> [] \<Longrightarrow> action_error (c_phase c) d = None \<Longrightarrow> inspector_find mc (dr_to d) = Some k
      \<Longrightarrow> action_ok mc (c_phase c) i ((dr_action d)\<lparr>a_to := k\<rparr>)" for k
    using action_ok_draft [OF assms(2)] inspector_find_less by blast
  ultimately show ?thesis
    using assms(1) unfolding action_end_def Let_def by (intro r_ok_option r_ok_if r_ok_fail r_ok_ret push)
qed

lemma r_ok_diag: "(\<And>n. r_ok P (f n)) \<Longrightarrow> r_ok P (\<lambda>k. f k k)"
  by (simp add: r_ok_def)

lemma action_element_ok:
  assumes "reply_clean rc mc c i r"
  shows "r_ok (reply_clean rc mc c i) (action_element rc mc (c_phase c) i r)"
proof -
  have "r_ok (draft_ok i) (r_object (rc_string rc) (action_member rc) (draft0 i))"
    by (intro r_ok_object draft_ok_draft0 action_member_ok)
  then have "r_ok (reply_clean rc mc c i) (r_bind (r_object (rc_string rc) (action_member rc) (draft0 i))
      (\<lambda>d k. action_end rc mc (c_phase c) r (length (jp_pos n) - length (jp_pos k)) d k))" for n
    by (rule r_ok_bind)
      (rule r_ok_diag [where f = "\<lambda>k. action_end rc mc (c_phase c) r (length (jp_pos n) - length (jp_pos k)) d" for d],
        rule action_end_ok [OF assms])
  from r_ok_diag [OF this] show ?thesis unfolding action_element_def [abs_def] .
qed

lemma reply_actions_ok:
  "reply_clean rc mc c i r \<Longrightarrow> r_ok (reply_clean rc mc c i) (reply_actions rc mc lc (c_phase c) i r)"
  unfolding reply_actions_def by (intro r_ok_if r_ok_skip r_ok_array action_element_ok)

subsection \<open>The whole reply\<close>

lemma reply_continue_ok: "r_ok (\<lambda>_. True) (reply_continue rc s)"
  unfolding reply_continue_def continue_member_def by (intro r_ok_object r_ok_intros TrueI)

lemma r_section_ok:
  assumes "\<And>r. reply_clean rc mc c i r \<Longrightarrow> r_ok (reply_clean rc mc c i) (f r)" "reply_clean rc mc c i (ms_reply m)"
  shows "r_ok (\<lambda>m. reply_clean rc mc c i (ms_reply m)) (r_section msg f m)"
  unfolding r_section_def by (intro r_ok_bind [OF r_ok_or_own [OF assms(1)]] r_ok_ret) (simp_all add: assms(2))

lemma msg_member_ok:
  assumes "reply_clean rc mc c i (ms_reply m)"
  shows "r_ok (\<lambda>m. reply_clean rc mc c i (ms_reply m)) (msg_member rc mc lc c i key m)"
  using assms unfolding msg_member_def Let_def
  by (intro r_ok_if r_section_ok reply_reason_ok reply_response_ok reply_redirect_ok reply_headers_ok reply_args_ok
      reply_rewrite_ok reply_cookies_ok reply_sessions_ok reply_actions_ok r_ok_intros r_ok_or
      r_ok_bind_any [OF r_ok_or [OF r_ok_string]] r_ok_bind_any [OF r_ok_or [OF r_ok_int]]
      r_ok_bind_any [OF r_ok_or [OF r_ok_bool]] r_ok_bind_any [OF r_ok_or [OF reply_continue_ok]])
    (simp_all add: reply_clean_def rewrite_ok_def)

lemma msg_read_ok: "r_ok (\<lambda>m. reply_clean rc mc c i (ms_reply m)) (msg_read rc mc lc c i)"
proof -
  have "reply_clean rc mc c i (ms_reply msg_state0)"
    by (simp add: msg_state0_def full_reply0_def reply_clean_def rewrite_ok_def reply.defs reply0_def text_clean_def)
  then have "r_ok (\<lambda>m. reply_clean rc mc c i (ms_reply m)) (members (rc_string rc) (msg_member rc mc lc c i) msg_state0)"
    by (rule r_ok_members [rotated]) (rule msg_member_ok)
  note members = r_ok_or_own [OF this]
  show ?thesis
    unfolding msg_read_def
    by (intro r_ok_bind_any [OF r_ok_or [OF r_ok_open(1)]] r_ok_bind [OF members] r_ok_bind_any [OF r_ok_or [OF r_ok_end]] r_ok_ret)
qed

end
