(* ===== verification/Reply_Props.thy ===== *)
theory Reply_Props
  imports Reply_Safe Verdict_Props Handler_Laws
begin

text \<open>
  The properties of the decoder of answers: it returns on every text, what it hands on is well formed,
  and nothing in it can break out of a header, a cookie, an address or the subject of its inspector.
\<close>

subsection \<open>What follows the members\<close>

lemma reply_error_clean: "reply_clean rc mc c i r \<Longrightarrow> reply_clean rc mc c i (reply_error r)"
  by (simp add: reply_clean_def reply_error_def rewrite_ok_def list_all_iff)

lemma clean_verdict:
  "reply_clean rc mc c i r \<Longrightarrow> reply_clean rc mc c i (r\<lparr>r_verdict := v\<rparr>)"
  "reply_clean rc mc c i r \<Longrightarrow> reply_clean rc mc c i (r\<lparr>r_score := 0\<rparr>)"
  "reply_clean rc mc c i r \<Longrightarrow> reply_clean rc mc c i (r\<lparr>fr_status := 0, r_redirect_url := []\<rparr>)"
  by (simp_all add: reply_clean_def rewrite_ok_def)

text \<open>What the end of the decoder adds to the sections: the score and the address are those of the verdict.\<close>

definition settled :: "reply_conf \<Rightarrow> ctx \<Rightarrow> full_reply \<Rightarrow> bool" where
  "settled rc c r \<longleftrightarrow>
     0 \<le> r_score r \<and> (r_verdict r \<noteq> V_SCORE \<longrightarrow> r_score r = 0)
     \<and> (if r_verdict r = V_REDIRECT
        then c_phase c = PH_REQUEST \<and> url_clean (rc_header_value_max rc) (r_redirect_url r)
             \<and> redirect_allowed (rc_redirect_allow rc) (r_redirect_url r)
        else r_redirect_url r = [] \<and> fr_status r = 0)
     \<and> (r_verdict r = V_ERROR \<longrightarrow> fr_reason_code r \<noteq> [] \<and> reply_error r = r)"

lemma reply_error_idem: "reply_error (reply_error r) = reply_error r"
  by (simp add: reply_error_def)

lemma reply_error_settled: "r_verdict r = V_ERROR \<Longrightarrow> fr_reason_code r \<noteq> [] \<Longrightarrow> settled rc c (reply_error r)"
  using reply_error_idem [of r] by (simp add: settled_def) (simp add: reply_error_def)

lemma msg_finish_settled:
  assumes "reply_clean rc mc c i (ms_reply m)" "msg_finish rc mc i m c = (Inr r, c')"
  shows "reply_clean rc mc c i r \<and> settled rc c r"
proof -
  obtain v0 where v0: "ms_verdict m = Some v0"
    using assms(2) by (auto simp: msg_finish_def split: if_splits option.splits)
  define v where "v = (if v0 = V_REDIRECT \<and> c_phase c \<noteq> PH_REQUEST then V_ALLOW else v0)"
  define r1 where "r1 = (ms_reply m)\<lparr>r_verdict := v\<rparr>"
  have r1: "reply_clean rc mc c i r1" "r_verdict r1 = v" using assms(1) by (simp_all add: r1_def clean_verdict)
  note fin = assms(2) [unfolded msg_finish_def v0 option.case Let_def v_def [symmetric] r1_def [symmetric]]
  show ?thesis
  proof (cases "v = V_ERROR")
    case True
    then have "r = reply_error r1" "fr_reason_code r1 \<noteq> []" using fin by (auto split: if_splits)
    then show ?thesis using r1 True reply_error_clean reply_error_settled by simp
  next
    case False
    define r2 where "r2 = (if v = V_SCORE then r1 else r1\<lparr>r_score := 0\<rparr>)"
    have r2: "reply_clean rc mc c i r2" "r_verdict r2 = v" "r_redirect_url r2 = r_redirect_url r1"
      using r1 clean_verdict(2) by (simp_all add: r2_def)
    have score: "0 \<le> r_score r2 \<and> (v \<noteq> V_SCORE \<longrightarrow> r_score r2 = 0)"
      using fin False by (auto simp: r2_def split: if_splits)
    have r: "r = (if v = V_REDIRECT then r2 else r2\<lparr>fr_status := 0, r_redirect_url := []\<rparr>)"
      using fin False unfolding r2_def [symmetric] by (auto split: if_splits prod.splits rc.splits)
    show ?thesis
    proof (cases "v = V_REDIRECT")
      case redirect: True
      then have "c_phase c = PH_REQUEST" by (auto simp: v_def split: if_splits)
      moreover have "url_clean (rc_header_value_max rc) (r_redirect_url r1) \<and> redirect_allowed (rc_redirect_allow rc) (r_redirect_url r1)"
        using fin redirect unfolding r2_def [symmetric] r2(3) by (auto split: if_splits)
      ultimately show ?thesis using r r2 score redirect by (simp add: settled_def)
    next
      case other: False
      then have "r = r2\<lparr>fr_status := 0, r_redirect_url := []\<rparr>" using r by simp
      then show ?thesis using r2 clean_verdict(3) score False other by (simp add: settled_def)
    qed
  qed
qed

lemma msg_reply_total: "\<exists>x. msg_reply rc mc lc c i payload = Some x"
  using r_ok_total [OF msg_read_ok [of rc mc c i lc], of "jp_init payload"] by (auto simp: msg_reply_def)

lemma msg_reply_read:
  assumes "msg_reply rc mc lc c i payload = Some (Inr r, c')"
  obtains m where "reply_clean rc mc c i (ms_reply m)" "msg_finish rc mc i m c = (Inr r, c')" "i < length (mc_inspectors mc)"
proof -
  obtain x where x: "msg_read rc mc lc c i (jp_init payload) = Some x"
      "(case x of Inl e \<Rightarrow> (Inl e, c) | Inr (m, _) \<Rightarrow> msg_finish rc mc i m c) = (Inr r, c')"
    and i: "i < length (mc_inspectors mc)"
    using assms by (auto simp: msg_reply_def split: if_splits)
  then obtain m k where m: "msg_read rc mc lc c i (jp_init payload) = Some (Inr (m, k))" "msg_finish rc mc i m c = (Inr r, c')"
    by (cases x) auto
  show thesis using that [OF r_ok_result [OF msg_read_ok m(1)] m(2) i] .
qed

lemma decoded:
  assumes "msg_reply rc mc lc c i payload = Some (Inr r, c')"
  shows "reply_clean rc mc c i r" "settled rc c r"
  using msg_finish_settled msg_reply_read [OF assms] by metis+


subsection \<open>Characters\<close>

lemma lower_zero: "lower b = 0 \<longleftrightarrow> b = 0"
  by (auto simp: lower_def is_upper_def or_eq_0_iff)

lemma same_nocase_take:
  "n \<le> length xs \<Longrightarrow> n \<le> length ys \<Longrightarrow> 0 \<notin> set ys \<Longrightarrow> same_nocase n xs ys \<longleftrightarrow> map lower (take n xs) = map lower (take n ys)"
proof (induction n xs ys rule: same_nocase.induct)
  case (2 n a xs b ys)
  then show ?case using lower_zero [of b] by auto
qed auto

lemmas same_nocase_iff = same_nocase_take [where n = "length ys" and ys = ys for ys, simplified]

lemma forbidden_lower: "h \<in> set forbidden_headers \<Longrightarrow> map lower h = h"
  by (auto simp: forbidden_headers_def ascii_def lower_def is_upper_def)

lemma token_nonempty: "token_clean s \<Longrightarrow> s \<noteq> []"
  by (simp add: token_clean_def)

lemma token_bytes: "token_clean s \<Longrightarrow> b \<in> set s \<Longrightarrow> 0x20 < b \<and> b < 0x7f \<and> b \<notin> {0x3a, 0x3b, 0x3d, 0x2c}"
  by (auto simp: token_clean_def list_all_iff is_lower_def is_upper_def is_num_def word_less_nat_alt word_le_nat_alt)

lemma forbidden_iff: "token_clean n \<Longrightarrow> header_forbidden n \<longleftrightarrow> map lower n \<in> set forbidden_headers"
proof -
  assume "token_clean n"
  then have z: "0 \<notin> set n" using token_bytes [of n 0] by auto
  have "length h = length n \<and> same_nocase (length n) h n \<longleftrightarrow> h = map lower n" if "h \<in> set forbidden_headers" for h
    using same_nocase_iff [of n h] z forbidden_lower [OF that] by (metis length_map order_refl take_all)
  then show ?thesis by (auto simp: header_forbidden_def list_ex_iff)
qed

lemma cookie_value_bytes:
  "cookie_value_clean s \<Longrightarrow> b \<in> set s \<Longrightarrow> 0x20 < b \<and> b < 0x7f \<and> b \<notin> {0x2c, 0x3b, 0x5c}"
proof -
  assume s: "cookie_value_clean s" and b: "b \<in> set s"
  show ?thesis
  proof (cases "length s \<ge> 2 \<and> hd s = 0x22 \<and> last s = 0x22")
    case True
    then obtain x t where xt: "s = x # t" "t \<noteq> []" by (cases s; cases "tl s") auto
    have "set (butlast t) \<union> set [last t] = set t" by (metis append_butlast_last_id set_append xt(2))
    then have "set (butlast t) \<union> {0x22} = set t" using True xt by simp
    then have "set s = {0x22} \<union> set (butlast (tl s))" using True xt by auto
    then consider "b = 0x22" | "b \<in> set (butlast (tl s))" using b by blast
    then show ?thesis
    proof cases
      case 2
      then show ?thesis using s True by (simp add: cookie_value_clean_def list_all_iff not_le)
    qed simp
  next
    case False
    show ?thesis
      using s b unfolding cookie_value_clean_def Let_def if_not_P [OF False] by (simp add: list_all_iff not_le)
  qed
qed

lemma arg_bytes:
  "arg_clean n s \<Longrightarrow> b \<in> set s \<Longrightarrow> 0x20 < b \<and> b \<notin> {0x7f, 0x26, 0x23}"
  "arg_clean True s \<Longrightarrow> s \<noteq> [] \<and> 0x3d \<notin> set s"
  by (auto simp: arg_clean_def list_all_iff not_le)

subsection \<open>Properties\<close>

text \<open>
  C34: Decoding ends on every text: whatever bytes an inspector sends, whatever the allocator answers, the
  decoder accepts or refuses the answer. Every round of its nested loops over members and elements
  moves the parser on.
\<close>

theorem decoder_returns: "\<exists>result. msg_reply rc mc lc c index payload = Some result"
  by (rule msg_reply_total)


text \<open>
  C36: Nothing an inspector sends breaks out of its place. A header it sets has a name of printable
  characters without a colon, a value without CR, LF and NUL within the configured length, and is not
  one of the forbidden headers in any spelling, and the same names cannot be removed; the name, value
  and path of a cookie hold no separator and no control character; the names and values of arguments
  hold no blank, no control character and neither \<open>&\<close> nor \<open>#\<close>, and a name no \<open>=\<close>.
\<close>

theorem decoded_no_injection:
  assumes "msg_reply rc mc lc c index payload = Some (Inr r, c')"
  shows "(\<forall>(name, value)\<in>set (fr_headers_set r). name \<noteq> [] \<and> (\<forall>b\<in>set name. 0x20 < b \<and> b < 0x7f \<and> b \<noteq> 0x3a)
            \<and> set value \<inter> {0x0d, 0x0a, 0} = {} \<and> length value \<le> rc_header_value_max rc
            \<and> map lower name \<notin> set forbidden_headers)
     \<and> (\<forall>name\<in>set (fr_headers_unset r). map lower name \<notin> set forbidden_headers)
     \<and> (\<forall>ck\<in>set (fr_cookies r). ck_name ck \<noteq> [] \<and> (\<forall>b\<in>set (ck_name ck). 0x20 < b \<and> b < 0x7f \<and> b \<notin> {0x3b, 0x3d, 0x2c})
            \<and> (\<forall>b\<in>set (ck_value ck). 0x20 < b \<and> b < 0x7f \<and> b \<notin> {0x2c, 0x3b, 0x5c})
            \<and> (\<forall>b\<in>set (ck_path ck). 0x20 \<le> b \<and> b < 0x7f \<and> b \<noteq> 0x3b))
     \<and> (\<forall>(name, value)\<in>set (fr_args_set r). name \<noteq> [] \<and> 0x3d \<notin> set name
            \<and> (\<forall>b\<in>set name \<union> set value. 0x20 < b \<and> b \<notin> {0x7f, 0x26, 0x23}))"
proof (intro conjI ballI)
  note clean = decoded(1) [OF assms, unfolded reply_clean_def list_all_iff]
  show "case h of (name, value) \<Rightarrow> name \<noteq> [] \<and> (\<forall>b\<in>set name. 0x20 < b \<and> b < 0x7f \<and> b \<noteq> 0x3a)
            \<and> set value \<inter> {0x0d, 0x0a, 0} = {} \<and> length value \<le> rc_header_value_max rc
            \<and> map lower name \<notin> set forbidden_headers" if "h \<in> set (fr_headers_set r)" for h
  proof -
    have h: "header_ok rc h" using clean that by blast
    then show ?thesis
      using token_bytes [of "fst h"] forbidden_iff [of "fst h"] token_nonempty [of "fst h"]
      by (cases h) (auto simp: header_ok_def value_clean_def list_all_iff)
  qed
  show "map lower name \<notin> set forbidden_headers" if "name \<in> set (fr_headers_unset r)" for name
    using clean that forbidden_iff [of name] by blast
next
  note clean = decoded(1) [OF assms, unfolded reply_clean_def list_all_iff]
  fix ck assume "ck \<in> set (fr_cookies r)"
  then have ck: "cookie_ok ck" using clean by blast
  then show "ck_name ck \<noteq> []" by (simp add: cookie_ok_def token_clean_def)
  show "0x20 < b" "b < 0x7f" "b \<notin> {0x3b, 0x3d, 0x2c}" if "b \<in> set (ck_name ck)" for b
    using token_bytes [OF _ that] ck by (auto simp: cookie_ok_def)
  show "0x20 < b" "b < 0x7f" "b \<notin> {0x2c, 0x3b, 0x5c}" if "b \<in> set (ck_value ck)" for b
    using cookie_value_bytes [OF _ that] ck by (auto simp: cookie_ok_def)
  show "0x20 \<le> b" "b < 0x7f" "b \<noteq> 0x3b" if "b \<in> set (ck_path ck)" for b
    using ck that by (auto simp: cookie_ok_def cookie_path_clean_def list_all_iff)
next
  note clean = decoded(1) [OF assms, unfolded reply_clean_def list_all_iff]
  fix a assume "a \<in> set (fr_args_set r)"
  then have "arg_ok rc a" using clean by blast
  then have "arg_clean True (fst a)" "arg_clean False (snd a)" by (simp_all add: arg_ok_def)
  then show "case a of (name, value) \<Rightarrow> name \<noteq> [] \<and> 0x3d \<notin> set name
      \<and> (\<forall>b\<in>set name \<union> set value. 0x20 < b \<and> b \<notin> {0x7f, 0x26, 0x23})"
    using arg_bytes(1) [of True "fst a"] arg_bytes(1) [of False "snd a"] arg_bytes(2) [of "fst a"] by (cases a) auto
qed


subsection \<open>Redirects\<close>

text \<open>
  What a pattern of \<open>waf_redirect_allow\<close> permits, said of the address itself. A pattern without a scheme
  permits paths of the same site; one with a scheme permits the addresses whose authority, up to the
  first slash, question mark or hash, has no \<open>@\<close>, has the host of the pattern, or with a wildcard a
  name below it, and the port of the pattern. In both cases the path lies under the path of the pattern.
\<close>

definition under_path :: "bytes \<Rightarrow> bytes \<Rightarrow> bool" where
  "under_path s p \<longleftrightarrow> p = [] \<or> (\<exists>t. s = p @ t \<and> (t = [] \<or> last p = 0x2f \<or> hd t \<in> {0x2f, 0x3f, 0x23}))"

definition under_host :: "redirect_allow \<Rightarrow> bytes \<Rightarrow> bool" where
  "under_host a host \<longleftrightarrow>
     (if ra_wildcard a then \<exists>sub. sub \<noteq> [] \<and> map lower host = sub @ 0x2e # map lower (ra_host a)
      else map lower host = map lower (ra_host a))"

definition at_port :: "redirect_allow \<Rightarrow> bytes \<Rightarrow> bool" where
  "at_port a auth \<longleftrightarrow>
     (if 0x3a \<in> set auth then atoi (tl (dropWhile (\<lambda>b. b \<noteq> 0x3a) auth)) = Some (ra_port a)
      else ra_port a = (if ra_scheme a = ascii ''http'' then 80 else 443))"

definition permits :: "redirect_allow \<Rightarrow> bytes \<Rightarrow> bool" where
  "permits a url \<longleftrightarrow>
     (if ra_scheme a = [] then (\<exists>p. url = 0x2f # p \<and> (p = [] \<or> hd p \<noteq> 0x2f)) \<and> under_path url (ra_path a)
      else \<exists>pre auth rest. url = pre @ auth @ rest \<and> map lower pre = ra_scheme a @ ascii ''://''
             \<and> (\<forall>b\<in>set auth. b \<notin> {0x2f, 0x3f, 0x23, 0x40}) \<and> (rest = [] \<or> hd rest \<in> {0x2f, 0x3f, 0x23})
             \<and> under_host a (takeWhile (\<lambda>b. b \<noteq> 0x3a) auth) \<and> at_port a auth
             \<and> under_path (if rest = [] then [0x2f] else rest) (ra_path a))"

lemma prefix_bounded_under: "prefix_bounded s p \<Longrightarrow> under_path s p"
proof (cases "p = []")
  case False
  assume b: "prefix_bounded s p"
  then have "take (length p) s = p" using False by (auto simp: prefix_bounded_def split: if_splits)
  then obtain t where t: "s = p @ t" by (metis append_take_drop_id)
  then show ?thesis
    using b False by (cases t) (auto simp: prefix_bounded_def under_path_def Let_def split: if_splits)
qed (simp add: under_path_def)

lemma host_matches_under: "host_matches a host \<Longrightarrow> 0 \<notin> set host \<Longrightarrow> under_host a host"
proof (cases "ra_wildcard a")
  case False
  assume "host_matches a host" "0 \<notin> set host"
  then show ?thesis using False same_nocase_iff [of host "ra_host a"] by (simp add: host_matches_def under_host_def)
next
  case True
  assume h: "host_matches a host" and z: "0 \<notin> set host"
  define n where "n = length host - length (ra_host a)"
  have n: "1 < n" "n \<le> length host" "host ! (n - 1) = 0x2e" "same_nocase (length (ra_host a)) (ra_host a) (drop n host)"
    using h True by (auto simp: host_matches_def n_def Let_def)
  have "0 \<notin> set (drop n host)" using z in_set_dropD by fast
  then have tail: "map lower (drop n host) = map lower (ra_host a)"
    using n same_nocase_iff [of "drop n host" "ra_host a"] by (simp add: n_def)
  have "host = take (n - 1) host @ host ! (n - 1) # drop n host"
    using n(1,2) id_take_nth_drop [of "n - 1" host] by simp
  then have "map lower host = map lower (take (n - 1) host @ host ! (n - 1) # drop n host)" by (rule arg_cong)
  then have "map lower host = map lower (take (n - 1) host) @ lower 0x2e # map lower (ra_host a)"
    by (simp only: map_append list.map n(3) tail)
  moreover have "map lower (take (n - 1) host) \<noteq> []" using n(1,2) by auto
  moreover have "lower 0x2e = 0x2e" by (simp add: lower_def is_upper_def)
  ultimately have "\<exists>sub. sub \<noteq> [] \<and> map lower host = sub @ 0x2e # map lower (ra_host a)" by metis
  then show ?thesis using True by (simp add: under_host_def)
qed

lemma url_authority_shape:
  assumes "url_authority scheme port p = Some u"
  shows "\<exists>auth rest. p = auth @ rest \<and> (\<forall>b\<in>set auth. b \<notin> {0x2f, 0x3f, 0x23, 0x40})
    \<and> (rest = [] \<or> hd rest \<in> {0x2f, 0x3f, 0x23}) \<and> u_scheme u = scheme \<and> u_host u = takeWhile (\<lambda>b. b \<noteq> 0x3a) auth
    \<and> (if 0x3a \<in> set auth then atoi (tl (dropWhile (\<lambda>b. b \<noteq> 0x3a) auth)) = Some (u_port u) else u_port u = port)
    \<and> u_path u = (if rest = [] then [0x2f] else rest)"
proof (intro exI conjI)
  let ?auth = "takeWhile in_authority p" and ?rest = "dropWhile in_authority p"
  show "p = ?auth @ ?rest" by simp
  show "\<forall>b\<in>set ?auth. b \<notin> {0x2f, 0x3f, 0x23, 0x40}"
    using assms by (auto simp: url_authority_def in_authority_def Let_def dest: set_takeWhileD split: if_splits)
  show "?rest = [] \<or> hd ?rest \<in> {0x2f, 0x3f, 0x23}"
    using hd_dropWhile [of in_authority p] by (auto simp: in_authority_def)
  have colon: "dropWhile (\<lambda>b. b \<noteq> 0x3a) xs = [] \<longleftrightarrow> 0x3a \<notin> set xs" for xs :: bytes by (auto simp: dropWhile_eq_Nil_conv)
  show "u_scheme u = scheme" "u_path u = (if ?rest = [] then [0x2f] else ?rest)"
    using assms by (auto simp: url_authority_def Let_def split: if_splits option.splits)
  have all: "0x3a \<notin> set xs \<Longrightarrow> xs = takeWhile (\<lambda>b. b \<noteq> 0x3a) xs" for xs :: bytes
    by (induction xs) auto
  show "u_host u = takeWhile (\<lambda>b. b \<noteq> 0x3a) ?auth"
    using assms colon [of ?auth] by (auto simp: url_authority_def Let_def intro!: all split: if_splits option.splits)
  show "if 0x3a \<in> set ?auth then atoi (tl (dropWhile (\<lambda>b. b \<noteq> 0x3a) ?auth)) = Some (u_port u) else u_port u = port"
    using assms colon [of ?auth] by (auto simp: url_authority_def Let_def split: if_splits option.splits)
qed

lemma scheme_prefix:
  assumes "same_nocase n url (ascii s)" "n < length url" "n = length s" "0 \<notin> set (ascii s)"
  shows "map lower (take n url) = map lower (ascii s)"
  using same_nocase_take [of n url "ascii s"] assms by simp

lemma url_parse_shape:
  assumes "url_parse url = Some u"
  shows "u_scheme u = [] \<and> u_path u = url \<and> (\<exists>p. url = 0x2f # p \<and> (p = [] \<or> hd p \<noteq> 0x2f))
    \<or> (\<exists>pre auth rest. url = pre @ auth @ rest \<and> map lower pre = u_scheme u @ ascii ''://'' \<and> u_scheme u \<noteq> []
         \<and> (\<forall>b\<in>set auth. b \<notin> {0x2f, 0x3f, 0x23, 0x40}) \<and> (rest = [] \<or> hd rest \<in> {0x2f, 0x3f, 0x23})
         \<and> u_host u = takeWhile (\<lambda>b. b \<noteq> 0x3a) auth
         \<and> (if 0x3a \<in> set auth then atoi (tl (dropWhile (\<lambda>b. b \<noteq> 0x3a) auth)) = Some (u_port u)
            else u_port u = (if u_scheme u = ascii ''http'' then 80 else 443))
         \<and> u_path u = (if rest = [] then [0x2f] else rest))"
proof -
  have whole: "url = take n url @ auth @ rest" if "drop n url = auth @ rest" for n auth rest
    using that by (metis append_take_drop_id)
  consider (path) "hd url = 0x2f" "url \<noteq> []" "\<not> (length url > 1 \<and> url ! 1 = 0x2f)" "u = url0\<lparr>u_path := url\<rparr>"
    | (http) "length url > 7" "same_nocase 7 url (ascii ''http://'')" "url_authority (ascii ''http'') 80 (drop 7 url) = Some u"
    | (https) "length url > 8" "same_nocase 8 url (ascii ''https://'')" "url_authority (ascii ''https'') 443 (drop 8 url) = Some u"
    using assms by (auto simp: url_parse_def split: if_splits)
  then show ?thesis
  proof cases
    case path
    then obtain p where "url = 0x2f # p" by (cases url) auto
    then show ?thesis using path by (cases p) (auto simp: url0_def)
  next
    case http
    have pre: "map lower (take 7 url) = ascii ''http'' @ ascii ''://''"
      using scheme_prefix [OF http(2) http(1)] by (simp add: ascii_def lower_def is_upper_def)
    from url_authority_shape [OF http(3)] obtain auth rest where ar: "drop 7 url = auth @ rest" "\<forall>b\<in>set auth. b \<notin> {0x2f, 0x3f, 0x23, 0x40}"
        "rest = [] \<or> hd rest \<in> {0x2f, 0x3f, 0x23}" "u_scheme u = ascii ''http''" "u_host u = takeWhile (\<lambda>b. b \<noteq> 0x3a) auth"
        "if 0x3a \<in> set auth then atoi (tl (dropWhile (\<lambda>b. b \<noteq> 0x3a) auth)) = Some (u_port u) else u_port u = 80"
        "u_path u = (if rest = [] then [0x2f] else rest)" by auto
    then show ?thesis using pre whole [OF ar(1)] by (intro disjI2 exI [of _ "take 7 url"] exI [of _ auth] exI [of _ rest]) (simp add: ascii_def)
  next
    case https
    have pre: "map lower (take 8 url) = ascii ''https'' @ ascii ''://''"
      using scheme_prefix [OF https(2) https(1)] by (simp add: ascii_def lower_def is_upper_def)
    from url_authority_shape [OF https(3)] obtain auth rest where ar: "drop 8 url = auth @ rest" "\<forall>b\<in>set auth. b \<notin> {0x2f, 0x3f, 0x23, 0x40}"
        "rest = [] \<or> hd rest \<in> {0x2f, 0x3f, 0x23}" "u_scheme u = ascii ''https''" "u_host u = takeWhile (\<lambda>b. b \<noteq> 0x3a) auth"
        "if 0x3a \<in> set auth then atoi (tl (dropWhile (\<lambda>b. b \<noteq> 0x3a) auth)) = Some (u_port u) else u_port u = 443"
        "u_path u = (if rest = [] then [0x2f] else rest)" by auto
    then show ?thesis using pre whole [OF ar(1)] by (intro disjI2 exI [of _ "take 8 url"] exI [of _ auth] exI [of _ rest]) (simp add: ascii_def)
  qed
qed

lemma allowed_permits:
  assumes "redirect_allowed allow url" "0 \<notin> set url"
  shows "\<exists>as a. allow = Some as \<and> a \<in> set as \<and> permits a url"
proof -
  obtain as u a where a: "allow = Some as" "url_parse url = Some u" "a \<in> set as" "allow_matches u a"
    using assms(1) by (auto simp: redirect_allowed_def list_ex_iff split: option.splits)
  note m = a(4) [unfolded allow_matches_def]
  have "permits a url"
    using url_parse_shape [OF a(2)]
  proof
    assume "u_scheme u = [] \<and> u_path u = url \<and> (\<exists>p. url = 0x2f # p \<and> (p = [] \<or> hd p \<noteq> 0x2f))"
    then show ?thesis using m prefix_bounded_under by (auto simp: permits_def)
  next
    assume "\<exists>pre auth rest. url = pre @ auth @ rest \<and> map lower pre = u_scheme u @ ascii ''://'' \<and> u_scheme u \<noteq> []
         \<and> (\<forall>b\<in>set auth. b \<notin> {0x2f, 0x3f, 0x23, 0x40}) \<and> (rest = [] \<or> hd rest \<in> {0x2f, 0x3f, 0x23})
         \<and> u_host u = takeWhile (\<lambda>b. b \<noteq> 0x3a) auth
         \<and> (if 0x3a \<in> set auth then atoi (tl (dropWhile (\<lambda>b. b \<noteq> 0x3a) auth)) = Some (u_port u)
            else u_port u = (if u_scheme u = ascii ''http'' then 80 else 443))
         \<and> u_path u = (if rest = [] then [0x2f] else rest)"
    then obtain pre auth rest where *: "url = pre @ auth @ rest" "map lower pre = u_scheme u @ ascii ''://''" "u_scheme u \<noteq> []"
         "\<forall>b\<in>set auth. b \<notin> {0x2f, 0x3f, 0x23, 0x40}" "rest = [] \<or> hd rest \<in> {0x2f, 0x3f, 0x23}"
         "u_host u = takeWhile (\<lambda>b. b \<noteq> 0x3a) auth"
         "if 0x3a \<in> set auth then atoi (tl (dropWhile (\<lambda>b. b \<noteq> 0x3a) auth)) = Some (u_port u)
            else u_port u = (if u_scheme u = ascii ''http'' then 80 else 443)"
         "u_path u = (if rest = [] then [0x2f] else rest)" by blast
    have s: "ra_scheme a = u_scheme u" "ra_port a = u_port u" "host_matches a (u_host u)" "prefix_bounded (u_path u) (ra_path a)"
      using m *(3) by auto
    have "0 \<notin> set (u_host u)" using assms(2) *(1,6) by (auto dest: set_takeWhileD)
    then have "under_host a (takeWhile (\<lambda>b. b \<noteq> 0x3a) auth)" using host_matches_under [OF s(3)] *(6) by simp
    moreover have "under_path (if rest = [] then [0x2f] else rest) (ra_path a)" using prefix_bounded_under [OF s(4)] *(8) by simp
    moreover have "at_port a auth" using *(7) s by (simp add: at_port_def)
    ultimately have "\<exists>pre auth rest. url = pre @ auth @ rest \<and> map lower pre = ra_scheme a @ ascii ''://''
             \<and> (\<forall>b\<in>set auth. b \<notin> {0x2f, 0x3f, 0x23, 0x40}) \<and> (rest = [] \<or> hd rest \<in> {0x2f, 0x3f, 0x23})
             \<and> under_host a (takeWhile (\<lambda>b. b \<noteq> 0x3a) auth) \<and> at_port a auth
             \<and> under_path (if rest = [] then [0x2f] else rest) (ra_path a)"
      unfolding s(1) using *(1,2,4,5) by (intro exI [of _ pre] exI [of _ auth] exI [of _ rest] conjI)
    moreover have "ra_scheme a \<noteq> []" using s(1) *(3) by simp
    ultimately show ?thesis by (simp only: permits_def if_False)
  qed
  then show ?thesis using a by blast
qed

text \<open>
  C37: An inspector sends a client only where the configuration permits. When the verdict of a decoded
  answer is redirect, the phase is the request, the address has no blank, no control character, no
  backslash and no more bytes than a header value may have, and some pattern of \<open>waf_redirect_allow\<close>
  permits it; with every other verdict there is no address and no status.
\<close>

theorem decoded_redirect_confined:
  assumes "msg_reply rc mc lc c index payload = Some (Inr r, c')"
  shows "if r_verdict r = V_REDIRECT
     then c_phase c = PH_REQUEST \<and> fr_status r \<in> {0, 302, 303, 307}
          \<and> (\<forall>b\<in>set (r_redirect_url r). 0x20 < b \<and> b < 0x7f \<and> b \<noteq> 0x5c)
          \<and> length (r_redirect_url r) \<le> rc_header_value_max rc
          \<and> (\<exists>as a. rc_redirect_allow rc = Some as \<and> a \<in> set as \<and> permits a (r_redirect_url r))
     else r_redirect_url r = [] \<and> fr_status r = 0"
proof (cases "r_verdict r = V_REDIRECT")
  case True
  then have *: "c_phase c = PH_REQUEST" "url_clean (rc_header_value_max rc) (r_redirect_url r)"
      "redirect_allowed (rc_redirect_allow rc) (r_redirect_url r)"
    using decoded(2) [OF assms] by (simp_all add: settled_def)
  have "\<forall>b\<in>set (r_redirect_url r). 0x20 < b \<and> b < 0x7f \<and> b \<noteq> 0x5c" "length (r_redirect_url r) \<le> rc_header_value_max rc"
    using *(2) by (simp_all add: url_clean_def list_all_iff not_le)
  moreover from this have "0 \<notin> set (r_redirect_url r)" by auto
  ultimately show ?thesis
    using True * allowed_permits decoded(1) [OF assms] by (simp add: reply_clean_def)
next
  case False
  then show ?thesis using decoded(2) [OF assms] by (simp add: settled_def)
qed


subsection \<open>Continuations\<close>

definition left_by :: "reply_conf \<Rightarrow> main_conf \<Rightarrow> nat \<Rightarrow> ctx \<Rightarrow> 'a \<times> ctx \<Rightarrow> bool" where
  "left_by rc mc i c x \<longleftrightarrow> snd x = c \<or> (\<exists>cont ttl. snd x = snd (reply_resume rc mc i cont ttl c))"

lemma left_by_intros:
  "left_by rc mc i c (x, c)"
  "left_by rc mc i c a \<Longrightarrow> left_by rc mc i c b \<Longrightarrow> left_by rc mc i c (if p then a else b)"
  "left_by rc mc i c a \<Longrightarrow> (\<And>v. left_by rc mc i c (f v)) \<Longrightarrow> left_by rc mc i c (case z of None \<Rightarrow> a | Some v \<Rightarrow> f v)"
  by (simp_all add: left_by_def split: option.split)

lemma left_by_resume:
  "left_by rc mc i c (case reply_resume rc mc i cont ttl c of (NGX_OK, c) \<Rightarrow> (Inr r, c) | (_, c) \<Rightarrow> (Inl e, c))"
proof (cases "reply_resume rc mc i cont ttl c")
  case (Pair rc' c')
  then have "snd (case (rc', c') of (NGX_OK, c) \<Rightarrow> (Inr r, c) | (_, c) \<Rightarrow> (Inl e, c)) = c'" by (cases rc') simp_all
  then show ?thesis unfolding left_by_def Pair by (metis Pair snd_conv)
qed

lemma msg_finish_ctx: "left_by rc mc i c (msg_finish rc mc i m c)"
  unfolding msg_finish_def Let_def prod.case_eq_if [of _ "ms_cont m"] by (intro left_by_intros left_by_resume)

lemma msg_reply_ctx:
  assumes "msg_reply rc mc lc c i payload = Some x"
  shows "left_by rc mc i c x"
proof (cases "i \<ge> length (mc_inspectors mc) \<or> length payload > rc_reply_max rc")
  case True
  then show ?thesis using assms by (auto simp: msg_reply_def left_by_def split: if_splits)
next
  case False
  obtain y where "msg_read rc mc lc c i (jp_init payload) = Some y"
    using assms False by (cases "msg_read rc mc lc c i (jp_init payload)") (auto simp: msg_reply_def)
  then have "x = (case y of Inl e \<Rightarrow> (Inl e, c) | Inr (m, _) \<Rightarrow> msg_finish rc mc i m c)"
    using assms False by (simp add: msg_reply_def)
  then show ?thesis using msg_finish_ctx by (cases y) (auto simp: left_by_intros)
qed

text \<open>The continuations of a request as the first one finds them.\<close>

definition conts :: "main_conf \<Rightarrow> ctx \<Rightarrow> cont list" where
  "conts mc c = (case c_cont c of None \<Rightarrow> replicate (length (mc_inspectors mc)) cont0 | Some ks \<Rightarrow> ks)"

definition own_subject :: "inspector \<Rightarrow> bytes \<Rightarrow> bool" where
  "own_subject insp s \<longleftrightarrow> (\<exists>t. s = i_subject insp @ 0x2e # t) \<and> (\<forall>b\<in>set s. 0x20 < b \<and> b \<notin> {0x2a, 0x3e, 0x7f})"

lemma own_subjectI:
  assumes "length own < length s" "take (length own) s = own" "s ! length own = 0x2e"
  shows "\<exists>t. s = own @ 0x2e # t"
  using assms id_take_nth_drop [of "length own" s] by auto

lemma resume_ctx:
  "snd (reply_resume rc mc i subject ttl c) = c
   \<or> c_phase c = PH_REQUEST
     \<and> (snd (reply_resume rc mc i subject ttl c) = c\<lparr>c_cont := Some (conts mc c)\<rparr>
        \<or> (\<exists>x. own_subject (mc_inspectors mc ! i) (k_subject x)
              \<and> snd (reply_resume rc mc i subject ttl c) = c\<lparr>c_cont := Some ((conts mc c)[i := x])\<rparr>))"
proof (cases "c_phase c = PH_REQUEST \<and> subject_publishable subject
    \<and> length (i_subject (mc_inspectors mc ! i)) < length subject
    \<and> take (length (i_subject (mc_inspectors mc ! i))) subject = i_subject (mc_inspectors mc ! i)
    \<and> subject ! length (i_subject (mc_inspectors mc ! i)) = 0x2e")
  case True
  then have "own_subject (mc_inspectors mc ! i) subject"
    using own_subjectI by (auto simp: own_subject_def subject_publishable_def list_all_iff not_le)
  then have own: "own_subject (mc_inspectors mc ! i) (k_subject \<lparr>k_subject = subject, k_size = n, k_expires = t\<rparr>)" for n t by simp
  have eq: "reply_resume rc mc i subject ttl c =
      resume_keep (rc_cont_calloc rc) (rc_cont_alloc rc) mc (rc_now rc) i subject (word_of_int ttl) c"
    using True by (simp add: reply_resume_def Let_def)
  show ?thesis
  proof (cases "c_cont c = None \<and> \<not> rc_cont_calloc rc")
    case True
    then show ?thesis by (simp add: eq resume_keep_def)
  next
    case go: False
    note kept = eq [unfolded resume_keep_def if_not_P [OF go] Let_def conts_def [symmetric]]
    show ?thesis
    proof (cases "length subject > k_size (conts mc c ! i) \<and> \<not> rc_cont_alloc rc")
      case False
      then have "snd (reply_resume rc mc i subject ttl c) = c\<lparr>c_cont := Some ((conts mc c)[i := \<lparr>k_subject = subject,
          k_size = max (k_size (conts mc c ! i)) (length subject), k_expires = rc_now rc + word_of_int ttl\<rparr>])\<rparr>"
        unfolding kept by (simp only: if_False snd_conv ctx.update_convs) simp
      then show ?thesis using own True by blast
    qed (use True kept in simp)
  qed
next
  case False
  then show ?thesis by (auto simp: reply_resume_def Let_def)
qed

text \<open>
  C38: An inspector leads only its own thread on. Decoding an answer, accepted or not, changes nothing of
  the request but its continuations, and these only on the request phase: the entries of all other
  inspectors stay as they are, and the one of the sender either stays too or gets a subject that lies
  below the inspector's own subject and holds neither a wildcard nor a blank.
\<close>

theorem continuation_confined:
  assumes "msg_reply rc mc lc c index payload = Some (res, c')"
  shows "c' = c\<lparr>c_cont := c_cont c'\<rparr>
     \<and> (c_cont c' \<noteq> c_cont c \<longrightarrow>
          c_phase c = PH_REQUEST
          \<and> (\<exists>ks. c_cont c' = Some ks \<and> length ks = length (conts mc c) \<and> (\<forall>k. k \<noteq> index \<longrightarrow> ks ! k = conts mc c ! k)
                \<and> (ks ! index = conts mc c ! index \<or> own_subject (mc_inspectors mc ! index) (k_subject (ks ! index)))))"
proof -
  have new: "ks[i := x] ! i = ks ! i \<or> ks[i := x] ! i = x" for ks :: "cont list" and i x
    by (cases "i < length ks") (simp_all add: list_update_beyond not_less)
  from msg_reply_ctx [OF assms] consider "c' = c" | cont ttl where "c' = snd (reply_resume rc mc index cont ttl c)"
    by (auto simp: left_by_def)
  then show ?thesis
  proof cases
    case 2
    consider "c' = c"
      | "c_phase c = PH_REQUEST" "c' = c\<lparr>c_cont := Some (conts mc c)\<rparr>"
      | x where "c_phase c = PH_REQUEST" "own_subject (mc_inspectors mc ! index) (k_subject x)"
          "c' = c\<lparr>c_cont := Some ((conts mc c)[index := x])\<rparr>"
      using resume_ctx [of rc mc index cont ttl c, folded 2] by blast
    then show ?thesis
    proof cases
      case (3 x)
      then show ?thesis using new [of "conts mc c" index x] by auto
    qed simp_all
  qed simp
qed

subsection \<open>Answers through the bus\<close>

text \<open>The decoder as the bus calls it.\<close>

definition decode_answer :: "reply_conf \<Rightarrow> main_conf \<Rightarrow> loc_conf \<Rightarrow> decoder" where
  "decode_answer rc mc lc c index payload =
     (case msg_reply rc mc lc c index payload of
        Some (Inr r, c') \<Rightarrow> (Some (reply.truncate r), c_cont c')
      | Some (Inl e, c') \<Rightarrow> (None, c_cont c')
      | None \<Rightarrow> (None, c_cont c))"

lemma msg_reply_cont_only:
  assumes "msg_reply rc mc lc c i payload = Some (res, c')" shows "c' = c\<lparr>c_cont := c_cont c'\<rparr>"
proof -
  from msg_reply_ctx [OF assms] consider "c' = c" | cont ttl where "c' = snd (reply_resume rc mc i cont ttl c)"
    by (auto simp: left_by_def)
  then show ?thesis
  proof cases
    case 2
    then show ?thesis using resume_ctx [of rc mc i cont ttl c] by auto
  qed simp
qed


text \<open>
  C40: Whatever an inspector sends, the score of a phase stays exact and bounded: after the first answer of
  an inspector is decoded and absorbed, with all the actions it carries, the score is the sum of what
  the stored, not passive answers contribute and lies between 0 and 100 for each inspector.
\<close>

theorem decoded_score_bounded:
  assumes "score_ok c" and "p_replies (ph c) = Some rs" and "index < length rs" and "\<not> r_received (rs ! index)"
    and "msg_reply rc mc lc c index payload = Some (Inr r, c')"
  shows "let c'' = absorb e mc lc index (reply.truncate r) w latency sw c' in
         score_ok c'' \<and> 0 \<le> p_score (ph c'') \<and> p_score (ph c'') \<le> SCORE_MAX * int (length rs)"
proof -
  have c': "c' = c\<lparr>c_cont := c_cont c'\<rparr>" by (rule msg_reply_cont_only [OF assms(5)])
  then have ph: "ph c' = ph c" "c_phase c' = c_phase c" by (metis ctx.ext_inject ctx.surjective ctx.update_convs(12) ph_def)+
  have ok: "score_ok c'" using assms(1,2) ph by (simp add: score_ok_def)
  have "reply_ok (c_phase c') (reply.truncate r)"
    using decoded [OF assms(5)] ph(2) by (auto simp: reply_ok_def reply.defs settled_def reply_clean_def split: if_splits)
  note absorbed = absorb_score_ok [OF ok _ assms(3,4) this, unfolded ph(1), OF assms(2)]
  then obtain rs' where "p_replies (ph (absorb e mc lc index (reply.truncate r) w latency sw c')) = Some rs'" "length rs' = length rs"
    by blast
  then show ?thesis using absorbed(1) score_ok_bound by (metis (mono_tags, lifting))
qed


subsection \<open>An answer\<close>

definition sample_rc :: reply_conf where
  "sample_rc = \<lparr>rc_reply_max = 512, rc_header_value_max = 128, rc_args_cap = 64, rc_node_id = ascii ''n1'',
     rc_redirect_allow = Some [\<lparr>ra_scheme = ascii ''https'', ra_host = ascii ''example.org'', ra_path = [], ra_port = 443,
       ra_wildcard = True\<rparr>],
     rc_action_max = 512, rc_string = (\<lambda>_. True), rc_array = (\<lambda>_. True), rc_cont_calloc = True, rc_cont_alloc = True,
     rc_now = 7\<rparr>"

text \<open>Single quotes stand for the quotes of the JSON text.\<close>

definition json_text :: "string \<Rightarrow> bytes" where
  "json_text s = map (\<lambda>b. if b = 0x27 then 0x22 else b) (ascii s)"

definition sample_answer :: bytes where
  "sample_answer = json_text (concat
     [''{ 'v':2, 'verdict':'redirect', 'redirect':{'url':'https://a.example.org/x'},'',
      '' 'headers':{'set':{'x-a':'b','Host':'evil'}}, 'cookies':[{'name':'s','value':'1'}],'',
      '' 'continue':{'subject':'s.7','ttl_ms':50} }''])"

lemma sample_read:
  "case msg_read sample_rc mc lc c i (jp_init sample_answer) of
     Some (Inr (m, k)) \<Rightarrow> ms_version m = 2 \<and> ms_verdict m = Some V_REDIRECT \<and> ms_cont m = (ascii ''s.7'', 50)
       \<and> r_redirect_url (ms_reply m) = ascii ''https://a.example.org/x''
       \<and> fr_headers_set (ms_reply m) = [(ascii ''x-a'', ascii ''b'')] \<and> length (fr_cookies (ms_reply m)) = 1
   | _ \<Rightarrow> False"
  by code_simp

lemma sample_url:
  "url_clean (rc_header_value_max sample_rc) (ascii ''https://a.example.org/x'')"
  "redirect_allowed (rc_redirect_allow sample_rc) (ascii ''https://a.example.org/x'')"
  "length sample_answer \<le> rc_reply_max sample_rc"
  by code_simp+

lemma sample_resume:
  "c_phase c = PH_REQUEST \<Longrightarrow> \<exists>c'. reply_resume sample_rc sample_main 0 (ascii ''s.7'') 50 c = (NGX_OK, c')"
  by (simp add: reply_resume_def sample_main_def sample_rc_def subject_publishable_def resume_keep_def Let_def ascii_def
      split: option.split)

lemma sample_decoded:
  obtains r c' where "msg_reply sample_rc sample_main sample_conf sample_ctx 0 sample_answer = Some (Inr r, c')"
    "r_verdict r = V_REDIRECT" "r_redirect_url r = ascii ''https://a.example.org/x''"
    "fr_headers_set r = [(ascii ''x-a'', ascii ''b'')]" "length (fr_cookies r) = 1"
proof -
  obtain m k where m: "msg_read sample_rc sample_main sample_conf sample_ctx 0 (jp_init sample_answer) = Some (Inr (m, k))"
      "ms_version m = 2" "ms_verdict m = Some V_REDIRECT" "ms_cont m = (ascii ''s.7'', 50)"
      "r_redirect_url (ms_reply m) = ascii ''https://a.example.org/x''"
      "fr_headers_set (ms_reply m) = [(ascii ''x-a'', ascii ''b'')]" "length (fr_cookies (ms_reply m)) = 1"
    using sample_read [of sample_main sample_conf sample_ctx 0] by (auto split: option.splits sum.splits)
  obtain c' where c': "reply_resume sample_rc sample_main 0 (ascii ''s.7'') 50 sample_ctx = (NGX_OK, c')"
    using sample_resume [OF sample_ctx_replies(2)] by blast
  have ne: "ascii ''s.7'' \<noteq> []" "ascii ''https://a.example.org/x'' \<noteq> []" by (simp_all add: ascii_def)
  let ?r = "(ms_reply m)\<lparr>r_verdict := V_REDIRECT, r_score := 0\<rparr>"
  have "msg_finish sample_rc sample_main 0 m sample_ctx = (Inr ?r, c')"
    using m(2-) c' ne sample_url(1,2) sample_ctx_replies(2) by (simp add: msg_finish_def)
  then have "msg_reply sample_rc sample_main sample_conf sample_ctx 0 sample_answer = Some (Inr ?r, c')"
    using m(1) sample_url(3) by (simp add: msg_reply_def sample_main_def)
  then show thesis using that m(5-7) by simp
qed


theorem decoded_no_injection_witness:
  "\<exists>r c'. msg_reply sample_rc sample_main sample_conf sample_ctx 0 sample_answer = Some (Inr r, c')
     \<and> fr_headers_set r = [(ascii ''x-a'', ascii ''b'')] \<and> map lower (ascii ''x-a'') \<notin> set forbidden_headers"
proof -
  obtain r c' where r: "msg_reply sample_rc sample_main sample_conf sample_ctx 0 sample_answer = Some (Inr r, c')"
      "fr_headers_set r = [(ascii ''x-a'', ascii ''b'')]" by (rule sample_decoded)
  then have "map lower (ascii ''x-a'') \<notin> set forbidden_headers"
    using decoded_no_injection [OF r(1)] by simp
  then show ?thesis using r by blast
qed

theorem decoded_redirect_confined_witness:
  "\<exists>a. a \<in> set (the (rc_redirect_allow sample_rc)) \<and> permits a (ascii ''https://a.example.org/x'')"
proof -
  obtain r c' where r: "msg_reply sample_rc sample_main sample_conf sample_ctx 0 sample_answer = Some (Inr r, c')"
      "r_verdict r = V_REDIRECT" "r_redirect_url r = ascii ''https://a.example.org/x''" by (rule sample_decoded)
  then show ?thesis using decoded_redirect_confined [OF r(1)] by auto
qed

theorem continuation_confined_witness:
  "\<exists>res c'. msg_reply sample_rc sample_main sample_conf sample_ctx 0 sample_answer = Some (res, c')
     \<and> c' = sample_ctx\<lparr>c_cont := c_cont c'\<rparr>"
proof -
  obtain r c' where r: "msg_reply sample_rc sample_main sample_conf sample_ctx 0 sample_answer = Some (Inr r, c')"
    by (rule sample_decoded)
  then show ?thesis using continuation_confined [OF r] by blast
qed

theorem decoded_score_bounded_witness:
  "\<exists>r c'. msg_reply sample_rc sample_main sample_conf sample_ctx 0 sample_answer = Some (Inr r, c')
     \<and> 0 \<le> p_score (ph (absorb sample_env sample_main sample_conf 0 (reply.truncate r) (sample_waves ! 0) 3 0 c'))"
proof -
  obtain r c' where r: "msg_reply sample_rc sample_main sample_conf sample_ctx 0 sample_answer = Some (Inr r, c')"
    by (rule sample_decoded)
  have "\<not> r_received (replicate 3 reply0 ! 0)" by (simp add: reply0_def)
  then show ?thesis
    using decoded_score_bounded [OF sample_ctx_score sample_ctx_replies(1) _ _ r] r by (auto simp: Let_def)
qed

end
