(* ===== verification/Spec2Isabelle.thy ===== *)
theory Spec2Isabelle
  imports Handler_Props Json_Round Frame_Run Frame_Verdict Rate_Props Reply_Props
begin

text \<open>
  Verification of the nginx module of placitum-node
  (\<open>src/module/src\<close>), a web application firewall that asks external inspectors over a message
  bus for their opinion on a request and turns their answers into one verdict.

  \<^bold>\<open>The program.\<close> A request enters through the access handler
  (\<open>runtime/ngx_http_waf_handler.c\<close>). After the local checks the handler takes a wait slot from
  the table of its worker (\<open>runtime/ngx_http_waf_slot.c\<close>), publishes the lines of the first
  wave of its phase on the bus (\<open>bus/ngx_http_waf_bus.c\<close>), arms a deadline and suspends. An
  answer names the request by its id; the bus looks the slot up, decodes the answer and hands it to
  the handler, which accounts for it (\<open>runtime/ngx_http_waf_verdict.c\<close>) and, when the wave is
  complete, starts the next wave or concludes: it drops the slot and resolves the verdict over all
  stored answers. The waves of a phase and the deliveries between inspectors are built once from the
  configuration (\<open>core/ngx_http_waf_graph.c\<close>); a circuit breaker per inspector lives in shared
  memory (\<open>local/ngx_http_waf_breaker.c\<close>). Messages are JSON
  (\<open>codec/ngx_http_waf_json.c\<close>). When a request becomes a WebSocket connection the module
  stays between client and upstream and inspects its frames
  (\<open>stream/ngx_http_waf_frame.c\<close>): it cuts the byte stream into frames, holds a frame until its
  verdict is there, remembers verdicts on frames it has seen by their SHA-256
  (\<open>core/ngx_http_waf_sha256.c\<close>), and closes the connection on a denial. Rate limits count
  requests per key in a shared zone (\<open>local/ngx_http_waf_rate.c\<close>).

  \<^bold>\<open>The theories\<close>, in the order of the imports:

  \<^item> \<^verbatim>\<open>Waf_Prelude\<close>: bytes, 64-bit masks, millisecond clocks that wrap, lemmas on lists
    and words shared by all the others, and the locale \<open>keyed_array\<close> of arrays in which at most one
    element has a key.
  \<^item> \<^verbatim>\<open>Waf_Types\<close>: the enumerations and structures of \<open>ngx_http_waf.h\<close>, with the
    updates of a request context.
  \<^item> \<^verbatim>\<open>Slot_Table\<close>: the slot table with its free list and generations, request ids and event
    ids. The locale \<open>wait_slots\<close> states what the users of slots rely on, and the table interprets it.
  \<^item> \<^verbatim>\<open>Breaker\<close>: the circuit breakers, including workers that race for the probe.
  \<^item> \<^verbatim>\<open>Wave_Graph\<close>: waves, deliverability of actions, continuations kept between phases.
  \<^item> \<^verbatim>\<open>Verdict\<close>, \<^verbatim>\<open>Verdict_Laws\<close>, \<^verbatim>\<open>Verdict_Props\<close>: accounting of an answer, merging of
    actions and sessions, control actions, the masks of a wave, the resolution of the verdict.
  \<^item> \<^verbatim>\<open>Handler\<close>, \<^verbatim>\<open>Handler_Laws\<close>, \<^verbatim>\<open>Wave_Start\<close>: the handler's operations on a node
    (slot table, contexts, breakers, timers, log of messages sent), the start of the waves, and the
    locale \<open>ctx_law\<close>, which lifts a law of one answer to all events.
  \<^item> \<^verbatim>\<open>Request_Life\<close>, \<^verbatim>\<open>Handler_Props\<close>: the worker as a step relation over all events that
    can reach a request, the invariant of every reachable state, and the properties of the handler.
  \<^item> \<^verbatim>\<open>Json\<close>, \<^verbatim>\<open>Json_Laws\<close>, \<^verbatim>\<open>Json_Round\<close>: the JSON writer and parser, the grammar of a
    skipped value, the bounds of the buffers and the round trips of strings and integers.
  \<^item> \<^verbatim>\<open>Reply_Clean\<close>, \<^verbatim>\<open>Reply\<close>, \<^verbatim>\<open>Reply_Laws\<close>, \<^verbatim>\<open>Reply_Safe\<close>, \<^verbatim>\<open>Reply_Props\<close>: the decoder of answers
    (\<open>codec/ngx_http_waf_msg_reply.c\<close>): the checks of names, values and addresses, the sections read with
    the pull parser, the rules for readers that give termination and an invariant at once, what every
    section keeps, and the properties of a decoded answer.
  \<^item> \<^verbatim>\<open>Sha256\<close>: the streaming hash beside the one over the whole padded message.
  \<^item> \<^verbatim>\<open>Frame_Cache\<close>: the cache of verdicts on frames, with its expiry and its size.
  \<^item> \<^verbatim>\<open>Frame\<close>, \<^verbatim>\<open>Frame_Laws\<close>, \<^verbatim>\<open>Frame_Props\<close>: the parser of one direction of a
    connection, what one of its turns keeps, and that it returns or where it does not.
  \<^item> \<^verbatim>\<open>Frame_Conn\<close>, \<^verbatim>\<open>Frame_Run\<close>, \<^verbatim>\<open>Frame_Verdict\<close>: the two directions with their
    buffers, the pump between the sockets, every run of a connection, and the outcome of a verdict on a
    frame.
  \<^item> \<^verbatim>\<open>Rate\<close>, \<^verbatim>\<open>Rate_Laws\<close>, \<^verbatim>\<open>Rate_Props\<close>: the zone of a limit with its queue and its
    lookup tree, the laws of the leaky bucket, and the bound on what a key is let through.

  \<^bold>\<open>What the lemmas show.\<close> Of the slot table: every reachable table is consistent, ids of
  released slots are stale, live requests are apart. Of the breaker: when it opens, that it declines
  while it is open, that one probe is let through and that of racing workers one wins. Of the graph:
  the waves are the lines grouped by number, deliverability is what its specification says, a kept
  continuation is resumed. Of the verdict: the masks of a wave are the roles of the inspectors, the
  decision table, the exact and bounded score, that a passive inspector has no say. Of the handler:
  no waiting request loses its slot or its deadline in any sequence of events, a deadline concludes,
  a denial sticks, unexpected answers change nothing, waves start and end, rewrites exclude each
  other. Of the JSON codec: no buffer is overrun, a written value is read back, and the iterative
  skip is the recursive grammar. Of the decoder of answers: decoding ends on every text, a decoded answer
  is well formed, nothing in it breaks out of a header, a cookie or an argument, a redirect goes only
  where the configuration permits, only the sender's own continuation changes, the decoder the bus is
  given is this one, and the score stays bounded for any text. Of the hash: feeding a message in pieces gives the hash of the whole.
  Of the frames: nothing inspected is forwarded without an approval, a cache hit repeats a verdict that
  was stored and has not expired, the buffer towards the client is never overrun, the parser returns for
  every input but the one described in \<^verbatim>\<open>Frame_Props\<close>, and a verdict on a frame has the outcome its
  decision table gives. Of the rate limits: the requests let through within an interval stay within the
  rate and the burst, and queue, tree and memory of a zone agree in every reachable zone.

  \<^bold>\<open>Parameters.\<close> What the code gets from nginx, from the allocator and from the parts of the
  module outside this development is an argument: the checksum of nginx, whether each allocation
  succeeds, whether a message could be built and published, the conditions of the
  lines, the outcome of placing and fetching bodies, of the local checks and of applying a verdict
  (record \<open>env\<close>); for a connection what the sockets take and deliver and what inspectors say
  (record \<open>frame_env\<close>); for the rate limits the red-black tree of nginx, through the laws it
  documents, the slab allocator and the value of the key; for the decoder the configuration, the
  allocator and the clock (record \<open>reply_conf\<close>). The bus takes the decoder as an argument, and
  \<^verbatim>\<open>Reply_Props\<close> gives it \<open>decode_answer\<close>. The string helpers of nginx that mirror a function
  of C (\<open>ngx_strncasecmp\<close>, \<open>ngx_atoi\<close>, \<open>ngx_hextoi\<close>) are modelled as that function. The theorems
  hold for all of them.

  \<^bold>\<open>Termination and bounds.\<close> No definition uses fuel. Loops over masks, waves and bytes
  terminate by explicit measures: the bits left, the waves left, the bytes left. The loop of the frame
  parser need not end, so it is a partial function into an option, and that it returns is a theorem with
  the exact exception stated. The loops of the decoder over the members of an object and the elements of
  an array are partial functions of the same kind, and they are shown to return on every text, by the
  bytes left. Masks, identifiers,
  clocks and characters are machine words; counters that the code bounds below the width of their
  type are natural numbers or integers, with the bound proved where it matters (the score).

  \<^bold>\<open>Not modelled.\<close> Reading the configuration, the drivers of the message bus and of the object
  store, and the nginx filters are input and output around the logic above. The data sets and the audit record are
  components of their own that the handler calls through the parameters above. Within the modelled
  files the log lines, the release messages of kept continuations and the stripping of WebSocket
  extensions are left out; of the frames the
  logging and the building of the messages to the inspectors.
\<close>

end
